(* ===== verification/Prelude.thy ===== *)
theory Prelude
  imports Main "HOL-Library.Word"
begin

text \<open>
  What every component shares: names for the C integer types of the i686 build, the flat
  32-bit physical memory, the part of the machine state every kernel routine may touch
  (\<open>kernel\<close>), little-endian
  words, and the generic lemmas on offsets, lists and ranges the component proofs use.
  Pointers, \<open>size_t\<close>, \<open>uintptr_t\<close> and \<open>unsigned long\<close> are 32 bits wide on this target.
  A C \<open>char\<close> is a HOL \<open>char\<close> (both have 256 values); a raw byte of memory or disk is
  an \<open>8 word\<close>.
\<close>

unbundle bit_operations_syntax

section \<open>Types\<close>

type_synonym u8 = "8 word"
type_synonym u16 = "16 word"
type_synonym u32 = "32 word"
type_synonym u64 = "64 word"
type_synonym memory = "u32 \<Rightarrow> u8"

text \<open>
  The state every kernel routine sees: flat memory, the console transcript (the calls made
  to \<open>tty_putc\<close> and \<open>tty_clear\<close>, oldest first; the theory of the terminal says what each
  does to the screen), \<open>ports\<close>, the writes to I/O ports (oldest first), the timer count
  \<open>ticks\<close>, \<open>halted\<close>, set by a panic, which never
  returns, and \<open>stuck\<close>, set once the run has reached behaviour C leaves undefined, after
  which the rest of the state means nothing.
\<close>

datatype con_event = Out char | Clr

datatype port_event = Outb u16 u8 | Outw u16 u16 | Outl u16 u32

record kernel =
  mem :: memory
  con :: "con_event list"
  ports :: "port_event list"
  ticks :: u32
  halted :: bool
  stuck :: bool

definition outb :: "u16 \<Rightarrow> u8 \<Rightarrow> 'a kernel_scheme \<Rightarrow> 'a kernel_scheme" where
  "outb port val s = s\<lparr>ports := ports s @ [Outb port val]\<rparr>"

definition outw :: "u16 \<Rightarrow> u16 \<Rightarrow> 'a kernel_scheme \<Rightarrow> 'a kernel_scheme" where
  "outw port val s = s\<lparr>ports := ports s @ [Outw port val]\<rparr>"

definition outl :: "u16 \<Rightarrow> u32 \<Rightarrow> 'a kernel_scheme \<Rightarrow> 'a kernel_scheme" where
  "outl port val s = s\<lparr>ports := ports s @ [Outl port val]\<rparr>"

text \<open>Control characters the sources write as \<open>\\b\<close>, \<open>\\t\<close>, \<open>\\n\<close>, \<open>\\r\<close> and the backslash.\<close>

abbreviation BS :: char where "BS \<equiv> CHR 0x08"
abbreviation TAB :: char where "TAB \<equiv> CHR 0x09"
abbreviation NL :: char where "NL \<equiv> CHR 0x0A"
abbreviation CR :: char where "CR \<equiv> CHR 0x0D"
abbreviation BSLASH :: char where "BSLASH \<equiv> CHR 0x5C"
abbreviation NUL :: char where "NUL \<equiv> CHR 0x00"

named_theorems offsets \<open>distinctness and bounds of addresses at small offsets\<close>
named_theorems frame \<open>what an operation leaves alone\<close>

section \<open>Characters and bytes\<close>

definition byte_of_char :: "char \<Rightarrow> u8" where
  "byte_of_char c = of_char c"

definition char_of_byte :: "u8 \<Rightarrow> char" where
  "char_of_byte b = char_of (unat b)"

lemma char_of_byte_of_char [simp]: "char_of_byte (byte_of_char c) = c"
proof -
  have "(of_char c :: u8) = of_nat (of_char c)"
    by (simp only: of_nat_of_char)
  then have "unat (of_char c :: u8) = of_char c mod 256"
    by (simp only: unat_of_nat) simp
  then show ?thesis by (simp add: char_of_byte_def byte_of_char_def)
qed


lemma byte_of_char_eq_iff [simp]: "byte_of_char a = byte_of_char b \<longleftrightarrow> a = b"
  by (metis char_of_byte_of_char)

section \<open>Little-endian words and flat memory\<close>

definition le16 :: "u8 \<Rightarrow> u8 \<Rightarrow> u16" where
  "le16 b0 b1 = ucast b0 OR push_bit 8 (ucast b1)"

definition le32 :: "u8 \<Rightarrow> u8 \<Rightarrow> u8 \<Rightarrow> u8 \<Rightarrow> u32" where
  "le32 b0 b1 b2 b3 =
     ucast b0 OR push_bit 8 (ucast b1) OR push_bit 16 (ucast b2) OR push_bit 24 (ucast b3)"

definition byte_n :: "'a::len word \<Rightarrow> nat \<Rightarrow> u8" where
  "byte_n w n = ucast (drop_bit (8 * n) w)"

definition ld16 :: "memory \<Rightarrow> u32 \<Rightarrow> u16" where
  "ld16 m a = le16 (m a) (m (a + 1))"

definition ld32 :: "memory \<Rightarrow> u32 \<Rightarrow> u32" where
  "ld32 m a = le32 (m a) (m (a + 1)) (m (a + 2)) (m (a + 3))"

definition st16 :: "u32 \<Rightarrow> u16 \<Rightarrow> memory \<Rightarrow> memory" where
  "st16 a w m = m(a := byte_n w 0, a + 1 := byte_n w 1)"

definition st32 :: "u32 \<Rightarrow> u32 \<Rightarrow> memory \<Rightarrow> memory" where
  "st32 a w m = m(a := byte_n w 0, a + 1 := byte_n w 1, a + 2 := byte_n w 2, a + 3 := byte_n w 3)"

lemma bit_le32:
  "bit (le32 b0 b1 b2 b3) n \<longleftrightarrow>
     (if n < 8 then bit b0 n else if n < 16 then bit b1 (n - 8)
      else if n < 24 then bit b2 (n - 16) else n < 32 \<and> bit b3 (n - 24))"
  by (auto simp: le32_def bit_simps dest: bit_imp_le_length)

lemma bit_le16:
  "bit (le16 b0 b1) n \<longleftrightarrow> (if n < 8 then bit b0 n else n < 16 \<and> bit b1 (n - 8))"
  by (auto simp: le16_def bit_simps dest: bit_imp_le_length)

lemma bit_byte_n: "bit (byte_n w i) n \<longleftrightarrow> n < 8 \<and> bit w (8 * i + n)"
  by (auto simp: byte_n_def bit_simps dest: bit_imp_le_length)

lemma byte_n_le32 [simp]:
  "byte_n (le32 b0 b1 b2 b3) 0 = b0" "byte_n (le32 b0 b1 b2 b3) (Suc 0) = b1"
  "byte_n (le32 b0 b1 b2 b3) 1 = b1"
  "byte_n (le32 b0 b1 b2 b3) 2 = b2" "byte_n (le32 b0 b1 b2 b3) 3 = b3"
  by (auto intro!: bit_word_eqI simp: bit_byte_n bit_le32)

lemma byte_n_le16 [simp]:
  "byte_n (le16 b0 b1) 0 = b0" "byte_n (le16 b0 b1) (Suc 0) = b1" "byte_n (le16 b0 b1) 1 = b1"
  by (auto intro!: bit_word_eqI simp: bit_byte_n bit_le16)

lemma le32_byte_n [simp]: "le32 (byte_n w 0) (byte_n w 1) (byte_n w 2) (byte_n w 3) = (w :: u32)"
  by (rule bit_word_eqI) (auto simp: bit_byte_n bit_le32)

lemma le32_byte_n_Suc [simp]:
  "le32 (byte_n w 0) (byte_n w (Suc 0)) (byte_n w 2) (byte_n w 3) = (w :: u32)"
  using le32_byte_n [of w] by simp

lemma le16_byte_n [simp]: "le16 (byte_n w 0) (byte_n w 1) = (w :: u16)"
  by (rule bit_word_eqI) (auto simp: bit_byte_n bit_le16)

lemma le16_byte_n_Suc [simp]: "le16 (byte_n w 0) (byte_n w (Suc 0)) = (w :: u16)"
  using le16_byte_n [of w] by simp

lemma le32_eq_iff [simp]:
  "le32 a b c d = le32 a' b' c' d' \<longleftrightarrow> a = a' \<and> b = b' \<and> c = c' \<and> d = d'"
  by (metis byte_n_le32(1,3,4,5))

lemma le32_all_ones: "le32 a b c d = - 1 \<longleftrightarrow> a = - 1 \<and> b = - 1 \<and> c = - 1 \<and> d = - 1"
proof -
  have "le32 (- 1) (- 1) (- 1) (- 1) = - 1"
    by (rule bit_word_eqI) (auto simp: bit_le32)
  then show ?thesis by (metis le32_eq_iff)
qed

lemma ld16_st16 [simp]: "ld16 (st16 a w m) a = w"
  by (simp add: ld16_def st16_def)

lemma ld32_st32 [simp]: "ld32 (st32 a w m) a = w"
proof -
  have "le32 (byte_n w 0) (byte_n w 1) (byte_n w 2) (byte_n w 3) = w" by (rule le32_byte_n)
  then show ?thesis by (simp add: ld32_def st32_def)
qed

text \<open>Simplification turns a bit of a word numeral into a bit of the same integer.\<close>

lemma bit_low_mask:
  "bit (0xFF :: int) k \<longleftrightarrow> k < 8" "bit (0xFFFF :: int) k \<longleftrightarrow> k < 16"
  "bit (0xFF :: u16) k \<longleftrightarrow> k < 8" "bit (0xFFFF :: u16) k \<longleftrightarrow> k < 16"
  "bit (0xFF :: u32) k \<longleftrightarrow> k < 8" "bit (0xFFFF :: u32) k \<longleftrightarrow> k < 16"
proof -
  have mask: "(0xFF :: int) = mask 8" "(0xFFFF :: int) = mask 16" "(0xFF :: u16) = mask 8"
    "(0xFFFF :: u16) = mask 16" "(0xFF :: u32) = mask 8" "(0xFFFF :: u32) = mask 16"
    by (simp_all add: mask_eq_exp_minus_1)
  show "bit (0xFF :: int) k \<longleftrightarrow> k < 8" "bit (0xFFFF :: int) k \<longleftrightarrow> k < 16"
    "bit (0xFF :: u16) k \<longleftrightarrow> k < 8" "bit (0xFFFF :: u16) k \<longleftrightarrow> k < 16"
    "bit (0xFF :: u32) k \<longleftrightarrow> k < 8" "bit (0xFFFF :: u32) k \<longleftrightarrow> k < 16"
    unfolding mask by (auto simp: bit_mask_iff)
qed

section \<open>Signed reading of a 32-bit word\<close>

lemma sint_u32_eq: "sint (w :: u32) = (if uint w < 2 ^ 31 then uint w else uint w - 2 ^ 32)"
proof -
  have "sint w = (uint w + 2 ^ 31) mod 2 ^ 32 - 2 ^ 31"
    using int_word_sint [of "uint w", where 'a = 32] by simp
  moreover have "0 \<le> uint w" "uint w < 2 ^ 32" using uint_lt2p [of w] by simp_all
  ultimately show ?thesis by (simp add: mod_pos_pos_trivial mod_pos_geq)
qed

lemma int_unat_u32: "int (unat (w :: u32)) = uint w"
  by simp

lemma unat_sint_nonneg: "0 \<le> sint (w :: u32) \<Longrightarrow> unat w = nat (sint w)"
proof -
  assume "0 \<le> sint w"
  then have "sint w = uint w"
    using uint_lt2p [of w] by (simp add: sint_u32_eq split: if_splits)
  then show ?thesis using int_unat_u32 [of w] by linarith
qed

lemma unat_neg_sint: "sint (w :: u32) < 0 \<Longrightarrow> unat (- w) = nat (- sint w)"
proof -
  assume neg: "sint w < 0"
  have "uint (- w) = (- uint w) mod 2 ^ 32" by (simp add: uint_word_ariths)
  moreover have "2 ^ 31 \<le> uint w" "sint w = uint w - 2 ^ 32" "uint w < 2 ^ 32"
    using neg uint_lt2p [of w] uint_ge_0 [of w] by (simp_all add: sint_u32_eq split: if_splits)
  ultimately have "uint (- w) = - sint w" by (simp add: zmod_zminus1_eq_if)
  then show ?thesis using int_unat_u32 [of "- w"] by linarith
qed

section \<open>Addresses at small offsets\<close>

lemma of_nat_u32_eq_iff [offsets]:
  "a < 2 ^ 32 \<Longrightarrow> b < 2 ^ 32 \<Longrightarrow> (of_nat a = (of_nat b :: u32)) \<longleftrightarrow> a = b"
  by (simp add: word_of_nat_eq_iff take_bit_nat_eq_self)

lemma unat_u32_less [simp]: "unat (w :: u32) < 4294967296" "unat (w :: u32) \<le> 4294967296"
proof -
  have "unat w < 2 ^ 32" using unsigned_less [of w] by simp
  then show "unat w < 4294967296" "unat w \<le> 4294967296" by simp_all
qed

lemma offset_eq_iff [offsets]:
  "a < 2 ^ 32 \<Longrightarrow> b < 2 ^ 32 \<Longrightarrow> (p + of_nat a = p + (of_nat b :: u32)) \<longleftrightarrow> a = b"
  by (simp add: word_of_nat_eq_iff take_bit_nat_eq_self)

lemma unat_of_nat_u32 [offsets]: "n < 2 ^ 32 \<Longrightarrow> unat (of_nat n :: u32) = n"
  by (simp add: unat_of_nat)

text \<open>The bytes of the \<open>n\<close>-byte object at \<open>p\<close>.\<close>

definition region :: "u32 \<Rightarrow> nat \<Rightarrow> u32 set" where
  "region p n = (\<lambda>k. p + of_nat k) ` {..<n}"

lemma region_memberI [intro]: "k < n \<Longrightarrow> p + of_nat k \<in> region p n"
  by (auto simp: region_def)

lemma region_0I [intro]: "0 < n \<Longrightarrow> p \<in> region p n"
  using region_memberI [of 0 n p] by simp

lemma region_mono: "m \<le> n \<Longrightarrow> region p m \<subseteq> region p n"
  by (auto simp: region_def)

lemma region_offset: "region (p + of_nat k) n \<subseteq> region p (k + n)"
proof
  fix a assume "a \<in> region (p + of_nat k) n"
  then obtain j where "j < n" "a = p + of_nat (k + j)"
    by (auto simp: region_def add.assoc)
  then show "a \<in> region p (k + n)" unfolding region_def
    by (intro image_eqI [where x = "k + j"]) auto
qed

lemma not_in_region [offsets]:
  "n \<le> k \<Longrightarrow> k < 2 ^ 32 \<Longrightarrow> p + of_nat k \<notin> region p n"
  unfolding region_def
  by (auto simp: word_of_nat_eq_iff take_bit_nat_eq_self)

lemma region_unat:
  assumes "unat p + n \<le> 2 ^ 32"
  shows "region p n = {x. unat p \<le> unat x \<and> unat x < unat p + n}"
proof (intro equalityI subsetI)
  fix x assume "x \<in> region p n"
  then obtain k where k: "k < n" "x = p + of_nat k" by (auto simp: region_def)
  then have "unat x = unat p + k"
    using assms by (simp add: unat_word_ariths unat_of_nat_u32)
  with k show "x \<in> {x. unat p \<le> unat x \<and> unat x < unat p + n}" by simp
next
  fix x :: u32 assume x: "x \<in> {x. unat p \<le> unat x \<and> unat x < unat p + n}"
  then have "p + of_nat (unat x - unat p) = x" by (simp add: of_nat_diff)
  then show "x \<in> region p n" using x region_memberI [of "unat x - unat p" n p] by auto
qed

lemma regions_disjoint:
  "unat p + m \<le> unat q \<Longrightarrow> unat q + n \<le> 2 ^ 32 \<Longrightarrow> region p m \<inter> region q n = {}"
  by (auto simp: region_unat)

text \<open>An array of 32-bit cells in memory.\<close>

lemma st32_outside: "x \<notin> region a 4 \<Longrightarrow> st32 a w m x = m x"
proof -
  assume x: "x \<notin> region a 4"
  have "a + of_nat k \<in> region a 4" if "k < 4" for k using that by (rule region_memberI)
  from this [of 0] this [of 1] this [of 2] this [of 3] show ?thesis
    using x by (auto simp: st32_def)
qed

lemma ld32_cong: "\<forall>x \<in> region a 4. m' x = m x \<Longrightarrow> ld32 m' a = ld32 m a"
proof -
  assume eq: "\<forall>x \<in> region a 4. m' x = m x"
  have "m' (a + of_nat k) = m (a + of_nat k)" if "k < 4" for k
    using that eq by (blast intro: region_memberI)
  from this [of 0] this [of 1] this [of 2] this [of 3] show ?thesis by (simp add: ld32_def)
qed

text \<open>Words at least four bytes apart do not meet.\<close>

lemma ld32_st32_apart:
  assumes "4 \<le> unat (b - a)" and "unat (b - a) \<le> 2 ^ 32 - 4"
  shows "ld32 (st32 a w m) b = ld32 m b"
proof -
  have "x \<notin> region a 4" if xb: "x \<in> region b 4" for x
  proof
    assume "x \<in> region a 4"
    then obtain i where i: "i < 4" "x = a + of_nat i" by (auto simp: region_def)
    obtain j where j: "j < 4" "x = b + of_nat j" using xb by (auto simp: region_def)
    have "b - a + of_nat j = of_nat i" using i(2) j(2) by (simp add: algebra_simps)
    then have "of_nat (unat (b - a) + j) = (of_nat i :: u32)" by simp
    moreover have less: "unat (b - a) + j < 2 ^ 32" "i < 2 ^ 32" using assms(2) i(1) j(1) by simp_all
    ultimately have "unat (b - a) + j = i" by (subst (asm) of_nat_u32_eq_iff) simp_all
    then show False using assms(1) i(1) by linarith
  qed
  then show ?thesis by (auto intro!: ld32_cong st32_outside)
qed

lemma ld32_st32_cell:
  assumes "i < 2 ^ 30" and "j < 2 ^ 30"
  shows "ld32 (st32 (p + of_nat (4 * i)) w m) (p + of_nat (4 * j))
    = (if i = j then w else ld32 m (p + of_nat (4 * j)))"
proof (cases "i = j")
  case False
  have "x \<notin> region (p + of_nat (4 * i)) 4" if xj: "x \<in> region (p + of_nat (4 * j)) 4" for x
  proof
    assume "x \<in> region (p + of_nat (4 * i)) 4"
    then obtain a where a: "a < 4" "x = p + of_nat (4 * i) + of_nat a" by (auto simp: region_def)
    obtain b where b: "b < 4" "x = p + of_nat (4 * j) + of_nat b" using xj by (auto simp: region_def)
    have ab: "a < 4" "b < 4" "p + of_nat (4 * i + a) = p + (of_nat (4 * j + b) :: u32)"
      using a b by (simp_all only: of_nat_add add.assoc)
    then have "4 * i + a = 4 * j + b" using assms by (subst (asm) offset_eq_iff) auto
    with ab False show False by linarith
  qed
  then show ?thesis using False by (auto intro!: ld32_cong st32_outside)
qed simp

section \<open>Ranges and lists\<close>

lemma find_upt_Some:
  "List.find P [lo..<hi] = Some b \<longleftrightarrow> lo \<le> b \<and> b < hi \<and> P b \<and> (\<forall>x. lo \<le> x \<and> x < b \<longrightarrow> \<not> P x)"
proof (induction "hi - lo" arbitrary: lo)
  case 0
  then show ?case by auto
next
  case (Suc n)
  then have "[lo..<hi] = lo # [Suc lo..<hi]" by (simp add: upt_conv_Cons)
  moreover have "n = hi - Suc lo" using Suc by simp
  moreover have "(\<forall>x. lo \<le> x \<and> x < b \<longrightarrow> \<not> P x) \<longleftrightarrow>
      (lo < b \<longrightarrow> \<not> P lo) \<and> (\<forall>x. Suc lo \<le> x \<and> x < b \<longrightarrow> \<not> P x)"
    by (metis Suc_leD Suc_leI le_eq_less_or_eq)
  moreover have "lo < hi" using Suc.hyps(2) by simp
  ultimately show ?case using Suc.hyps(1) [of "Suc lo"]
    by (cases "P lo") (auto simp: Suc_le_eq le_eq_less_or_eq)
qed

lemma find_upt_None: "List.find P [lo..<hi] = None \<longleftrightarrow> (\<forall>x. lo \<le> x \<and> x < hi \<longrightarrow> \<not> P x)"
  by (auto simp: find_None_iff)

lemma find_upt_skip:
  assumes "lo \<le> mid" and "\<forall>x. lo \<le> x \<and> x < mid \<longrightarrow> \<not> P x"
  shows "List.find P [lo..<hi] = List.find P [mid..<hi]"
proof (cases "List.find P [mid..<hi]")
  case None
  then have "List.find P [lo..<hi] = None"
    using assms(2) unfolding find_upt_None by (metis not_le)
  with None show ?thesis by simp
next
  case (Some b)
  then have "List.find P [lo..<hi] = Some b"
    using assms unfolding find_upt_Some by (metis le_trans not_le)
  with Some show ?thesis by simp
qed

lemma fold_frame: "(\<And>x s. f (g x s) = f s) \<Longrightarrow> f (fold g xs s) = f s"
  by (induction xs arbitrary: s) auto

lemma mult_div_exact: "(n :: nat) mod m = 0 \<Longrightarrow> m * (n div m) = n"
  by (simp add: mod_eq_0_iff_dvd)

lemma mod_mult_div: "0 < b \<Longrightarrow> (n :: nat) mod (b * c) div b = n div b mod c"
  by (simp add: mod_mult2_eq)

end
