(* ===== verification/Lib_Base.thy ===== *)
theory Lib_Base
  imports Prelude
begin

text \<open>
  \<open>kernel/lib/error.h\<close> and \<open>kernel/lib/memory.c\<close>: the error codes every fallible routine
  returns, and the two byte loops over flat memory the rest of the kernel copies and clears
  with.
\<close>

section \<open>Error codes\<close>

datatype error_t =
  ERR_FAILED | ERR_SUCCESS | ERR_NOT_FOUND | ERR_IO | ERR_FORMAT | ERR_UNKNOWN | ERR_OOM
  | ERR_UNSUPPORTED

fun err_code :: "error_t \<Rightarrow> int" where
  "err_code ERR_FAILED = -1"
| "err_code ERR_SUCCESS = 0"
| "err_code ERR_NOT_FOUND = 1"
| "err_code ERR_IO = 2"
| "err_code ERR_FORMAT = 3"
| "err_code ERR_UNKNOWN = 4"
| "err_code ERR_OOM = 5"
| "err_code ERR_UNSUPPORTED = 6"

lemma err_code_inject [simp]: "err_code a = err_code b \<longleftrightarrow> a = b"
  by (cases a; cases b) simp_all

section \<open>memcpy and memset\<close>

text \<open>\<open>for (i = 0; i < n; i++) d[i] = s[i]\<close>: each byte is read when it is its turn.\<close>

definition memcpy :: "u32 \<Rightarrow> u32 \<Rightarrow> u32 \<Rightarrow> memory \<Rightarrow> memory" where
  "memcpy dest src n m =
     fold (\<lambda>i m. m(dest + of_nat i := m (src + of_nat i))) [0..<unat n] m"

definition memset :: "u32 \<Rightarrow> int \<Rightarrow> u32 \<Rightarrow> memory \<Rightarrow> memory" where
  "memset dest val n m = fold (\<lambda>i m. m(dest + of_nat i := of_int val)) [0..<unat n] m"

text \<open>
  A loop that writes byte \<open>i\<close> of a region in turn: what it leaves, for any value that may
  depend on the memory it has reached.
\<close>

lemma fold_write_outside [frame]:
  "a \<notin> region p n \<Longrightarrow> fold (\<lambda>i m. m(p + of_nat i := f i m)) [0..<n] m a = m a"
proof (induction n)
  case (Suc n)
  then have "a \<notin> region p n" "a \<noteq> p + of_nat n"
    using region_mono [of n "Suc n" p] by (auto simp: region_memberI)
  with Suc.IH show ?case by simp
qed simp

lemma fold_write_inside:
  fixes p :: u32
  assumes "n \<le> 2 ^ 32" and "k < n"
  shows "fold (\<lambda>i m. m(p + of_nat i := f i m)) [0..<n] m (p + of_nat k)
    = f k (fold (\<lambda>i m. m(p + of_nat i := f i m)) [0..<k] m)"
  using assms
proof (induction n)
  case 0
  then show ?case by simp
next
  case (Suc n)
  show ?case
  proof (cases "k = n")
    case False
    with Suc.prems have "k < n" "p + of_nat k \<noteq> p + of_nat n"
      by (auto simp: offsets)
    with Suc show ?thesis by simp
  qed simp
qed

lemma memset_inside: "k < unat n \<Longrightarrow> memset p v n m (p + of_nat k) = of_int v"
  unfolding memset_def by (subst fold_write_inside) auto

lemma memset_outside [frame]: "a \<notin> region p (unat n) \<Longrightarrow> memset p v n m a = m a"
  unfolding memset_def by (rule fold_write_outside)

lemma memcpy_outside [frame]: "a \<notin> region d (unat n) \<Longrightarrow> memcpy d s n m a = m a"
  unfolding memcpy_def by (rule fold_write_outside)

text \<open>
  \<open>memcpy\<close> copies whenever no byte it writes is a source byte it has still to read: the
  regions are apart, or the copy moves down.
\<close>

lemma memcpy_inside:
  assumes "\<forall>j k. j < k \<and> k < unat n \<longrightarrow> d + of_nat j \<noteq> s + of_nat k" and "k < unat n"
  shows "memcpy d s n m (d + of_nat k) = m (s + of_nat k)"
proof -
  have "s + of_nat k \<notin> region d k"
    using assms unfolding region_def by (auto) metis
  then show ?thesis
    using assms(2) unfolding memcpy_def
    by (subst fold_write_inside) (auto simp: fold_write_outside)
qed

lemma memcpy_disjoint:
  assumes "region d (unat n) \<inter> region s (unat n) = {}" and "k < unat n"
  shows "memcpy d s n m (d + of_nat k) = m (s + of_nat k)"
proof (rule memcpy_inside)
  show "\<forall>j k. j < k \<and> k < unat n \<longrightarrow> d + of_nat j \<noteq> s + of_nat k"
    using assms(1) region_memberI by (metis disjoint_iff less_trans)
qed (fact assms(2))

section \<open>A run of bytes in memory\<close>

definition poke :: "u32 \<Rightarrow> u8 list \<Rightarrow> memory \<Rightarrow> memory" where
  "poke a bs m = fold (\<lambda>k m. m(a + of_nat k := bs ! k)) [0..<length bs] m"

definition peek :: "memory \<Rightarrow> u32 \<Rightarrow> nat \<Rightarrow> u8 list" where
  "peek m a n = map (\<lambda>k. m (a + of_nat k)) [0..<n]"

lemma poke_outside [frame]: "x \<notin> region a (length bs) \<Longrightarrow> poke a bs m x = m x"
  unfolding poke_def by (rule fold_write_outside)

lemma peek_poke: "length bs \<le> 2 ^ 32 \<Longrightarrow> n = length bs \<Longrightarrow> peek (poke a bs m) a n = bs"
  unfolding peek_def poke_def by (intro nth_equalityI) (simp_all add: fold_write_inside)

lemma peek_cong: "\<forall>x \<in> region a n. m' x = m x \<Longrightarrow> peek m' a n = peek m a n"
  using region_memberI [of _ n a] by (simp add: peek_def)

lemma peek_poke_other:
  "region b n \<inter> region a (length bs) = {} \<Longrightarrow> peek (poke a bs m) b n = peek m b n"
  by (intro peek_cong) (auto intro: poke_outside)

lemma length_peek [simp]: "length (peek m a n) = n"
  by (simp add: peek_def)

lemma nth_peek [simp]: "k < n \<Longrightarrow> peek m a n ! k = m (a + of_nat k)"
  by (simp add: peek_def)

lemma poke_Nil [simp]: "poke a [] m = m"
  by (simp add: poke_def)

lemma poke_append: "poke a (xs @ ys) m = poke (a + of_nat (length xs)) ys (poke a xs m)"
proof -
  have "[0..<length xs + length ys] = [0..<length xs] @ map (\<lambda>k. length xs + k) [0..<length ys]"
    by (rule nth_equalityI) (simp_all add: nth_append)
  then have "poke a (xs @ ys) m = fold (\<lambda>k m. m(a + of_nat (length xs + k) := ys ! k)) [0..<length ys]
      (fold (\<lambda>k m. m(a + of_nat k := (xs @ ys) ! k)) [0..<length xs] m)"
    by (simp add: poke_def fold_map comp_def nth_append)
  moreover have "fold (\<lambda>k m. m(a + of_nat k := (xs @ ys) ! k)) [0..<length xs] m = poke a xs m"
    unfolding poke_def by (rule fold_cong) (simp_all add: nth_append)
  ultimately show ?thesis by (simp add: poke_def add.assoc)
qed

lemma poke_Cons: "poke a (x # xs) m = poke (a + 1) xs (m(a := x))"
  using poke_append [of a "[x]" xs m] by (simp add: poke_def)

lemma peek_append: "peek m a (i + j) = peek m a i @ peek m (a + of_nat i) j"
  by (rule nth_equalityI) (auto simp: nth_append of_nat_diff)

lemma peek_nested:
  assumes "i + n \<le> length bs" and "length bs \<le> 2 ^ 32"
  shows "peek (poke a bs m) (a + of_nat i) n = take n (drop i bs)"
proof (rule nth_equalityI)
  fix k assume "k < length (peek (poke a bs m) (a + of_nat i) n)"
  then have k: "k < n" by simp
  then have "poke a bs m (a + of_nat (i + k)) = bs ! (i + k)"
    using assms unfolding poke_def by (subst fold_write_inside) simp_all
  then show "peek (poke a bs m) (a + of_nat i) n ! k = take n (drop i bs) ! k"
    using k assms(1) by (simp add: add.assoc)
qed (use assms in simp)

lemma fold_congruent:
  "(\<And>x s. x \<in> set xs \<Longrightarrow> P s \<Longrightarrow> f x s = g x s \<and> P (g x s)) \<Longrightarrow> P s \<Longrightarrow> fold f xs s = fold g xs s \<and> P (fold g xs s)"
  by (induction xs arbitrary: s) auto

end
