(* ===== verification/Lib_String.thy ===== *)
theory Lib_String
  imports Lib_Base "HOL-Library.List_Lexorder"
begin

text \<open>
  \<open>kernel/lib/string.c\<close>. A \<open>char *\<close> is the list of the characters from the pointer to the
  end of the array it points into. Reading or writing past that end is undefined in C and is
  \<open>None\<close> here. \<open>cstr\<close> is the text such an array holds (up to the first NUL) and
  \<open>terminated\<close> says that it holds one; each routine is shown to be defined exactly on the
  arguments that keep it inside its arrays and to compute the text operation it stands for.
\<close>

section \<open>The text in an array\<close>

definition cstr :: "string \<Rightarrow> string" where
  "cstr b = takeWhile (\<lambda>c. c \<noteq> NUL) b"

definition terminated :: "string \<Rightarrow> bool" where
  "terminated b \<longleftrightarrow> NUL \<in> set b"

lemma terminated_simps [simp]:
  "\<not> terminated []" "terminated (c # b) \<longleftrightarrow> c = NUL \<or> terminated b"
  by (auto simp: terminated_def)

lemma cstr_simps [simp]:
  "cstr [] = []" "cstr (c # b) = (if c = NUL then [] else c # cstr b)"
  by (auto simp: cstr_def)

lemma terminated_append [simp]: "terminated (a @ b) \<longleftrightarrow> terminated a \<or> terminated b"
  by (auto simp: terminated_def)

lemma NUL_notin_cstr [simp]: "NUL \<notin> set (cstr b)"
  by (induction b) auto

lemma cstr_append_NUL: "NUL \<notin> set t \<Longrightarrow> cstr (t @ NUL # r) = t"
  by (induction t) auto

lemma terminated_split: "terminated b \<Longrightarrow> b = cstr b @ NUL # drop (Suc (length (cstr b))) b"
  by (induction b) auto

lemma length_cstr_less: "terminated b \<Longrightarrow> length (cstr b) < length b"
  by (induction b) auto

lemma nth_length_cstr: "terminated b \<Longrightarrow> b ! length (cstr b) = NUL"
  by (induction b) auto

lemma cstr_take: "cstr b = take (length (cstr b)) b"
  by (induction b) auto

section \<open>strlen, strcmp, strcpy, strncpy, strchr\<close>

fun strlen :: "string \<Rightarrow> nat option" where
  "strlen [] = None"
| "strlen (c # s) = (if c = NUL then Some 0 else map_option Suc (strlen s))"

fun strcmp :: "string \<Rightarrow> string \<Rightarrow> int option" where
  "strcmp (a # s1) (b # s2) =
     (if a \<noteq> NUL \<and> a = b then strcmp s1 s2 else Some (of_char a - of_char b))"
| "strcmp _ _ = None"

fun strcpy :: "string \<Rightarrow> string \<Rightarrow> string option" where
  "strcpy (d # dest) (c # src) =
     (if c = NUL then Some (c # dest) else map_option (\<lambda>r. c # r) (strcpy dest src))"
| "strcpy _ _ = None"

fun strncpy_fill :: "string \<Rightarrow> nat \<Rightarrow> string option" where
  "strncpy_fill dest 0 = Some dest"
| "strncpy_fill [] (Suc n) = None"
| "strncpy_fill (d # dest) (Suc n) = map_option (\<lambda>r. NUL # r) (strncpy_fill dest n)"

fun strncpy :: "string \<Rightarrow> string \<Rightarrow> nat \<Rightarrow> string option" where
  "strncpy dest src 0 = Some dest"
| "strncpy dest [] (Suc n) = None"
| "strncpy dest (c # src) (Suc n) =
     (if c = NUL then strncpy_fill dest (Suc n)
      else (case dest of [] \<Rightarrow> None
            | d # dest' \<Rightarrow> map_option (\<lambda>r. c # r) (strncpy dest' src n)))"

text \<open>\<open>Some None\<close> is the \<open>NULL\<close> result, \<open>Some (Some i)\<close> the pointer to element \<open>i\<close>.\<close>

fun strchr :: "string \<Rightarrow> int \<Rightarrow> nat option option" where
  "strchr [] c = None"
| "strchr (x # s) c =
     (if x = NUL then Some None
      else if x = char_of c then Some (Some 0)
      else map_option (map_option Suc) (strchr s c))"

lemma strlen_eq: "strlen b = (if terminated b then Some (length (cstr b)) else None)"
  by (induction b) auto

lemma strcmp_defined: "terminated a \<Longrightarrow> terminated b \<Longrightarrow> \<exists>r. strcmp a b = Some r"
  by (induction a b rule: strcmp.induct) auto

lemma strcmp_cstr:
  "terminated a \<Longrightarrow> terminated b \<Longrightarrow> strcmp a b = strcmp (cstr a @ [NUL]) (cstr b @ [NUL])"
  by (induction a b rule: strcmp.induct) auto

lemma of_char_int_eq: "(of_char c :: int) = int (of_char c)"
  by (simp only: of_nat_of_char)

lemma of_char_NUL_iff [simp]: "(of_char c :: nat) = 0 \<longleftrightarrow> c = NUL"
  using of_char_eq_iff [of c NUL, where 'a = nat] by simp

abbreviation codes :: "string \<Rightarrow> nat list" where
  "codes s \<equiv> map of_char s"

lemma strcmp_char: "(of_char a - of_char b = (0 :: int)) \<longleftrightarrow> a = b"
  "(of_char a - of_char b < (0 :: int)) \<longleftrightarrow> (of_char a < (of_char b :: nat))"
  by (simp_all add: of_char_int_eq)

text \<open>
  \<open>strcmp\<close> is 0 exactly on equal texts and negative exactly when the first text comes before
  the second in the order of the unsigned bytes.
\<close>

lemma strcmp_spec:
  assumes "terminated a" and "terminated b"
  shows "\<exists>r. strcmp a b = Some r \<and> (r = 0 \<longleftrightarrow> cstr a = cstr b)
    \<and> (r < 0 \<longleftrightarrow> codes (cstr a) < codes (cstr b))"
  using assms
proof (induction a b rule: strcmp.induct)
  case (1 a s1 b s2)
  show ?case
  proof (cases "a \<noteq> NUL \<and> a = b")
    case True
    with 1 show ?thesis by auto
  next
    case False
    moreover have "b \<noteq> NUL \<Longrightarrow> 0 < (of_char b :: nat)" by (metis of_char_NUL_iff gr0I)
    ultimately show ?thesis using strcmp_char [of a b] by (auto simp: of_char_int_eq)
  qed
qed auto

lemma strcmp_eq_0: "terminated a \<Longrightarrow> terminated b \<Longrightarrow> strcmp a b = Some 0 \<longleftrightarrow> cstr a = cstr b"
  using strcmp_spec [of a b] by auto

text \<open>\<open>strcpy\<close> is inside its arrays exactly when the text and its NUL fit the destination.\<close>

lemma strcpy_eq:
  "terminated src \<Longrightarrow> strcpy dest src =
     (if length (cstr src) < length dest
      then Some (cstr src @ NUL # drop (Suc (length (cstr src))) dest) else None)"
  by (induction dest src rule: strcpy.induct) auto

lemma strcpy_cstr:
  "terminated src \<Longrightarrow> strcpy dest src = Some d \<Longrightarrow>
     cstr d = cstr src \<and> terminated d \<and> length d = length dest"
  by (auto simp: strcpy_eq cstr_append_NUL split: if_splits)

lemma strncpy_fill_eq:
  "strncpy_fill dest n =
     (if n \<le> length dest then Some (replicate n NUL @ drop n dest) else None)"
  by (induction dest n rule: strncpy_fill.induct) auto

lemma strncpy_eq:
  assumes "terminated src"
  shows "strncpy dest src n =
     (if n \<le> length dest
      then Some (take n (cstr src) @ replicate (n - length (cstr src)) NUL @ drop n dest)
      else None)"
  using assms
  by (induction dest src n rule: strncpy.induct)
     (auto simp: strncpy_fill_eq split: list.splits)

lemma strchr_eq:
  "terminated s \<Longrightarrow> strchr s c =
     Some (if char_of c \<in> set (cstr s)
           then Some (length (takeWhile (\<lambda>x. x \<noteq> char_of c) (cstr s))) else None)"
  by (induction s) auto

section \<open>strtok\<close>

text \<open>
  \<open>strtok\<close> keeps \<open>next\<close> in a static variable. The array it works on is \<open>buf\<close>; the pointers
  it takes, keeps and returns are positions in it, \<open>None\<close> being \<open>NULL\<close>. \<open>tok_end\<close> is its loop
  \<open>while (*next && !strchr(delim, *next)) next++\<close>.
\<close>

function tok_end :: "string \<Rightarrow> string \<Rightarrow> nat \<Rightarrow> nat option" where
  "tok_end buf delim i =
     (if i < length buf
      then (if buf ! i = NUL then Some i
            else (case strchr delim (of_char (buf ! i)) of
                    None \<Rightarrow> None
                  | Some (Some _) \<Rightarrow> Some i
                  | Some None \<Rightarrow> tok_end buf delim (Suc i)))
      else None)"
  by pat_completeness auto
termination
  by (relation "measure (\<lambda>(buf, delim, i). length buf - i)") auto

declare tok_end.simps [simp del]

definition strtok ::
    "string \<Rightarrow> nat option \<Rightarrow> string \<Rightarrow> nat option \<Rightarrow> (nat option \<times> string \<times> nat option) option" where
  "strtok buf str delim next =
     (let next = (case str of Some p \<Rightarrow> Some p | None \<Rightarrow> next) in
      case next of
        None \<Rightarrow> Some (None, buf, None)
      | Some start \<Rightarrow>
          (case tok_end buf delim start of
             None \<Rightarrow> None
           | Some e \<Rightarrow>
               if buf ! e \<noteq> NUL then Some (Some start, buf[e := NUL], Some (Suc e))
               else Some (Some start, buf, None)))"

definition is_delim :: "string \<Rightarrow> char \<Rightarrow> bool" where
  "is_delim delim c \<longleftrightarrow> c = NUL \<or> c \<in> set (cstr delim)"

lemma tok_end_eq:
  assumes "terminated delim" and "i \<le> e" and "e < length buf"
    and "is_delim delim (buf ! e)" and "\<forall>j. i \<le> j \<and> j < e \<longrightarrow> \<not> is_delim delim (buf ! j)"
  shows "tok_end buf delim i = Some e"
  using assms
proof (induction buf delim i rule: tok_end.induct)
  case (1 buf delim i)
  show ?case
  proof (cases "i = e")
    case True
    with 1 show ?thesis
      by (subst tok_end.simps) (auto simp: strchr_eq is_delim_def)
  next
    case False
    then have nd: "\<not> is_delim delim (buf ! i)" "Suc i \<le> e" using 1 by auto
    then have "strchr delim (of_char (buf ! i)) = Some None"
      using "1.prems"(1) by (auto simp: strchr_eq is_delim_def)
    moreover have "tok_end buf delim (Suc i) = Some e"
      using nd "1.prems" False calculation by (intro "1.IH") (auto simp: is_delim_def)
    ultimately show ?thesis
      using nd "1.prems" by (subst tok_end.simps) (auto simp: is_delim_def)
  qed
qed

text \<open>The text of the token at position \<open>i\<close> and where it stops.\<close>

abbreviation token :: "string \<Rightarrow> string \<Rightarrow> string" where
  "token delim t \<equiv> takeWhile (\<lambda>c. \<not> is_delim delim c) t"

lemma token_split:
  assumes "terminated buf"
  obtains d r where "buf = token delim buf @ d # r" and "is_delim delim d"
    and "d = buf ! length (token delim buf)"
proof -
  have "dropWhile (\<lambda>c. \<not> is_delim delim c) buf \<noteq> []"
    using assms by (auto simp: terminated_def is_delim_def)
  then obtain d r where dr: "dropWhile (\<lambda>c. \<not> is_delim delim c) buf = d # r"
    by (cases "dropWhile (\<lambda>c. \<not> is_delim delim c) buf") auto
  then have "is_delim delim d"
    using hd_dropWhile [of "\<lambda>c. \<not> is_delim delim c" buf] by simp
  moreover have split: "buf = token delim buf @ d # r"
    using takeWhile_dropWhile_id [of "\<lambda>c. \<not> is_delim delim c" buf] dr by simp
  moreover have "d = buf ! length (token delim buf)" by (subst split) simp
  ultimately show thesis using that by blast
qed

lemma token_not_delim: "c \<in> set (token delim t) \<Longrightarrow> \<not> is_delim delim c"
  by (auto dest: set_takeWhileD)

lemma NUL_notin_token: "NUL \<notin> set (token delim t)"
  using token_not_delim [of NUL delim t] by (auto simp: is_delim_def)

lemma token_append_NUL: "token delim (token delim t @ NUL # r) = token delim t"
proof -
  have "takeWhile (\<lambda>c. \<not> is_delim delim c) (token delim t @ NUL # r)
      = token delim t @ takeWhile (\<lambda>c. \<not> is_delim delim c) (NUL # r)"
    by (rule takeWhile_append2) (rule token_not_delim)
  then show ?thesis by (simp add: is_delim_def)
qed

lemma tok_end_0:
  assumes "terminated buf" and "terminated delim"
  shows "tok_end buf delim 0 = Some (length (token delim buf))"
proof (rule tok_end_eq [OF assms(2)])
  obtain d r where split: "buf = token delim buf @ d # r" and d: "is_delim delim d"
      "d = buf ! length (token delim buf)"
    using token_split [OF assms(1)] .
  have "length buf = length (token delim buf) + Suc (length r)"
    by (metis split length_append length_Cons)
  then show "length (token delim buf) < length buf" by simp
  show "is_delim delim (buf ! length (token delim buf))" using d by simp
  show "\<forall>j. 0 \<le> j \<and> j < length (token delim buf) \<longrightarrow> \<not> is_delim delim (buf ! j)"
    by (metis nth_mem takeWhile_nth token_not_delim)
qed simp

text \<open>
  A first call on a terminated array cuts it at the first delimiter: the array now holds the
  token. Calling it on the same array again changes nothing more.
\<close>

lemma strtok_first:
  assumes "terminated buf" and "terminated delim"
  shows "\<exists>r nx. strtok buf (Some 0) delim next = Some (Some 0, token delim buf @ NUL # r, nx)
    \<and> (\<exists>d. buf = token delim buf @ d # r)"
proof -
  obtain d r where split: "buf = token delim buf @ d # r" and d: "is_delim delim d"
      "d = buf ! length (token delim buf)"
    using token_split [OF assms(1)] .
  have "buf[length (token delim buf) := NUL] = token delim buf @ NUL # r"
    by (metis split list_update_length)
  moreover have "d = NUL \<Longrightarrow> buf = token delim buf @ NUL # r" using split by simp
  ultimately show ?thesis using tok_end_0 [OF assms] d split
    by (cases "d = NUL") (auto simp: strtok_def)
qed

lemma strtok_again:
  assumes "terminated delim"
  shows "strtok (token delim t @ NUL # r) (Some 0) delim nx
    = Some (Some 0, token delim t @ NUL # r, None)"
proof -
  have "tok_end (token delim t @ NUL # r) delim 0 = Some (length (token delim t))"
    using tok_end_0 [of "token delim t @ NUL # r" delim] assms by (simp add: token_append_NUL)
  then show ?thesis by (simp add: strtok_def)
qed

lemma cstr_token: "cstr (token delim t @ NUL # r) = token delim t"
  by (rule cstr_append_NUL [OF NUL_notin_token])

section \<open>atoi\<close>

text \<open>
  \<open>k = (k << 3) + (k << 1) + (*p) - '0'\<close> on a 32-bit \<open>int\<close>; \<open>*p\<close> is a signed \<open>char\<close>. The
  result is the bit pattern of the \<open>int\<close>, read with \<open>sint\<close>.
\<close>

definition char_promote :: "char \<Rightarrow> u32" where
  "char_promote c = scast (byte_of_char c)"

fun atoi_loop :: "u32 \<Rightarrow> string \<Rightarrow> u32 option" where
  "atoi_loop k [] = None"
| "atoi_loop k (c # p) =
     (if c = NUL then Some k
      else atoi_loop (push_bit 3 k + push_bit 1 k + char_promote c - 48) p)"

definition atoi :: "string \<Rightarrow> u32 option" where
  "atoi p = atoi_loop 0 p"

end
