(* ===== verification/Lib_IO.thy ===== *)
theory Lib_IO
  imports Lib_String
begin

text \<open>
  \<open>kernel/lib/io.c\<close>: the console calls and \<open>printf\<close>. The variadic arguments are the list of
  the values on the stack, an \<open>unsigned\<close> or \<open>int\<close> as a 32-bit word, a \<open>char *\<close> as the text it
  points to. Formatting fails (\<open>Inl\<close>) where the C has undefined behaviour: more than 1023
  characters in the 1024-byte buffer, an argument that is missing or of the other kind, a
  format that ends in \<open>%\<close> (the loop steps over the NUL and reads on). \<open>%f\<close>, which no caller
  uses, is the one specifier left out: it is \<open>Inl Float_format\<close>.
\<close>

section \<open>putc, puts, clear\<close>

definition tty_out :: "string \<Rightarrow> 'a kernel_scheme \<Rightarrow> 'a kernel_scheme" where
  "tty_out t s = s\<lparr>con := con s @ map Out t\<rparr>"

lemma tty_out_simps [simp]:
  "mem (tty_out t s) = mem s" "stuck (tty_out t s) = stuck s"
  "ports (tty_out t s) = ports s" "ticks (tty_out t s) = ticks s" "halted (tty_out t s) = halted s"
  "con (tty_out t s) = con s @ map Out t"
  "tty_out [] s = s" "tty_out u (tty_out t s) = tty_out (t @ u) s"
  "kernel.more (tty_out t s) = kernel.more s"
  by (simp_all add: tty_out_def)

definition putc :: "char \<Rightarrow> 'a kernel_scheme \<Rightarrow> int \<times> 'a kernel_scheme" where
  "putc c s = (err_code ERR_SUCCESS, tty_out [c] s)"

definition puts :: "string \<Rightarrow> 'a kernel_scheme \<Rightarrow> int \<times> 'a kernel_scheme" where
  "puts t s = (err_code ERR_SUCCESS, tty_out t s)"

definition clear :: "'a kernel_scheme \<Rightarrow> int \<times> 'a kernel_scheme" where
  "clear s = (err_code ERR_SUCCESS, s\<lparr>con := con s @ [Clr]\<rparr>)"

section \<open>Conversions\<close>

text \<open>\<open>while (u) { tmp[len++] = '0' + (u % 10); u /= 10; }\<close>, least digit first.\<close>

function dec_loop :: "u32 \<Rightarrow> string" where
  "dec_loop u = (if u = 0 then [] else char_of (48 + unat (u mod 10)) # dec_loop (u div 10))"
  by pat_completeness auto
termination
  by (relation "measure unat") (auto simp: unat_div unat_gt_0 intro!: div_less_dividend)

text \<open>\<open>while (num) { digit = num & 0xF; \<dots>; num >>= 4; }\<close>.\<close>

function hex_loop :: "u32 \<Rightarrow> string" where
  "hex_loop num =
     (if num = 0 then []
      else (let digit = unat (num AND 15) in
            (if digit < 10 then char_of (48 + digit) else char_of (97 + (digit - 10)))
            # hex_loop (drop_bit 4 num)))"
  by pat_completeness auto
termination
  by (relation "measure unat") (auto simp: unat_drop_bit_eq drop_bit_eq_div unat_div unat_gt_0 intro!: div_less_dividend)

declare dec_loop.simps [simp del] hex_loop.simps [simp del]

definition fmt_d :: "u32 \<Rightarrow> string" where
  "fmt_d num =
     (let neg = sint num < 0;
          num = (if neg then - (num + 1) + 1 else num)
      in (if neg then ''-'' else []) @ (if num = 0 then ''0'' else rev (dec_loop num)))"

definition fmt_x :: "u32 \<Rightarrow> string" where
  "fmt_x num = (if num = 0 then ''0'' else rev (hex_loop num))"

text \<open>\<open>%s\<close> expands the two-character escapes of the argument.\<close>

fun fmt_s :: "string \<Rightarrow> string" where
  "fmt_s [] = []"
| "fmt_s [c] = [c]"
| "fmt_s (c # d # r) =
     (if c = BSLASH
      then (if d = CHR ''n'' then NL # fmt_s r
            else if d = CHR ''t'' then TAB # fmt_s r
            else if d = BSLASH then BSLASH # fmt_s r
            else BSLASH # d # fmt_s r)
      else c # fmt_s (d # r))"

section \<open>printf\<close>

datatype va_arg = VWord u32 | VStr string

datatype fmt_error = Buffer_overflow | Bad_argument | Reads_past_format | Float_format

definition emit :: "string \<Rightarrow> fmt_error + string \<Rightarrow> fmt_error + string" where
  "emit t r = (case r of Inl e \<Rightarrow> Inl e | Inr u \<Rightarrow> Inr (t @ u))"

lemma emit_simps [simp]: "emit t (Inr u) = Inr (t @ u)" "emit t (Inl e) = Inl e"
  by (simp_all add: emit_def)

fun format_loop :: "string \<Rightarrow> va_arg list \<Rightarrow> fmt_error + string" where
  "format_loop [] args = Inr []"
| "format_loop [p] args = (if p = CHR ''%'' then Inl Reads_past_format else Inr [p])"
| "format_loop (p # q # r) args =
     (if p = CHR ''%'' then
        (if q = CHR ''s'' then
           (case args of VStr t # args' \<Rightarrow> emit (fmt_s t) (format_loop r args')
            | _ \<Rightarrow> Inl Bad_argument)
         else if q = CHR ''c'' then
           (case args of VWord w # args' \<Rightarrow> emit [char_of (unat w)] (format_loop r args')
            | _ \<Rightarrow> Inl Bad_argument)
         else if q = CHR ''d'' then
           (case args of VWord w # args' \<Rightarrow> emit (fmt_d w) (format_loop r args')
            | _ \<Rightarrow> Inl Bad_argument)
         else if q = CHR ''f'' then Inl Float_format
         else if q = CHR ''x'' then
           (case args of VWord w # args' \<Rightarrow> emit (fmt_x w) (format_loop r args')
            | _ \<Rightarrow> Inl Bad_argument)
         else if q = CHR ''%'' then emit ''%'' (format_loop r args)
         else emit [CHR ''%'', q] (format_loop r args))
      else emit [p] (format_loop (q # r) args))"

definition vformat :: "string \<Rightarrow> va_arg list \<Rightarrow> fmt_error + string" where
  "vformat format args =
     (case format_loop format args of
        Inl e \<Rightarrow> Inl e
      | Inr t \<Rightarrow> if length t < 1024 then Inr t else Inl Buffer_overflow)"

definition printf :: "string \<Rightarrow> va_arg list \<Rightarrow> 'a kernel_scheme \<Rightarrow> int \<times> 'a kernel_scheme" where
  "printf format args s =
     (case vformat format args of
        Inl e \<Rightarrow> (err_code ERR_SUCCESS, s\<lparr>stuck := True\<rparr>)
      | Inr t \<Rightarrow> (err_code ERR_SUCCESS, snd (puts (cstr (t @ [NUL])) s)))"


section \<open>Reference numerals\<close>

text \<open>The usual positional numerals, most significant digit first, with no leading zero.\<close>

definition digit :: "nat \<Rightarrow> char" where
  "digit d = char_of (if d < 10 then 48 + d else 87 + d)"

fun numeral_of :: "nat \<Rightarrow> nat \<Rightarrow> string" where
  "numeral_of b n =
     (if b < 2 \<or> n < b then [digit n] else numeral_of b (n div b) @ [digit (n mod b)])"

declare numeral_of.simps [simp del]

abbreviation decimal :: "nat \<Rightarrow> string" where "decimal \<equiv> numeral_of 10"
abbreviation hexadecimal :: "nat \<Rightarrow> string" where "hexadecimal \<equiv> numeral_of 16"

definition digit_value :: "char \<Rightarrow> nat" where
  "digit_value c = (if of_char c < (58 :: nat) then of_char c - 48 else of_char c - 87)"

definition numeral_value :: "nat \<Rightarrow> string \<Rightarrow> nat" where
  "numeral_value b t = foldl (\<lambda>v c. b * v + digit_value c) 0 t"

lemma digit_value_digit [simp]: "d < 36 \<Longrightarrow> digit_value (digit d) = d"
  by (auto simp: digit_value_def digit_def)

lemma numeral_value_simps [simp]:
  "numeral_value b [] = 0" "numeral_value b (t @ [c]) = b * numeral_value b t + digit_value c"
  by (simp_all add: numeral_value_def)

lemma numeral_value_of:
  "2 \<le> b \<Longrightarrow> b \<le> 36 \<Longrightarrow> numeral_value b (numeral_of b n) = n"
proof (induction b n rule: numeral_of.induct)
  case (1 b n)
  show ?case
  proof (cases "n < b")
    case True
    with 1 show ?thesis using numeral_value_simps(2) [of b "[]" "digit n"]
      by (subst numeral_of.simps) simp
  next
    case False
    moreover have "n mod b < 36" using 1 by (meson mod_less_divisor less_le_trans zero_less_numeral)
    ultimately show ?thesis using 1 by (subst numeral_of.simps) simp
  qed
qed

lemma length_numeral_of:
  "2 \<le> b \<Longrightarrow> n < b ^ k \<Longrightarrow> 0 < k \<Longrightarrow> length (numeral_of b n) \<le> k"
proof (induction k arbitrary: n)
  case (Suc k)
  show ?case
  proof (cases "n < b")
    case False
    then have "0 < k" using Suc.prems by (cases k) auto
    moreover have "n div b < b ^ k"
      using Suc.prems by (simp add: less_mult_imp_div_less mult.commute)
    ultimately show ?thesis using Suc False by (subst numeral_of.simps) simp
  qed (simp add: numeral_of.simps [of b n])
qed simp

lemma set_decimal: "c \<in> set (decimal n) \<Longrightarrow> \<exists>d < 10. c = digit d"
proof (induction "10 :: nat" n rule: numeral_of.induct)
  case (1 n)
  then show ?case
    by (subst (asm) (2) numeral_of.simps) (auto split: if_splits intro: exI [of _ "n mod 10"])
qed

section \<open>The conversions are those numerals\<close>

lemma rev_dec_loop: "u \<noteq> 0 \<Longrightarrow> rev (dec_loop u) = decimal (unat u)"
proof (induction u rule: dec_loop.induct)
  case (1 u)
  have d: "char_of (48 + unat (u mod 10)) = digit (unat u mod 10)"
    by (simp add: digit_def unat_mod)
  show ?case
  proof (cases "unat u < 10")
    case True
    then have "u div 10 = 0" by (simp add: word_unat_eq_iff unat_div)
    then show ?thesis using 1 True d
      by (simp add: dec_loop.simps [of u] dec_loop.simps [of 0] numeral_of.simps [of 10 "unat u"])
  next
    case False
    then have "u div 10 \<noteq> 0" by (simp add: word_unat_eq_iff unat_div)
    then show ?thesis using 1 False d
      by (simp add: dec_loop.simps [of u] numeral_of.simps [of 10 "unat u"] unat_div)
  qed
qed

lemma unat_and_15: "unat (w AND 15 :: u32) = unat w mod 16"
proof -
  have "w AND 15 = w mod 16"
    using take_bit_eq_mask [of 4 w] by (simp add: take_bit_eq_mod mask_eq_exp_minus_1)
  then show ?thesis by (simp add: unat_mod)
qed

lemma rev_hex_loop: "u \<noteq> 0 \<Longrightarrow> rev (hex_loop u) = hexadecimal (unat u)"
proof (induction u rule: hex_loop.induct)
  case (1 u)
  have d: "(let digit = unat (u AND 15) in
      (if digit < 10 then char_of (48 + digit) else char_of (97 + (digit - 10)))) = digit (unat u mod 16)"
    by (simp add: digit_def unat_and_15)
  have q: "unat (drop_bit 4 u) = unat u div 16"
    by (simp add: drop_bit_eq_div unat_div)
  show ?case
  proof (cases "unat u < 16")
    case True
    then have "drop_bit 4 u = 0" using q by (simp add: word_unat_eq_iff)
    then show ?thesis using 1 True d
      by (simp add: hex_loop.simps [of u] hex_loop.simps [of 0] numeral_of.simps [of 16 "unat u"] Let_def)
  next
    case False
    then have "drop_bit 4 u \<noteq> 0" using q by (auto simp: word_unat_eq_iff)
    then show ?thesis using 1 False d q
      by (simp add: hex_loop.simps [of u] numeral_of.simps [of 16 "unat u"] Let_def)
  qed
qed

lemma decimal_0: "decimal 0 = ''0''" and hexadecimal_0: "hexadecimal 0 = ''0''"
  by code_simp+

lemma fmt_x_eq: "fmt_x num = hexadecimal (unat num)"
  by (auto simp: fmt_x_def rev_hex_loop hexadecimal_0)

lemma fmt_d_eq:
  "fmt_d num = (if sint num < 0 then ''-'' else []) @ decimal (nat \<bar>sint num\<bar>)"
proof -
  have "unat (if sint num < 0 then - (num + 1) + 1 else num) = nat \<bar>sint num\<bar>"
    using unat_neg_sint [of num] unat_sint_nonneg [of num] by auto
  then show ?thesis
    by (auto simp: fmt_d_def Let_def rev_dec_loop decimal_0)
qed


text \<open>The temporary arrays \<open>tmp[12]\<close> and \<open>tmp[9]\<close> are never overrun.\<close>

lemma length_dec_loop: "length (dec_loop u) \<le> 10"
proof (cases "u = 0")
  case False
  have "unat u < 10 ^ 10" by (rule less_trans [OF unat_u32_less(1)]) simp
  then have "length (decimal (unat u)) \<le> 10" by (intro length_numeral_of) auto
  then show ?thesis using rev_dec_loop [OF False] by (metis length_rev)
qed (simp add: dec_loop.simps)

lemma length_hex_loop: "length (hex_loop u) \<le> 8"
proof (cases "u = 0")
  case False
  have "unat u < 16 ^ 8" using unat_u32_less(1) [of u] by simp
  then have "length (hexadecimal (unat u)) \<le> 8" by (intro length_numeral_of) auto
  then show ?thesis using rev_hex_loop [OF False] by (metis length_rev)
qed (simp add: hex_loop.simps)

lemma length_fmt_d: "length (fmt_d u) \<le> 11"
  using length_dec_loop [of u] length_dec_loop [of "- (u + 1) + 1"]
  by (auto simp: fmt_d_def Let_def)

lemma length_fmt_x: "length (fmt_x u) \<le> 8"
  using length_hex_loop [of u] by (auto simp: fmt_x_def)

section \<open>atoi reads what %d prints\<close>

lemma of_char_digit: "d < 10 \<Longrightarrow> of_char (digit d) = (48 + d :: nat)"
  by (simp add: digit_def)

lemma digit_not_NUL: "d < 10 \<Longrightarrow> digit d \<noteq> NUL"
  using of_char_digit [of d] by (metis of_char_NUL_iff add_is_0 zero_neq_numeral)

lemma char_promote_digit: "d < 10 \<Longrightarrow> char_promote (digit d) = 48 + of_nat d"
proof -
  assume d: "d < 10"
  have "byte_of_char (digit d) = of_nat (48 + d)"
    using of_char_digit [OF d] unfolding byte_of_char_def by (metis of_nat_of_char)
  moreover have "scast (of_nat (48 + d) :: u8) = (of_nat (48 + d) :: u32)"
    using d by (simp add: numeral_eq_Suc less_Suc_eq) auto
  ultimately show ?thesis by (simp add: char_promote_def)
qed

lemma atoi_loop_digits:
  assumes "\<forall>c \<in> set t. \<exists>d < 10. c = digit d"
  shows "atoi_loop k (t @ NUL # r) = Some (foldl (\<lambda>v c. 10 * v + of_nat (digit_value c)) k t)"
  using assms
proof (induction t arbitrary: k)
  case (Cons c t)
  then obtain d where d: "d < 10" "c = digit d" by auto
  have "push_bit 3 k + push_bit 1 k = 10 * k" by (simp add: push_bit_eq_mult)
  with Cons d show ?case by (simp add: digit_not_NUL char_promote_digit add.commute)
qed simp

lemma of_nat_numeral_value:
  "of_nat (numeral_value 10 t) = foldl (\<lambda>v c. 10 * v + of_nat (digit_value c)) (0 :: u32) t"
  by (induction t rule: rev_induct) simp_all

lemma atoi_decimal: "atoi (decimal n @ NUL # r) = Some (of_nat n)"
proof -
  have "atoi (decimal n @ NUL # r) = Some (of_nat (numeral_value 10 (decimal n)))"
    using set_decimal [of _ n] unfolding atoi_def of_nat_numeral_value
    by (intro atoi_loop_digits) blast
  then show ?thesis by (simp add: numeral_value_of)
qed

lemma atoi_fmt_d: "0 \<le> sint n \<Longrightarrow> atoi (fmt_d n @ NUL # r) = Some n"
proof -
  assume "0 \<le> sint n"
  then have "fmt_d n = decimal (unat n)" by (simp add: fmt_d_eq unat_sint_nonneg)
  then show ?thesis by (simp add: atoi_decimal)
qed

section \<open>What printf sends to the console\<close>

lemma length_fmt_s: "length (fmt_s t) \<le> length t"
  by (induction t rule: fmt_s.induct) auto

lemma fmt_s_plain: "BSLASH \<notin> set t \<Longrightarrow> fmt_s t = t"
  by (induction t rule: fmt_s.induct) auto

lemma format_loop_char: "c \<noteq> CHR ''%'' \<Longrightarrow> format_loop (c # p) args = emit [c] (format_loop p args)"
  by (cases p) simp_all

lemma format_loop_append:
  "CHR ''%'' \<notin> set p \<Longrightarrow> format_loop (p @ q) args = emit p (format_loop q args)"
  by (induction p) (simp_all add: format_loop_char emit_def split: sum.splits)

lemma format_loop_plain: "CHR ''%'' \<notin> set p \<Longrightarrow> format_loop p args = Inr p"
  using format_loop_append [of p "[]" args] by simp

text \<open>A format that ends in a lone \<open>%\<close> never finishes: the loop walks past its terminator.\<close>

lemma format_loop_trailing_percent:
  "CHR ''%'' \<notin> set p \<Longrightarrow> format_loop (p @ ''%'') args = Inl Reads_past_format"
  by (simp add: format_loop_append)

declare format_loop.simps(3) [simp del]

lemmas format_simps = format_loop.simps format_loop_plain

text \<open>
  Every console call changes the transcript only (and \<open>stuck\<close> where \<open>printf\<close> cannot go on):
  \<open>io_state\<close> rewrites each to the record update it is, whatever fields a component adds.
\<close>

definition printf_text :: "string \<Rightarrow> va_arg list \<Rightarrow> string" where
  "printf_text format args = (case vformat format args of Inl e \<Rightarrow> [] | Inr t \<Rightarrow> cstr t)"

definition printf_fails :: "string \<Rightarrow> va_arg list \<Rightarrow> bool" where
  "printf_fails format args = (case vformat format args of Inl e \<Rightarrow> True | Inr t \<Rightarrow> False)"

lemma cstr_snoc_NUL: "cstr (t @ [NUL]) = cstr t"
  by (induction t) auto

lemma printf_state:
  "printf format args s =
     (0, s\<lparr>con := con s @ map Out (printf_text format args),
          stuck := (stuck s \<or> printf_fails format args)\<rparr>)"
  by (simp add: printf_def printf_text_def printf_fails_def puts_def tty_out_def cstr_snoc_NUL
      split: sum.split)

lemmas io_state = printf_state puts_def putc_def clear_def tty_out_def

lemma format_loop_d: "format_loop (CHR ''%'' # CHR ''d'' # p) (VWord w # args) = emit (fmt_d w) (format_loop p args)"
  and format_loop_x: "format_loop (CHR ''%'' # CHR ''x'' # p) (VWord w # args) = emit (fmt_x w) (format_loop p args)"
  and format_loop_s: "format_loop (CHR ''%'' # CHR ''s'' # p) (VStr t # args) = emit (fmt_s t) (format_loop p args)"
  by (simp_all add: format_loop.simps(3))

lemmas format_run = format_loop_char format_loop_d format_loop_x format_loop_s

end
