(* ===== verification/Log.thy ===== *)
theory Log
  imports Lib_IO
begin

text \<open>
  The diagnostics: \<open>kernel/core/log.c\<close> (time-stamped messages), \<open>kernel/core/hwi.c\<close> (the
  processor's brand string) and \<open>kernel/core/panic.c\<close>. The \<open>cpuid\<close> instruction is a
  parameter. \<open>panic\<close> is declared with one parameter and defined with two, so the register
  block it prints is whatever the caller left on the stack: here it is an argument nothing
  is known of.
\<close>

section \<open>log.c\<close>

definition utoa :: "u32 \<Rightarrow> string" where
  "utoa v = (if v = 0 then ''0'' else rev (dec_loop v))"

definition ts :: "'a kernel_scheme \<Rightarrow> 'a kernel_scheme" where
  "ts s =
     (let t = ticks s; sec = t div 1000; ms = t mod 1000;
          dig = (\<lambda>w :: u32. char_of (48 + unat w));
          buf = [CHR '' '', CHR ''['', CHR '' '', TAB] @ utoa sec @ [CHR ''.'', dig (ms div 100),
                 dig ((ms div 10) mod 10), dig (ms mod 10), CHR '']'', CHR '' '']
      in tty_out buf s)"

definition klog :: "string \<Rightarrow> 'a kernel_scheme \<Rightarrow> 'a kernel_scheme" where
  "klog msg s = tty_out msg (ts s)"

lemma utoa_eq: "utoa v = decimal (unat v)"
  by (auto simp: utoa_def rev_dec_loop decimal_0)

lemma digit_char: "n < 10 \<Longrightarrow> char_of (48 + n) = digit n"
  by (simp add: digit_def)

text \<open>The stamp: seconds, a point, milliseconds on three digits.\<close>

definition stamp :: "nat \<Rightarrow> string" where
  "stamp n = [CHR '' '', CHR ''['', CHR '' '', TAB] @ decimal (n div 1000)
     @ [CHR ''.'', digit (n div 100 mod 10), digit (n div 10 mod 10), digit (n mod 10), CHR '']'', CHR '' '']"

lemma ts_eq: "ts s = tty_out (stamp (unat (ticks s))) s"
proof -
  let ?n = "unat (ticks s)"
  have "?n mod 1000 div 100 = ?n div 100 mod 10"
    using mod_mult_div [of 100 ?n 10] by simp
  moreover have "?n mod 1000 div 10 mod 10 = ?n div 10 mod 10"
    using mod_mult_div [of 10 ?n 100] by (simp add: mod_mod_cancel)
  moreover have "?n mod 1000 mod 10 = ?n mod 10" by (simp add: mod_mod_cancel)
  ultimately have "unat (ticks s mod 1000 div 100) = ?n div 100 mod 10"
    "unat (ticks s mod 1000 div 10 mod 10) = ?n div 10 mod 10"
    "unat (ticks s mod 1000 mod 10) = ?n mod 10"
    by (simp_all add: unat_div unat_mod)
  then show ?thesis
    by (simp add: ts_def Let_def stamp_def utoa_eq unat_div digit_char [OF mod_less_divisor] del: tty_out_simps)
qed

lemma klog_eq: "klog msg s = tty_out (stamp (unat (ticks s)) @ msg) s"
  by (simp add: klog_def ts_eq)

text \<open>The stamp and its NUL fit \<open>buf[33]\<close>.\<close>

lemma stamp_fits: "length (stamp (unat (t :: u32))) < 33"
proof -
  have "unat t div 1000 < 10 ^ 7" 
    by (intro less_mult_imp_div_less less_trans [OF unat_u32_less(1)]) simp
  then have "length (decimal (unat t div 1000)) \<le> 7" by (intro length_numeral_of) auto
  then show ?thesis by (simp add: stamp_def)
qed

section \<open>hwi.c\<close>

type_synonym cpuid = "u32 \<Rightarrow> u32 \<times> u32 \<times> u32 \<times> u32"

definition word_chars :: "u32 \<Rightarrow> string" where
  "word_chars w = map (\<lambda>k. char_of_byte (byte_n w k)) [0..<4]"

definition cpu_brand :: "cpuid \<Rightarrow> string" where
  "cpu_brand cpuid =
     concat (map (\<lambda>i. case cpuid (0x80000002 + of_nat i) of (a, b, c, d) \<Rightarrow>
       word_chars a @ word_chars b @ word_chars c @ word_chars d) [0..<3]) @ [NUL]"

definition cpuident :: "cpuid \<Rightarrow> 'a kernel_scheme \<Rightarrow> 'a kernel_scheme" where
  "cpuident cpuid s = tty_out [NL] (tty_out (cstr (cpu_brand cpuid)) s)"

lemma length_cpu_brand: "length (cpu_brand cpuid) = 49"
  by (simp add: cpu_brand_def word_chars_def numeral_3_eq_3 split: prod.split)

section \<open>panic.c\<close>

record cpu_regs =
  r_eax :: u32
  r_ebx :: u32
  r_ecx :: u32
  r_edx :: u32
  r_esi :: u32
  r_edi :: u32
  r_ebp :: u32
  r_esp :: u32
  r_eip :: u32
  r_cs :: u32
  r_eflags :: u32

text \<open>\<open>buf[7 - i] = hex[val & 0xF]; val >>= 4\<close> for \<open>i = 0, \<dots>, 7\<close>.\<close>

fun puthex_loop :: "nat \<Rightarrow> u32 \<Rightarrow> string \<Rightarrow> string" where
  "puthex_loop 0 val buf = buf"
| "puthex_loop (Suc n) val buf =
     puthex_loop n (drop_bit 4 val) ((''0123456789ABCDEF'' ! unat (val AND 15)) # buf)"

definition puthex :: "u32 \<Rightarrow> 'a kernel_scheme \<Rightarrow> 'a kernel_scheme" where
  "puthex val s = tty_out (puthex_loop 8 val []) s"

definition infoKernelVersion :: string where
  "infoKernelVersion = ''2.10.0''"

definition reg_line :: "string \<Rightarrow> u32 \<Rightarrow> string \<Rightarrow> 'a kernel_scheme \<Rightarrow> 'a kernel_scheme" where
  "reg_line name val after s = tty_out after (puthex val (tty_out name s))"

definition panic :: "cpuid \<Rightarrow> string \<Rightarrow> cpu_regs \<Rightarrow> 'a kernel_scheme \<Rightarrow> 'a kernel_scheme" where
  "panic cpuid msg r s =
     (let s = tty_out ([NL] @ '' ----- oops! -----'' @ [NL, NL] @ '' Kernel: '') s;
          s = tty_out infoKernelVersion s;
          s = tty_out ([NL] @ '' CPU: '') s;
          s = cpuident cpuid s;
          s = reg_line ([NL] @ '' EAX='') (r_eax r) '' '' s;
          s = reg_line ''EBX='' (r_ebx r) '' '' s;
          s = reg_line ''ECX='' (r_ecx r) '' '' s;
          s = tty_out [NL] s;
          s = reg_line '' EDX='' (r_edx r) '' '' s;
          s = reg_line ''ESI='' (r_esi r) '' '' s;
          s = reg_line ''EDI='' (r_edi r) '' '' s;
          s = tty_out [NL] s;
          s = reg_line '' EBP='' (r_ebp r) '' '' s;
          s = reg_line ''ESP='' (r_esp r) '' '' s;
          s = reg_line ''EIP='' (r_eip r) '' '' s;
          s = tty_out [NL] s;
          s = reg_line '' CS='' (r_cs r) '' '' s;
          s = reg_line ''EFLAGS='' (r_eflags r) [] s;
          s = tty_out ([NL, NL] @ '' panic: '') s;
          s = tty_out msg s
      in s\<lparr>halted := True\<rparr>)"

text \<open>\<open>puthex\<close> prints the eight upper-case digits of its argument, highest first.\<close>

definition upper_digit :: "nat \<Rightarrow> char" where
  "upper_digit d = ''0123456789ABCDEF'' ! d"

lemma puthex_loop_eq:
  "puthex_loop n val buf = map (\<lambda>i. upper_digit (unat val div 16 ^ i mod 16)) (rev [0..<n]) @ buf"
proof (induction n arbitrary: val buf)
  case (Suc n)
  have "unat (drop_bit 4 val) div 16 ^ i = unat val div 16 ^ Suc i" for i
    by (simp add: drop_bit_eq_div unat_div div_mult2_eq mult.commute)
  moreover have "rev [0..<Suc n] = map Suc (rev [0..<n]) @ [0]"
    by (simp add: upt_conv_Cons map_Suc_upt flip: rev_map del: upt_Suc)
  ultimately show ?case
    using Suc by (simp add: unat_and_15 upper_digit_def del: upt_Suc power_Suc)
qed simp

lemma puthex_eq:
  "puthex val s = tty_out (map (\<lambda>i. upper_digit (unat val div 16 ^ i mod 16)) (rev [0..<8])) s"
  by (simp add: puthex_def puthex_loop_eq del: upt_rec_numeral)

lemma panic_halts: "halted (panic cpuid msg r s)"
  by (simp add: panic_def Let_def)

lemma panic_frame [frame]:
  "mem (panic cpuid msg r s) = mem s" "stuck (panic cpuid msg r s) = stuck s"
  by (simp_all add: panic_def Let_def reg_line_def puthex_def cpuident_def)

end
