(* ===== verification/Pmm.thy ===== *)
theory Pmm
  imports Log
begin

text \<open>
  The physical page allocator, \<open>kernel/mm/pmm.c\<close>, over the E820 map the boot loader leaves in
  memory (\<open>kernel/mm/lmm.h\<close>). The bitmap is the bytes of flat memory from \<open>bitmap\<close> on, so a
  write outside it is a write to other memory, as it is on the machine. Page numbers and page
  counts are \<open>uint64_t\<close> in the code; they stay below \<open>2 ^ 33\<close> (\<open>max_pages\<close> is at most
  \<open>2 ^ 20\<close> by \<open>pmm_init_max_pages\<close>, a count is a 32-bit \<open>size_t\<close>), so natural numbers are the
  same numbers.
\<close>

section \<open>The E820 map\<close>

record e820_entry =
  base_low :: u32
  base_high :: u32
  length_low :: u32
  length_high :: u32
  e_type :: u32

definition MMAPADDR :: u32 where "MMAPADDR = 0x8000"
definition MMAPCOUNT :: u32 where "MMAPCOUNT = 0x7DFE"

definition e820_count :: "memory \<Rightarrow> nat" where
  "e820_count m = unat (ld16 m MMAPCOUNT)"

definition e820_at :: "memory \<Rightarrow> nat \<Rightarrow> e820_entry" where
  "e820_at m i =
     (let a = MMAPADDR + of_nat (i * 20)
      in \<lparr>base_low = ld32 m a, base_high = ld32 m (a + 4), length_low = ld32 m (a + 8),
          length_high = ld32 m (a + 12), e_type = ld32 m (a + 16)\<rparr>)"

section \<open>State and bit access\<close>

record pmm_state = kernel +
  bitmap :: u32
  bitmap_size :: nat
  max_pages :: nat
  last_free_page :: nat

definition HHDM_OFFSET :: u64 where "HHDM_OFFSET = 0xFFFF800000000000"

text \<open>The sums are 64 bits wide, the pointers they are stored in 32.\<close>

definition P2V :: "u32 \<Rightarrow> u32" where
  "P2V phys = ucast (ucast phys + HHDM_OFFSET)"

definition V2P :: "u32 \<Rightarrow> u32" where
  "V2P virt = ucast (ucast virt - HHDM_OFFSET)"

definition PAGE_SIZE :: nat where "PAGE_SIZE = 4096"

definition bitmap_at :: "'a pmm_state_scheme \<Rightarrow> nat \<Rightarrow> u32" where
  "bitmap_at s b = bitmap s + of_nat (b div 8)"

definition BITMAP_SET :: "nat \<Rightarrow> 'a pmm_state_scheme \<Rightarrow> 'a pmm_state_scheme" where
  "BITMAP_SET b s =
     s\<lparr>mem := (mem s)(bitmap_at s b := mem s (bitmap_at s b) OR push_bit (b mod 8) 1)\<rparr>"

definition BITMAP_CLEAR :: "nat \<Rightarrow> 'a pmm_state_scheme \<Rightarrow> 'a pmm_state_scheme" where
  "BITMAP_CLEAR b s =
     s\<lparr>mem := (mem s)(bitmap_at s b := mem s (bitmap_at s b) AND NOT (push_bit (b mod 8) 1))\<rparr>"

definition BITMAP_TEST :: "'a pmm_state_scheme \<Rightarrow> nat \<Rightarrow> bool" where
  "BITMAP_TEST s b \<longleftrightarrow> mem s (bitmap_at s b) AND push_bit (b mod 8) 1 \<noteq> 0"

section \<open>pmm_init\<close>

definition region_end :: "e820_entry \<Rightarrow> u32" where
  "region_end e = (base_low e + base_high e) + (length_low e + length_high e)"

text \<open>The first loop prints the usable regions and takes the highest end.\<close>

definition max_addr_step :: "nat \<Rightarrow> nat \<times> 'a pmm_state_scheme \<Rightarrow> nat \<times> 'a pmm_state_scheme" where
  "max_addr_step i r =
     (case r of (max_addr, s) \<Rightarrow>
        let e = e820_at (mem s) i; base = base_low e + base_high e in
        if e_type e = 1 then
          (if unat (region_end e) > max_addr then unat (region_end e) else max_addr,
           snd (printf (''  - %x - %x (usable)'' @ [NL]) [VWord base, VWord (region_end e)] s))
        else (max_addr, s))"

definition bitmap_place :: "'a pmm_state_scheme \<Rightarrow> (u32 \<Rightarrow> bool) \<Rightarrow> nat option" where
  "bitmap_place s ok =
     List.find (\<lambda>i. let e = e820_at (mem s) i in
        e_type e = 1 \<and> unat (length_low e) \<ge> bitmap_size s \<and> ok (base_low e))
       [0..<e820_count (mem s)]"

definition free_region :: "nat \<Rightarrow> 'a pmm_state_scheme \<Rightarrow> 'a pmm_state_scheme" where
  "free_region i s =
     (let e = e820_at (mem s) i in
      if e_type e = 1 then
        (let start_page = unat (base_low e) div PAGE_SIZE;
             page_count = unat (length_low e) div PAGE_SIZE
         in fold (\<lambda>j s. if start_page + j < max_pages s then BITMAP_CLEAR (start_page + j) s else s)
              [0..<page_count] s)
      else s)"

definition reserve_bitmap :: "'a pmm_state_scheme \<Rightarrow> 'a pmm_state_scheme" where
  "reserve_bitmap s =
     (let bitmap_phys = V2P (bitmap s);
          bitmap_start_page = unat bitmap_phys div PAGE_SIZE;
          bitmap_page_count = bitmap_size s div PAGE_SIZE
            + (if bitmap_size s mod PAGE_SIZE \<noteq> 0 then 1 else 0)
      in fold (\<lambda>i. BITMAP_SET (bitmap_start_page + i)) [0..<bitmap_page_count] s)"

definition pmm_set_size :: "nat \<Rightarrow> 'a pmm_state_scheme \<Rightarrow> 'a pmm_state_scheme" where
  "pmm_set_size max_addr s =
     (let n = max_addr div PAGE_SIZE
      in s\<lparr>max_pages := n, bitmap_size := n div 8 + (if n mod 8 \<noteq> 0 then 1 else 0)\<rparr>)"

definition pmm_mark :: "'a pmm_state_scheme \<Rightarrow> 'a pmm_state_scheme" where
  "pmm_mark s =
     (let s = fold (\<lambda>i s. s\<lparr>mem := (mem s)(bitmap s + of_nat i := 0xFF)\<rparr>) [0..<bitmap_size s] s;
          s = fold free_region [0..<e820_count (mem s)] s;
          s = reserve_bitmap s
      in BITMAP_SET 0 s)"

definition pmm_init :: "'a pmm_state_scheme \<Rightarrow> 'a pmm_state_scheme" where
  "pmm_init s =
     (let s = tty_out (''[pmm] memory map:'' @ [NL]) s;
          (max_addr, s) = fold max_addr_step [0..<e820_count (mem s)] (0, s) in
      if max_addr = 0
      then tty_out (''[pmm] ERROR: no usable memory regions found in map'' @ [NL]) s
      else
       (let s = pmm_set_size max_addr s;
            s = snd (printf (''[pmm] max_addr: %x, bitmap_size: %x bytes'' @ [NL])
                  [VWord (of_nat max_addr), VWord (of_nat (max_addr div 2 ^ 32)),
                   VWord (of_nat (bitmap_size s))] s);
            place = (case bitmap_place s (\<lambda>base. base \<ge> 0x100000) of
                       Some i \<Rightarrow> Some i
                     | None \<Rightarrow> bitmap_place s (\<lambda>base. base > 0))
        in case place of
             None \<Rightarrow> tty_out (''[pmm] ERROR: could not find safe location for bitmap'' @ [NL]) s
           | Some i \<Rightarrow>
               (let s = pmm_mark (s\<lparr>bitmap := P2V (base_low (e820_at (mem s) i))\<rparr>)
                in snd (printf (''[pmm] initialised, bitmap @ %x'' @ [NL]) [VWord (bitmap s)] s))))"

section \<open>pmm_alloc and pmm_free\<close>

text \<open>
  The word-skipping loop. The second search of \<open>pmm_alloc\<close> also stops it at its limit; the
  first has no such test, which is \<open>lim = None\<close>.
\<close>

function skip_words :: "'a pmm_state_scheme \<Rightarrow> nat option \<Rightarrow> nat \<Rightarrow> nat" where
  "skip_words s lim i =
     (if i div 32 < max_pages s div 32 \<and> (case lim of None \<Rightarrow> True | Some l \<Rightarrow> i + 32 \<le> l)
         \<and> ld32 (mem s) (bitmap s + of_nat (4 * (i div 32))) = - 1
      then skip_words s lim (i + 32) else i)"
  by pat_completeness auto
termination
  by (relation "measure (\<lambda>(s, lim, i). max_pages s - i)") auto

declare skip_words.simps [simp del]

lemma skip_words_ge: "i \<le> skip_words s lim i"
proof (induction s lim i rule: skip_words.induct)
  case (1 s lim i)
  then show ?case by (subst skip_words.simps) auto
qed

text \<open>One search for \<open>pages\<close> consecutive free pages below \<open>limit\<close>, at page \<open>i\<close>.\<close>

function scan :: "'a pmm_state_scheme \<Rightarrow> nat option \<Rightarrow> nat \<Rightarrow> nat \<Rightarrow> nat \<Rightarrow> nat \<Rightarrow> nat \<Rightarrow> nat option" where
  "scan s lim pages limit i consecutive start_bit =
     (if i < limit then
        (let i = (if i mod 32 = 0 \<and> consecutive = 0 then skip_words s lim i else i) in
         if i \<ge> limit then None
         else if \<not> BITMAP_TEST s i then
           (let start_bit = (if consecutive = 0 then i else start_bit)
            in if consecutive + 1 = pages then Some start_bit
               else scan s lim pages limit (i + 1) (consecutive + 1) start_bit)
         else scan s lim pages limit (i + 1) 0 start_bit)
      else None)"
  by pat_completeness auto
termination
  by (relation "measure (\<lambda>(s, lim, pages, limit, i, c, st). limit - i)")
     (auto simp: Let_def split: if_splits intro!: diff_less_mono2 le_imp_less_Suc skip_words_ge)

declare scan.simps [simp del]

definition page_address :: "nat \<Rightarrow> u32" where
  "page_address start_bit = of_nat (start_bit * PAGE_SIZE)"

definition take_pages :: "nat \<Rightarrow> nat \<Rightarrow> 'a pmm_state_scheme \<Rightarrow> u32 \<times> 'a pmm_state_scheme" where
  "take_pages start_bit pages s =
     (let s = fold (\<lambda>j. BITMAP_SET (start_bit + j)) [0..<pages] s
      in (page_address start_bit, s\<lparr>last_free_page := start_bit + pages\<rparr>))"

definition pmm_alloc :: "u32 \<Rightarrow> 'a pmm_state_scheme \<Rightarrow> u32 \<times> 'a pmm_state_scheme" where
  "pmm_alloc pages s =
     (if pages = 0 then (0, s)
      else case scan s None (unat pages) (max_pages s) (last_free_page s) 0 0 of
             Some b \<Rightarrow> take_pages b (unat pages) s
           | None \<Rightarrow>
               if last_free_page s > 0 then
                 (let search_limit = last_free_page s;
                      s = s\<lparr>last_free_page := 0\<rparr>
                  in case scan s (Some search_limit) (unat pages) search_limit 0 0 0 of
                       Some b \<Rightarrow> take_pages b (unat pages) s
                     | None \<Rightarrow> (0, s))
               else (0, s))"

definition pmm_free :: "u32 \<Rightarrow> u32 \<Rightarrow> 'a pmm_state_scheme \<Rightarrow> 'a pmm_state_scheme" where
  "pmm_free ptr pages s =
     (if ptr = 0 then s
      else
       (let start_bit = unat ptr div PAGE_SIZE;
            s = fold (\<lambda>i s. if start_bit + i < max_pages s then BITMAP_CLEAR (start_bit + i) s else s)
                  [0..<unat pages] s
        in if start_bit < last_free_page s then s\<lparr>last_free_page := start_bit\<rparr> else s))"


section \<open>Bits\<close>

lemma uint_u32_mod:
  "uint (w :: u32) mod 4294967296 = uint w" "uint (w :: u32) mod 18446744073709551616 = uint w"
  using uint_lt2p [of w] by simp_all

lemma P2V_id [simp]: "P2V a = a"
proof -
  have "uint (P2V a) = (uint a + 0xFFFF800000000000) mod 2 ^ 64 mod 2 ^ 32"
    by (simp add: P2V_def HHDM_OFFSET_def unsigned_ucast_eq uint_word_ariths take_bit_eq_mod
        uint_u32_mod)
  also have "\<dots> = (uint a + 0xFFFF800000000000) mod 2 ^ 32"
    by (rule mod_mod_cancel) simp
  also have "\<dots> = uint a" by (simp add: mod_add_right_eq [symmetric] uint_u32_mod)
  finally show ?thesis by (simp add: word_uint_eq_iff)
qed

lemma V2P_id [simp]: "V2P a = a"
proof -
  have "uint (V2P a) = (uint a - 0xFFFF800000000000) mod 2 ^ 64 mod 2 ^ 32"
    by (simp add: V2P_def HHDM_OFFSET_def unsigned_ucast_eq uint_word_ariths take_bit_eq_mod
        uint_u32_mod)
  also have "\<dots> = (uint a - 0xFFFF800000000000) mod 2 ^ 32"
    by (rule mod_mod_cancel) simp
  also have "\<dots> = uint a" by (simp add: mod_diff_right_eq [symmetric] uint_u32_mod)
  finally show ?thesis by (simp add: word_uint_eq_iff)
qed

lemma BITMAP_TEST_iff: "BITMAP_TEST s b \<longleftrightarrow> bit (mem s (bitmap_at s b)) (b mod 8)"
  by (simp add: BITMAP_TEST_def push_bit_eq_mult and_exp_eq_0_iff_not_bit)

lemma bitmap_at_eq_iff:
  "a < 2 ^ 35 \<Longrightarrow> b < 2 ^ 35 \<Longrightarrow> bitmap_at s a = bitmap_at s b \<longleftrightarrow> a div 8 = b div 8"
  by (simp add: bitmap_at_def offsets less_mult_imp_div_less)

lemma same_page_iff: "a = (b :: nat) \<longleftrightarrow> a div 8 = b div 8 \<and> a mod 8 = b mod 8"
  by (metis div_mult_mod_eq)

lemma bit_set_byte: "k < 8 \<Longrightarrow> bit (x OR push_bit k 1 :: u8) m \<longleftrightarrow> bit x m \<or> m = k"
  by (auto simp: bit_simps)

lemma bit_clear_byte:
  "m < 8 \<Longrightarrow> bit (x AND NOT (push_bit k 1) :: u8) m \<longleftrightarrow> bit x m \<and> m \<noteq> k"
  by (auto simp: bit_simps)

lemma bitmap_at_mem [simp]: "bitmap_at (mem_update f s) b = bitmap_at s b"
  by (simp add: bitmap_at_def)

lemma BITMAP_TEST_SET [simp]:
  assumes "a < 2 ^ 35" "b < 2 ^ 35"
  shows "BITMAP_TEST (BITMAP_SET a s) b \<longleftrightarrow> b = a \<or> BITMAP_TEST s b"
proof (cases "a div 8 = b div 8")
  case True
  then have "b = a \<longleftrightarrow> b mod 8 = a mod 8" "bitmap_at s b = bitmap_at s a"
    by (simp_all add: same_page_iff [of b a] bitmap_at_def)
  then show ?thesis
    using bit_set_byte [of "a mod 8" "mem s (bitmap_at s a)" "b mod 8"]
    by (auto simp: BITMAP_TEST_iff BITMAP_SET_def)
next
  case False
  then have "b \<noteq> a" "bitmap_at s b \<noteq> bitmap_at s a" using bitmap_at_eq_iff [OF assms, of s] by auto
  then show ?thesis by (simp add: BITMAP_TEST_iff BITMAP_SET_def)
qed

lemma BITMAP_TEST_CLEAR [simp]:
  assumes "a < 2 ^ 35" "b < 2 ^ 35"
  shows "BITMAP_TEST (BITMAP_CLEAR a s) b \<longleftrightarrow> b \<noteq> a \<and> BITMAP_TEST s b"
proof (cases "a div 8 = b div 8")
  case True
  then have "b = a \<longleftrightarrow> b mod 8 = a mod 8" "bitmap_at s b = bitmap_at s a"
    by (simp_all add: same_page_iff [of b a] bitmap_at_def)
  then show ?thesis
    using bit_clear_byte [of "b mod 8" "mem s (bitmap_at s a)" "a mod 8"]
    by (auto simp: BITMAP_TEST_iff BITMAP_CLEAR_def)
next
  case False
  then have "b \<noteq> a" "bitmap_at s b \<noteq> bitmap_at s a" using bitmap_at_eq_iff [OF assms, of s] by auto
  then show ?thesis by (simp add: BITMAP_TEST_iff BITMAP_CLEAR_def)
qed

text \<open>Setting or clearing bits changes memory only, and there only the bitmap's bytes.\<close>

lemma BITMAP_state [simp]:
  "bitmap (BITMAP_SET a s) = bitmap s" "bitmap (BITMAP_CLEAR a s) = bitmap s"
  "bitmap_size (BITMAP_SET a s) = bitmap_size s" "bitmap_size (BITMAP_CLEAR a s) = bitmap_size s"
  "max_pages (BITMAP_SET a s) = max_pages s" "max_pages (BITMAP_CLEAR a s) = max_pages s"
  "last_free_page (BITMAP_SET a s) = last_free_page s"
  "last_free_page (BITMAP_CLEAR a s) = last_free_page s"
  "con (BITMAP_SET a s) = con s" "con (BITMAP_CLEAR a s) = con s"
  "stuck (BITMAP_SET a s) = stuck s" "stuck (BITMAP_CLEAR a s) = stuck s"
  "more (BITMAP_SET a s) = more s" "more (BITMAP_CLEAR a s) = more s"
  by (simp_all add: BITMAP_SET_def BITMAP_CLEAR_def)

lemma BITMAP_mem_outside [frame]:
  assumes "x \<notin> region (bitmap s) n" and "a < 8 * n"
  shows "mem (BITMAP_SET a s) x = mem s x" "mem (BITMAP_CLEAR a s) x = mem s x"
proof -
  have "bitmap_at s a \<in> region (bitmap s) n"
    using assms(2) by (auto simp: bitmap_at_def intro: region_memberI)
  with assms(1) have "x \<noteq> bitmap_at s a" by auto
  then show "mem (BITMAP_SET a s) x = mem s x" "mem (BITMAP_CLEAR a s) x = mem s x"
    by (simp_all add: BITMAP_SET_def BITMAP_CLEAR_def)
qed

text \<open>The two range loops of the allocator.\<close>

abbreviation set_range :: "nat \<Rightarrow> nat \<Rightarrow> 'a pmm_state_scheme \<Rightarrow> 'a pmm_state_scheme" where
  "set_range b n s \<equiv> fold (\<lambda>j. BITMAP_SET (b + j)) [0..<n] s"

abbreviation clear_range :: "nat \<Rightarrow> nat \<Rightarrow> 'a pmm_state_scheme \<Rightarrow> 'a pmm_state_scheme" where
  "clear_range b n s \<equiv>
     fold (\<lambda>j s. if b + j < max_pages s then BITMAP_CLEAR (b + j) s else s) [0..<n] s"

lemma set_range_state [simp]:
  "bitmap (set_range b n s) = bitmap s" "bitmap_size (set_range b n s) = bitmap_size s"
  "max_pages (set_range b n s) = max_pages s" "last_free_page (set_range b n s) = last_free_page s"
  "con (set_range b n s) = con s" "stuck (set_range b n s) = stuck s" "more (set_range b n s) = more s"
  by (simp_all add: fold_frame)

lemma clear_range_state [simp]:
  "bitmap (clear_range b n s) = bitmap s" "bitmap_size (clear_range b n s) = bitmap_size s"
  "max_pages (clear_range b n s) = max_pages s" "last_free_page (clear_range b n s) = last_free_page s"
  "con (clear_range b n s) = con s" "stuck (clear_range b n s) = stuck s" "more (clear_range b n s) = more s"
  by (simp_all add: fold_frame)

lemma BITMAP_TEST_set_range:
  assumes "b + n \<le> 2 ^ 35" and "p < 2 ^ 35"
  shows "BITMAP_TEST (set_range b n s) p \<longleftrightarrow> b \<le> p \<and> p < b + n \<or> BITMAP_TEST s p"
  using assms by (induction n) auto

lemma BITMAP_TEST_clear_range:
  assumes "max_pages s \<le> 2 ^ 35" and "p < 2 ^ 35"
  shows "BITMAP_TEST (clear_range b n s) p \<longleftrightarrow>
    \<not> (b \<le> p \<and> p < b + n \<and> p < max_pages s) \<and> BITMAP_TEST s p"
  using assms by (induction n) auto

lemma set_range_mem_outside [frame]:
  assumes "x \<notin> region (bitmap s) k" and "b + n \<le> 8 * k"
  shows "mem (set_range b n s) x = mem s x"
  using assms(2) by (induction n) (auto simp: BITMAP_mem_outside [where n = k] assms(1))

lemma clear_range_mem_outside [frame]:
  assumes "x \<notin> region (bitmap s) k" and "max_pages s \<le> 8 * k"
  shows "mem (clear_range b n s) x = mem s x"
  using assms(2) by (induction n) (auto simp: BITMAP_mem_outside [where n = k] assms(1))

section \<open>The search is first fit\<close>

definition free_run :: "'a pmm_state_scheme \<Rightarrow> nat \<Rightarrow> nat \<Rightarrow> bool" where
  "free_run s n b \<longleftrightarrow> (\<forall>p \<in> {b..<b + n}. \<not> BITMAP_TEST s p)"

text \<open>The reference: the lowest \<open>b\<close> from \<open>lo\<close> on with \<open>n\<close> free pages that end by \<open>hi\<close>.\<close>

definition first_fit :: "'a pmm_state_scheme \<Rightarrow> nat \<Rightarrow> nat \<Rightarrow> nat \<Rightarrow> nat option" where
  "first_fit s n lo hi = List.find (free_run s n) [lo..<Suc hi - n]"

lemma full_word_used:
  assumes "ld32 (mem s) (bitmap s + of_nat (4 * (i div 32))) = - 1" and "i mod 32 = 0"
    and "i \<le> p" and "p < i + 32"
  shows "BITMAP_TEST s p"
proof -
  let ?w = "4 * (i div 32)"
  define k where "k = (p - i) div 8"
  have k: "k < 4" using assms(4) by (simp add: k_def)
  have "i = 32 * (i div 32)" using assms(2) by (simp add: mult_div_exact)
  then have "p = 8 * ?w + (p - i)" using assms(3) by linarith
  then have "p div 8 = ?w + k" by (metis k_def div_mult_self4 add.commute zero_neq_numeral mult.commute)
  then have "bitmap_at s p = bitmap s + of_nat ?w + of_nat k" by (simp add: bitmap_at_def)
  moreover have "mem s (bitmap s + of_nat ?w + of_nat k) = - 1"
  proof -
    have "k = 0 \<or> k = 1 \<or> k = 2 \<or> k = 3" using k by linarith
    then show ?thesis using assms(1) unfolding ld32_def le32_all_ones by auto
  qed
  ultimately show ?thesis by (simp add: BITMAP_TEST_iff)
qed

lemma skip_words_used:
  "i mod 32 = 0 \<Longrightarrow> i \<le> p \<Longrightarrow> p < skip_words s lim i \<Longrightarrow> BITMAP_TEST s p"
proof (induction s lim i rule: skip_words.induct)
  case (1 s lim i)
  let ?go = "i div 32 < max_pages s div 32 \<and> (case lim of None \<Rightarrow> True | Some l \<Rightarrow> i + 32 \<le> l)
         \<and> ld32 (mem s) (bitmap s + of_nat (4 * (i div 32))) = - 1"
  show ?case
  proof (cases ?go)
    case True
    then have "skip_words s lim i = skip_words s lim (i + 32)"
      by (subst skip_words.simps) (rule if_P)
    with "1.prems"(3) have p: "p < skip_words s lim (i + 32)" by simp
    show ?thesis
    proof (cases "p < i + 32")
      case True
      then show ?thesis using \<open>?go\<close> "1.prems" by (intro full_word_used [of s i]) auto
    next
      case False
      then show ?thesis using "1.IH" [OF True] p "1.prems"(1) by simp
    qed
  next
    case False
    then have "skip_words s lim i = i" by (subst skip_words.simps) (rule if_not_P)
    then show ?thesis using "1.prems" by simp
  qed
qed

lemma free_run_busy: "BITMAP_TEST s p \<Longrightarrow> b \<le> p \<Longrightarrow> p < b + n \<Longrightarrow> \<not> free_run s n b"
  by (auto simp: free_run_def)

lemma free_run_extend:
  "free_run s c (j - c) \<Longrightarrow> c \<le> j \<Longrightarrow> \<not> BITMAP_TEST s j \<Longrightarrow> free_run s (Suc c) (j - c)"
  by (auto simp: free_run_def atLeastLessThanSuc)

lemma first_fit_busy:
  assumes "BITMAP_TEST s p" and "p < lo + n" and "lo \<le> p"
  shows "first_fit s n lo hi = first_fit s n (Suc p) hi"
  unfolding first_fit_def
  using assms by (intro find_upt_skip allI impI free_run_busy [of s p]) auto

lemma first_fit_skip:
  assumes "\<forall>p. lo \<le> p \<and> p < mid \<longrightarrow> BITMAP_TEST s p" and "lo \<le> mid" and "0 < n"
  shows "first_fit s n lo hi = first_fit s n mid hi"
  unfolding first_fit_def
proof (intro find_upt_skip allI impI)
  fix x assume "lo \<le> x \<and> x < mid"
  then show "\<not> free_run s n x" using assms(1,3) by (intro free_run_busy [of s x]) auto
qed (fact assms(2))

lemma first_fit_empty: "hi < lo + n \<Longrightarrow> first_fit s n lo hi = None"
  by (simp add: first_fit_def)

lemma first_fit_here:
  "free_run s n lo \<Longrightarrow> lo + n \<le> hi \<Longrightarrow> first_fit s n lo hi = Some lo"
  by (auto simp: first_fit_def find_upt_Some)

text \<open>
  The search with its word skipping finds what the reference finds. In the loop, the last
  \<open>consecutive\<close> pages before \<open>i\<close> are free and \<open>start_bit\<close> is the first of them.
\<close>

lemma scan_first_fit:
  assumes "c \<le> i" and "c < n" and "c > 0 \<longrightarrow> st = i - c" and "free_run s c (i - c)"
  shows "scan s lim n limit i c st = first_fit s n (i - c) limit"
  using assms
proof (induction s lim n limit i c st rule: scan.induct)
  case (1 s lim n limit i c st)
  define j where "j = (if i mod 32 = 0 \<and> c = 0 then skip_words s lim i else i)"
  have ij: "i \<le> j" using skip_words_ge [of i s lim] by (simp add: j_def)
  have used: "BITMAP_TEST s p" if "i \<le> p" "p < j" for p
    using that skip_words_used [of i p s lim] by (auto simp: j_def split: if_splits)
  have cj: "c > 0 \<Longrightarrow> j = i" by (simp add: j_def)
  have ff: "first_fit s n (i - c) limit = first_fit s n (j - c) limit"
    using used ij "1.prems" cj by (cases "c = 0") (auto intro: first_fit_skip)
  have run: "free_run s c (j - c)" "c \<le> j" using "1.prems" cj ij
    by (cases "c = 0"; simp add: free_run_def)+
  show ?case
  proof (cases "i < limit \<and> j < limit")
    case False
    then have "scan s lim n limit i c st = None"
      by (subst scan.simps) (auto simp: j_def Let_def)
    moreover have "first_fit s n (j - c) limit = None"
      using False "1.prems" ij by (intro first_fit_empty) linarith
    ultimately show ?thesis using ff by simp
  next
    case True
    define st' where "st' = (if c = 0 then j else st)"
    have st': "st' = j - c" using "1.prems" cj by (auto simp: st'_def)
    note IH = "1.IH" [OF conjunct1 [OF True] j_def]
    consider (busy) "BITMAP_TEST s j" | (found) "\<not> BITMAP_TEST s j" "c + 1 = n"
      | (more) "\<not> BITMAP_TEST s j" "c + 1 \<noteq> n" by blast
    then show ?thesis
    proof cases
      case busy
      then have "scan s lim n limit i c st = scan s lim n limit (j + 1) 0 st"
        using True by (subst scan.simps) (simp add: j_def Let_def)
      also have "\<dots> = first_fit s n (j + 1) limit"
        using IH(2) busy True "1.prems" by (simp add: free_run_def)
      also have "\<dots> = first_fit s n (j - c) limit"
        using first_fit_busy [OF busy, of "j - c" n limit] run "1.prems" by simp
      finally show ?thesis using ff by simp
    next
      case found
      then have "free_run s n (j - c)"
        using free_run_extend [OF run] by auto
      moreover have "scan s lim n limit i c st = Some st'"
        using True found by (subst scan.simps) (simp add: j_def st'_def Let_def)
      moreover have "j - c + n \<le> limit" using run(2) found(2) True by linarith
      ultimately show ?thesis using ff st' first_fit_here [of s n "j - c" limit] by simp
    next
      case more
      have "scan s lim n limit i c st = scan s lim n limit (j + 1) (c + 1) st'"
        using True more by (subst scan.simps) (simp add: j_def st'_def Let_def)
      also have "\<dots> = first_fit s n (j + 1 - (c + 1)) limit"
      proof (rule IH(1) [OF _ _ st'_def])
        show "free_run s (c + 1) (j + 1 - (c + 1))"
          using free_run_extend [OF run] more by simp
        show "c + 1 > 0 \<longrightarrow> st' = j + 1 - (c + 1)" using st' by simp
      qed (use True more "1.prems"(2) run(2) in simp_all)
      finally show ?thesis using ff by simp
    qed
  qed
qed

corollary scan_eq_first_fit: "0 < n \<Longrightarrow> scan s lim n limit i 0 st = first_fit s n i limit"
  by (simp add: scan_first_fit free_run_def)

lemma first_fit_Some:
  "first_fit s n lo hi = Some b \<Longrightarrow> lo \<le> b \<and> b + n \<le> hi \<and> free_run s n b"
  by (auto simp: first_fit_def find_upt_Some)

lemma first_fit_None:
  "first_fit s n lo hi = None \<longleftrightarrow> (\<forall>b. lo \<le> b \<and> b + n \<le> hi \<longrightarrow> \<not> free_run s n b)"
proof -
  have "b + n \<le> hi \<longleftrightarrow> b < Suc hi - n" for b by auto
  then show ?thesis by (simp add: first_fit_def find_upt_None)
qed

lemma BITMAP_TEST_hint [simp]: "BITMAP_TEST (s\<lparr>last_free_page := k\<rparr>) p = BITMAP_TEST s p"
  by (simp add: BITMAP_TEST_def bitmap_at_def)

lemma free_run_hint [simp]: "free_run (s\<lparr>last_free_page := k\<rparr>) = free_run s"
  by (simp add: free_run_def fun_eq_iff)

lemma first_fit_hint [simp]: "first_fit (s\<lparr>last_free_page := k\<rparr>) = first_fit s"
  by (simp add: first_fit_def fun_eq_iff)

text \<open>
  \<open>pmm_alloc\<close> in one equation: first fit from the hint to the end, else first fit before the
  hint. A failed search leaves the hint at 0.
\<close>

lemma pmm_alloc_eq:
  "pmm_alloc pages s =
     (let n = unat pages in
      if pages = 0 then (0, s)
      else case first_fit s n (last_free_page s) (max_pages s) of
             Some b \<Rightarrow> take_pages b n s
           | None \<Rightarrow>
              (case (if last_free_page s > 0 then first_fit s n 0 (last_free_page s) else None) of
                 Some b \<Rightarrow> take_pages b n s
               | None \<Rightarrow> (0, s\<lparr>last_free_page := 0\<rparr>)))"
proof -
  have t: "take_pages b n (s\<lparr>last_free_page := 0\<rparr>) = take_pages b n s" for b n
  proof -
    have "set_range b n (s\<lparr>last_free_page := 0\<rparr>) = (set_range b n s)\<lparr>last_free_page := 0\<rparr>"
      by (induction n) (simp_all add: BITMAP_SET_def bitmap_at_def)
    then show ?thesis by (simp add: take_pages_def)
  qed
  have "last_free_page s = 0 \<Longrightarrow> s\<lparr>last_free_page := 0\<rparr> = s" by simp
  then show ?thesis
    by (cases "pages = 0")
       (simp_all add: pmm_alloc_def Let_def scan_eq_first_fit unat_gt_0 t split: option.split)
qed

end
