(* ===== verification/Statics.thy ===== *)
theory Statics
  imports Pmm
begin

text \<open>
  The static variables of the kernel lie in its image, in the same memory as everything else. The
  components keep theirs in record fields; where some other write could reach them - a caller of
  the page allocator that owns pages of the image, a read that overruns its buffer - the fields
  are stored to the variables' addresses, the write happens, and they are read back.
\<close>

section \<open>Variables in memory\<close>

primrec bytes_of :: "nat \<Rightarrow> nat \<Rightarrow> u8 list" where
  "bytes_of 0 x = []"
| "bytes_of (Suc n) x = of_nat (x mod 256) # bytes_of n (x div 256)"

primrec value_of :: "u8 list \<Rightarrow> nat" where
  "value_of [] = 0"
| "value_of (b # bs) = unat b + 256 * value_of bs"

lemma length_bytes_of [simp]: "length (bytes_of n x) = n"
  by (induction n arbitrary: x) simp_all

lemma value_bytes: "x < 256 ^ n \<Longrightarrow> value_of (bytes_of n x) = x"
proof (induction n arbitrary: x)
  case (Suc n)
  then have "x div 256 < 256 ^ n" by (simp add: less_mult_imp_div_less mult.commute)
  then show ?case using Suc.IH [of "x div 256"] by (simp add: unat_of_nat)
qed simp

text \<open>A variable is its address and its bytes.\<close>

type_synonym variable = "u32 \<times> u8 list"

definition extent :: "variable \<Rightarrow> u32 set" where
  "extent v = region (fst v) (length (snd v))"

definition store_vars :: "variable list \<Rightarrow> memory \<Rightarrow> memory" where
  "store_vars vs m = fold (\<lambda>(a, bs). poke a bs) vs m"

definition apart :: "variable list \<Rightarrow> bool" where
  "apart vs \<longleftrightarrow> sorted_wrt (\<lambda>v w. extent v \<inter> extent w = {}) vs"

lemma store_vars_simps [simp]: "store_vars [] m = m" "store_vars (v # vs) m = store_vars vs (poke (fst v) (snd v) m)"
  by (simp_all add: store_vars_def split: prod.split)

lemma store_vars_outside: "\<forall>v \<in> set vs. x \<notin> extent v \<Longrightarrow> store_vars vs m x = m x"
  by (induction vs arbitrary: m) (simp_all add: poke_outside extent_def)

text \<open>What is read back, from a memory that has the variables' bytes still.\<close>

lemma load_stored:
  assumes "apart vs" and "v \<in> set vs" and "length (snd v) \<le> 2 ^ 32" and "\<forall>x \<in> extent v. m' x = store_vars vs m x"
  shows "peek m' (fst v) (length (snd v)) = snd v"
proof -
  have "peek (store_vars vs m) (fst v) (length (snd v)) = snd v"
    using assms(1,2)
  proof (induction vs arbitrary: m)
    case (Cons u vs)
    show ?case
    proof (cases "v \<in> set vs")
      case True
      then show ?thesis using Cons.IH Cons.prems(1) by (simp add: apart_def)
    next
      case False
      then have v: "v = u" "\<forall>w \<in> set vs. extent v \<inter> extent w = {}" using Cons.prems by (simp_all add: apart_def)
      then have "\<forall>x \<in> region (fst v) (length (snd v)). store_vars vs (poke (fst v) (snd v) m) x = poke (fst v) (snd v) m x"
        by (intro ballI store_vars_outside) (auto simp: extent_def)
      from peek_cong [OF this] show ?thesis using v(1) assms(3) by (simp add: peek_poke)
    qed
  qed simp
  moreover have "peek m' (fst v) (length (snd v)) = peek (store_vars vs m) (fst v) (length (snd v))"
    using assms(4) by (intro peek_cong) (simp add: extent_def)
  ultimately show ?thesis by simp
qed

section \<open>The allocator's variables\<close>

text \<open>Where the linker puts \<open>bitmap\<close>, \<open>bitmap_size\<close>, \<open>max_pages\<close> and \<open>last_free_page\<close>.\<close>

record pmm_layout =
  at_bitmap :: u32
  at_bitmap_size :: u32
  at_max_pages :: u32
  at_last_free_page :: u32

definition pmm_variables :: "pmm_layout \<Rightarrow> 'a pmm_state_scheme \<Rightarrow> variable list" where
  "pmm_variables Y s =
     [(at_bitmap Y, bytes_of 4 (unat (bitmap s))), (at_bitmap_size Y, bytes_of 4 (bitmap_size s)),
      (at_max_pages Y, bytes_of 8 (max_pages s)), (at_last_free_page Y, bytes_of 8 (last_free_page s))]"

definition load_pmm :: "pmm_layout \<Rightarrow> 'a pmm_state_scheme \<Rightarrow> 'a pmm_state_scheme" where
  "load_pmm Y s =
     s\<lparr>bitmap := of_nat (value_of (peek (mem s) (at_bitmap Y) 4)), bitmap_size := value_of (peek (mem s) (at_bitmap_size Y) 4),
       max_pages := value_of (peek (mem s) (at_max_pages Y) 8), last_free_page := value_of (peek (mem s) (at_last_free_page Y) 8)\<rparr>"

text \<open>The bytes they take, for every state the same; that they fit.\<close>

definition pmm_cells :: "pmm_layout \<Rightarrow> u32 set" where
  "pmm_cells Y = region (at_bitmap Y) 4 \<union> region (at_bitmap_size Y) 4 \<union> region (at_max_pages Y) 8 \<union> region (at_last_free_page Y) 8"

definition pmm_fits :: "'a pmm_state_scheme \<Rightarrow> bool" where
  "pmm_fits s \<longleftrightarrow> bitmap_size s < 2 ^ 32 \<and> max_pages s < 2 ^ 64 \<and> last_free_page s < 2 ^ 64"

lemma pmm_extents: "\<Union> (extent ` set (pmm_variables Y s)) = pmm_cells Y"
  by (auto simp: pmm_variables_def extent_def pmm_cells_def)

lemma load_pmm_stored:
  assumes "apart vs" and "set (pmm_variables Y s) \<subseteq> set vs" and "pmm_fits s"
    and "alloc = (bitmap s, bitmap_size s, max_pages s, last_free_page s)"
    and "\<forall>x \<in> pmm_cells Y. mem t x = store_vars vs m x"
  shows "(bitmap (load_pmm Y t), bitmap_size (load_pmm Y t), max_pages (load_pmm Y t), last_free_page (load_pmm Y t)) = alloc"
proof -
  have load: "peek (mem t) (fst v) (length (snd v)) = snd v" if "v \<in> set (pmm_variables Y s)" for v
  proof (rule load_stored [OF assms(1)])
    show "v \<in> set vs" using assms(2) that by blast
    show "length (snd v) \<le> 2 ^ 32" using that by (auto simp: pmm_variables_def)
    show "\<forall>x \<in> extent v. mem t x = store_vars vs m x"
      using assms(5) that unfolding pmm_extents [of Y s, symmetric] by blast
  qed
  have "unat (bitmap s) < 256 ^ 4" using unsigned_less [of "bitmap s", where ?'a = nat] by simp
  then show ?thesis
    using load [of "(at_bitmap Y, bytes_of 4 (unat (bitmap s)))"] load [of "(at_bitmap_size Y, bytes_of 4 (bitmap_size s))"]
      load [of "(at_max_pages Y, bytes_of 8 (max_pages s))"] load [of "(at_last_free_page Y, bytes_of 8 (last_free_page s))"]
      assms(3,4)
    by (simp add: pmm_variables_def load_pmm_def pmm_fits_def value_bytes)
qed

section \<open>Writes of the owner of a block\<close>

text \<open>A byte written to memory, which may be a byte of a variable.\<close>

definition owner_write :: "pmm_layout \<Rightarrow> u32 \<Rightarrow> u8 \<Rightarrow> 'a pmm_state_scheme \<Rightarrow> 'a pmm_state_scheme" where
  "owner_write Y x v s = load_pmm Y (s\<lparr>mem := (store_vars (pmm_variables Y s) (mem s))(x := v)\<rparr>)"

text \<open>The layout: variables that do not overlap, inside the kernel's image.\<close>

definition pmm_layout_ok :: "pmm_layout \<Rightarrow> u32 set \<Rightarrow> bool" where
  "pmm_layout_ok Y own \<longleftrightarrow> pmm_cells Y \<subseteq> own
     \<and> sorted_wrt (\<lambda>(a, n) (b, k). region a n \<inter> region b k = {})
         [(at_bitmap Y, 4), (at_bitmap_size Y, 4), (at_max_pages Y, 8), (at_last_free_page Y, 8)]"

lemma pmm_apart: "pmm_layout_ok Y own \<Longrightarrow> apart (pmm_variables Y s)"
  by (simp add: pmm_layout_ok_def apart_def pmm_variables_def extent_def)

lemma owner_write_outside:
  assumes "pmm_layout_ok Y own" and "x \<notin> own" and "pmm_fits s"
  shows "\<exists>m. owner_write Y x v s = s\<lparr>mem := m\<rparr> \<and> (\<forall>a. a \<notin> own \<and> a \<noteq> x \<longrightarrow> m a = mem s a)"
proof -
  let ?t = "s\<lparr>mem := (store_vars (pmm_variables Y s) (mem s))(x := v)\<rparr>"
  have cells: "pmm_cells Y \<subseteq> own" using assms(1) by (simp add: pmm_layout_ok_def)
  then have "\<forall>a \<in> pmm_cells Y. mem ?t a = store_vars (pmm_variables Y s) (mem s) a" using assms(2) by auto
  from load_pmm_stored [OF pmm_apart [OF assms(1)] order_refl assms(3) refl this]
  have "load_pmm Y ?t = ?t" by (simp add: load_pmm_def)
  moreover have "mem ?t a = mem s a" if "a \<notin> own" "a \<noteq> x" for a
    using that cells pmm_extents [of Y s] store_vars_outside [of "pmm_variables Y s" a "mem s"] by auto
  ultimately show ?thesis by (auto simp: owner_write_def)
qed

end
