(* ===== verification/Page_Allocator.thy ===== *)
theory Page_Allocator
  imports Prelude
begin

text \<open>
  What the clients of the page allocator (the program loader, the logo drawer) rely on: the
  interface of \<open>kernel/mm/pmm.h\<close> as a locale. A block is the range of pages at an address;
  the laws say which pages each call takes or gives back. The client lemmas are that taking
  and giving back a block changes nothing and that the blocks handed out stay disjoint.
\<close>

definition block :: "u32 \<times> u32 \<Rightarrow> nat set" where
  "block b = {unat (fst b) div 4096 ..< unat (fst b) div 4096 + unat (snd b)}"

lemma finite_block [simp]: "finite (block b)"
  by (simp add: block_def)

text \<open>A list of blocks in use: each lies in the managed pages, is marked, and no two meet.\<close>

definition live_blocks :: "(nat \<Rightarrow> bool) \<Rightarrow> nat \<Rightarrow> (u32 \<times> u32) list \<Rightarrow> bool" where
  "live_blocks used n L \<longleftrightarrow>
     (\<forall>b \<in> set L. fst b \<noteq> 0 \<and> block b \<subseteq> {0<..<n} \<and> (\<forall>p \<in> block b. used p))
     \<and> sorted_wrt (\<lambda>x y. block x \<inter> block y = {}) L"

text \<open>
  The marks are exactly those of an earlier state \<open>used0\<close> and of the blocks in \<open>L\<close>, which
  were free then.
\<close>

definition accounted :: "(nat \<Rightarrow> bool) \<Rightarrow> (nat \<Rightarrow> bool) \<Rightarrow> nat \<Rightarrow> (u32 \<times> u32) list \<Rightarrow> bool" where
  "accounted used0 used n L \<longleftrightarrow>
     (\<forall>p < n. used p \<longleftrightarrow> used0 p \<or> (\<exists>b \<in> set L. p \<in> block b))
     \<and> (\<forall>b \<in> set L. \<forall>p \<in> block b. \<not> used0 p)"

lemma sorted_wrt_remove1: "sorted_wrt P L \<Longrightarrow> sorted_wrt P (remove1 x L)"
  by (induction L) (auto dest: notin_set_remove1 in_set_remove1 [THEN iffD1] set_remove1_subset [THEN subsetD])

lemma live_blocks_disjoint:
  assumes "live_blocks used n L" and "b \<in> set L" and "c \<in> set (remove1 b L)"
  shows "block b \<inter> block c = {}"
  using assms
proof (induction L)
  case (Cons x L)
  then show ?case
    by (cases "x = b") (auto simp: live_blocks_def)
qed simp

locale page_allocator =
  fixes alloc :: "u32 \<Rightarrow> 's \<Rightarrow> u32 \<times> 's"
    and release :: "u32 \<Rightarrow> u32 \<Rightarrow> 's \<Rightarrow> 's"
    and used :: "'s \<Rightarrow> nat \<Rightarrow> bool"
    and pages :: "'s \<Rightarrow> nat"
    and wf :: "'s \<Rightarrow> bool"
  assumes wf_page_0: "wf s \<Longrightarrow> used s 0"
    and alloc_wf: "wf s \<Longrightarrow> wf (snd (alloc n s))"
    and alloc_pages: "pages (snd (alloc n s)) = pages s"
    and alloc_block: "wf s \<Longrightarrow> alloc n s = (a, s') \<Longrightarrow> a \<noteq> 0 \<Longrightarrow>
        block (a, n) \<subseteq> {..<pages s} \<and> (\<forall>p \<in> block (a, n). \<not> used s p)
        \<and> (\<forall>p < pages s. used s' p \<longleftrightarrow> used s p \<or> p \<in> block (a, n))"
    and alloc_none: "wf s \<Longrightarrow> alloc n s = (0, s') \<Longrightarrow> p < pages s \<Longrightarrow> used s' p = used s p"
    and release_wf: "wf s \<Longrightarrow> 0 \<notin> block (a, n) \<Longrightarrow> wf (release a n s)"
    and release_pages: "pages (release a n s) = pages s"
    and release_block: "wf s \<Longrightarrow> a \<noteq> 0 \<Longrightarrow> p < pages s \<Longrightarrow>
        used (release a n s) p \<longleftrightarrow> used s p \<and> p \<notin> block (a, n)"
begin

lemma alloc_release:
  assumes "wf s" and "alloc n s = (a, s')" and "a \<noteq> 0" and "p < pages s"
  shows "used (release a n s') p = used s p"
proof -
  have "wf s'" "pages s' = pages s"
    using alloc_wf [OF assms(1), of n] alloc_pages [of n s] assms(2) by simp_all
  then show ?thesis
    using alloc_block [OF assms(1-3)] release_block [of s' a p n] assms(3,4) by auto
qed

lemma live_alloc:
  assumes "wf s" and "live_blocks (used s) (pages s) L" and "alloc n s = (a, s')" and "a \<noteq> 0"
  shows "live_blocks (used s') (pages s') ((a, n) # L)"
proof -
  have pg: "pages s' = pages s" using alloc_pages [of n s] assms(3) by simp
  note new = alloc_block [OF assms(1,3,4)]
  have "0 \<notin> block (a, n)" using new wf_page_0 [OF assms(1)] by blast
  then have "block (a, n) \<subseteq> {0<..<pages s}" using new by (auto simp: subset_iff) (metis gr0I)
  moreover have "block (a, n) \<inter> block b = {}" if "b \<in> set L" for b
    using that assms(2) new unfolding live_blocks_def by blast
  ultimately show ?thesis
    using assms(2,4) new unfolding live_blocks_def pg by (auto simp: subset_iff)
qed

lemma live_alloc_none:
  assumes "wf s" and "live_blocks (used s) (pages s) L" and "alloc n s = (0, s')"
  shows "live_blocks (used s') (pages s') L"
proof -
  have "pages s' = pages s" using alloc_pages [of n s] assms(3) by simp
  then show ?thesis
    using assms(2) alloc_none [OF assms(1,3)] unfolding live_blocks_def by (auto simp: subset_iff)
qed

lemma accounted_alloc:
  assumes "wf s" and "accounted used0 (used s) (pages s) L" and "alloc n s = (a, s')" and "a \<noteq> 0"
  shows "accounted used0 (used s') (pages s') ((a, n) # L)"
proof -
  have "pages s' = pages s" using alloc_pages [of n s] assms(3) by simp
  then show ?thesis
    using assms(2) alloc_block [OF assms(1,3,4)] unfolding accounted_def
    by (auto simp: subset_iff)
qed

lemma accounted_alloc_none:
  assumes "wf s" and "accounted used0 (used s) (pages s) L" and "alloc n s = (0, s')"
  shows "accounted used0 (used s') (pages s') L"
  using assms(2) alloc_none [OF assms(1,3)] alloc_pages [of n s] assms(3)
  unfolding accounted_def by simp

lemma live_release:
  assumes "wf s" and "live_blocks (used s) (pages s) L" and "(a, n) \<in> set L"
  shows "live_blocks (used (release a n s)) (pages s) (remove1 (a, n) L)"
    and "wf (release a n s)"
proof -
  have ab: "a \<noteq> 0" "0 \<notin> block (a, n)"
    using assms(2,3) unfolding live_blocks_def by fastforce+
  then show "wf (release a n s)" using release_wf [OF assms(1)] by blast
  have "used (release a n s) p" if "b \<in> set (remove1 (a, n) L)" "p \<in> block b" for b p
  proof -
    have "b \<in> set L" using that(1) by (meson notin_set_remove1)
    then have "p < pages s" "used s p"
      using that(2) assms(2) unfolding live_blocks_def by (auto simp: subset_iff)
    moreover have "p \<notin> block (a, n)"
      using live_blocks_disjoint [OF assms(2,3) that(1)] that(2) by blast
    ultimately show ?thesis using release_block [OF assms(1) ab(1)] by blast
  qed
  note still_used = this
  have inL: "b \<in> set L" if "b \<in> set (remove1 (a, n) L)" for b
    using that by (meson notin_set_remove1)
  show "live_blocks (used (release a n s)) (pages s) (remove1 (a, n) L)"
    unfolding live_blocks_def
  proof (intro conjI ballI)
    fix b assume b: "b \<in> set (remove1 (a, n) L)"
    then show "fst b \<noteq> 0" "block b \<subseteq> {0<..<pages s}"
      using assms(2) inL [OF b] unfolding live_blocks_def by blast+
    show "used (release a n s) p" if "p \<in> block b" for p using still_used [OF b that] .
  next
    show "sorted_wrt (\<lambda>x y. block x \<inter> block y = {}) (remove1 (a, n) L)"
      using assms(2) unfolding live_blocks_def by (intro sorted_wrt_remove1) blast
  qed
qed

lemma accounted_release:
  assumes "wf s" and "live_blocks (used s) (pages s) L" and "(a, n) \<in> set L"
    and "accounted used0 (used s) (pages s) L"
  shows "accounted used0 (used (release a n s)) (pages s) (remove1 (a, n) L)"
proof -
  have a: "a \<noteq> 0" using assms(2,3) unfolding live_blocks_def by fastforce
  have inL: "b \<in> set L" if "b \<in> set (remove1 (a, n) L)" for b
    using that by (meson notin_set_remove1)
  have split: "(\<exists>b \<in> set L. p \<in> block b) \<longleftrightarrow> p \<in> block (a, n) \<or> (\<exists>b \<in> set (remove1 (a, n) L). p \<in> block b)" for p
    using assms(3) inL by (metis in_set_remove1)
  have "p \<in> block (a, n) \<Longrightarrow> \<not> (\<exists>b \<in> set (remove1 (a, n) L). p \<in> block b)" for p
    using live_blocks_disjoint [OF assms(2,3)] by blast
  then show ?thesis
    using assms(3,4) inL release_block [OF assms(1) a] split unfolding accounted_def by blast
qed

end

end
