(* ===== verification/Pmm_Spec.thy ===== *)
theory Pmm_Spec
  imports Statics Page_Allocator
begin

text \<open>
  What the page allocator guarantees: it provides the interface of \<open>Page_Allocator\<close>, so the
  blocks it hands out never overlap; and what \<open>pmm_init\<close> makes of an E820 map.
\<close>

section \<open>The allocator provides its interface\<close>

definition pmm_wf :: "'a pmm_state_scheme \<Rightarrow> bool" where
  "pmm_wf s \<longleftrightarrow> max_pages s \<le> 2 ^ 20 \<and> last_free_page s \<le> max_pages s \<and> BITMAP_TEST s 0"

lemma unat_page_address: "b < 2 ^ 20 \<Longrightarrow> unat (page_address b) = b * 4096"
  using unat_of_nat_u32 [of "b * 4096"] by (simp add: page_address_def PAGE_SIZE_def del: of_nat_mult)

lemma block_page: "b < 2 ^ 20 \<Longrightarrow> block (page_address b, n) = {b..<b + unat n}"
  by (simp add: block_def unat_page_address)

text \<open>A call finds a free run inside the managed pages and takes it, or finds none.\<close>

lemma pmm_alloc_cases:
  assumes "last_free_page s \<le> max_pages s"
  obtains (none) "pmm_alloc n s = (0, s\<lparr>last_free_page := last_free_page (snd (pmm_alloc n s))\<rparr>)"
      "last_free_page (snd (pmm_alloc n s)) \<le> last_free_page s"
    | (some) b where "pmm_alloc n s = take_pages b (unat n) s" "free_run s (unat n) b"
      "b + unat n \<le> max_pages s" "n \<noteq> 0"
proof (cases "n = 0")
  case True
  then show thesis using none by (simp add: pmm_alloc_eq)
next
  case False
  let ?ff = "first_fit s (unat n) (last_free_page s) (max_pages s)"
  let ?gg = "if last_free_page s > 0 then first_fit s (unat n) 0 (last_free_page s) else None"
  consider (after) b where "?ff = Some b" | (before) b where "?ff = None" "?gg = Some b"
    | (nowhere) "?ff = None" "?gg = None"
    by (cases ?ff; cases ?gg) blast+
  then show thesis
  proof cases
    case (after b)
    then show thesis using some [of b] False first_fit_Some [OF after] by (simp add: pmm_alloc_eq)
  next
    case (before b)
    then have b: "first_fit s (unat n) 0 (last_free_page s) = Some b" by (simp split: if_splits)
    have "pmm_alloc n s = take_pages b (unat n) s" using before False by (simp add: pmm_alloc_eq)
    then show thesis using some [of b] False first_fit_Some [OF b] assms by simp
  next
    case nowhere
    then show thesis using none False by (simp add: pmm_alloc_eq)
  qed
qed

lemma take_pages_used:
  assumes "b + n \<le> max_pages s" and "max_pages s \<le> 2 ^ 20" and "p < 2 ^ 35"
  shows "BITMAP_TEST (snd (take_pages b n s)) p \<longleftrightarrow> BITMAP_TEST s p \<or> b \<le> p \<and> p < b + n"
  using assms by (auto simp: take_pages_def Let_def BITMAP_TEST_set_range)

lemma take_pages_state [simp]:
  "max_pages (snd (take_pages b n s)) = max_pages s" "bitmap (snd (take_pages b n s)) = bitmap s"
  "last_free_page (snd (take_pages b n s)) = b + n" "fst (take_pages b n s) = page_address b"
  by (simp_all add: take_pages_def Let_def)

lemma pmm_free_used:
  assumes "max_pages s \<le> 2 ^ 20" and "a \<noteq> 0" and "p < max_pages s"
  shows "BITMAP_TEST (pmm_free a n s) p \<longleftrightarrow> BITMAP_TEST s p \<and> p \<notin> block (a, n)"
  using assms by (auto simp: pmm_free_def Let_def BITMAP_TEST_clear_range block_def PAGE_SIZE_def)

lemma pmm_free_state [simp]:
  "max_pages (pmm_free a n s) = max_pages s"
  "last_free_page (pmm_free a n s) =
     (if a \<noteq> 0 \<and> unat a div 4096 < last_free_page s then unat a div 4096 else last_free_page s)"
  by (auto simp: pmm_free_def Let_def PAGE_SIZE_def)

lemma pmm_alloc_pages: "max_pages (snd (pmm_alloc n s)) = max_pages s"
  by (simp add: pmm_alloc_eq Let_def split: option.split)

lemma pmm_alloc_wf: "pmm_wf s \<Longrightarrow> pmm_wf (snd (pmm_alloc n s))"
proof -
  assume wf: "pmm_wf s"
  then have "last_free_page s \<le> max_pages s" by (simp add: pmm_wf_def)
  then show ?thesis
  proof (cases rule: pmm_alloc_cases [where n = n])
    case none
    then show ?thesis using wf unfolding pmm_wf_def
      by (metis BITMAP_TEST_hint le_trans pmm_alloc_pages snd_conv)
  next
    case (some b)
    then show ?thesis using wf by (auto simp: pmm_wf_def take_pages_used)
  qed
qed

lemma pmm_alloc_block:
  assumes wf: "pmm_wf s" and a: "pmm_alloc n s = (a, s')" "a \<noteq> 0"
  shows "block (a, n) \<subseteq> {..<max_pages s} \<and> (\<forall>p \<in> block (a, n). \<not> BITMAP_TEST s p)
    \<and> (\<forall>p < max_pages s. BITMAP_TEST s' p \<longleftrightarrow> BITMAP_TEST s p \<or> p \<in> block (a, n))"
proof -
  have bounds: "last_free_page s \<le> max_pages s" "max_pages s \<le> 2 ^ 20"
    using wf by (simp_all add: pmm_wf_def)
  from bounds(1) show ?thesis
  proof (cases rule: pmm_alloc_cases [where n = n])
    case none
    then show ?thesis using a by simp
  next
    case (some b)
    then have "0 < unat n" by (simp add: unat_gt_0)
    then have "b < 2 ^ 20" using some(3) bounds(2) by simp
    moreover have "a = page_address b" using some(1) a(1) by (metis fst_conv take_pages_state(4))
    ultimately have "block (a, n) = {b..<b + unat n}" by (simp add: block_page)
    moreover have "s' = snd (take_pages b (unat n) s)" using some(1) a(1) by (metis snd_conv)
    ultimately show ?thesis
      using some(2,3) bounds(2) by (auto simp: take_pages_used free_run_def)
  qed
qed

lemma pmm_wf_page_0: "pmm_wf s \<Longrightarrow> BITMAP_TEST s 0"
  by (simp add: pmm_wf_def)

lemma pmm_alloc_none:
  assumes wf: "pmm_wf s" and none: "pmm_alloc n s = (0, s')" and p: "p < max_pages s"
  shows "BITMAP_TEST s' p = BITMAP_TEST s p"
proof -
  have "last_free_page s \<le> max_pages s" using wf by (simp add: pmm_wf_def)
  then show ?thesis
  proof (cases rule: pmm_alloc_cases [where n = n])
    case none
    then show ?thesis using \<open>pmm_alloc n s = (0, s')\<close> by (metis BITMAP_TEST_hint snd_conv)
  next
    case (some b)
    then have "0 < unat n" by (simp add: unat_gt_0)
    then have "b < 2 ^ 20" using some(3) wf by (simp add: pmm_wf_def)
    moreover have "page_address b = 0" using some(1) none by (metis fst_conv take_pages_state(4))
    ultimately have "b = 0" using unat_page_address [of b] by simp
    then show ?thesis using some wf by (auto simp: pmm_wf_def free_run_def unat_gt_0)
  qed
qed

lemma pmm_free_wf: "pmm_wf s \<Longrightarrow> 0 \<notin> block (a, n) \<Longrightarrow> pmm_wf (pmm_free a n s)"
proof (cases "a = 0")
  case False
  assume "pmm_wf s" "0 \<notin> block (a, n)"
  with False show ?thesis unfolding pmm_wf_def
    by (auto simp: pmm_free_def Let_def BITMAP_TEST_clear_range block_def PAGE_SIZE_def)
qed (simp add: pmm_free_def)

lemma pmm_free_block:
  "pmm_wf s \<Longrightarrow> a \<noteq> 0 \<Longrightarrow> p < max_pages s \<Longrightarrow>
     BITMAP_TEST (pmm_free a n s) p \<longleftrightarrow> BITMAP_TEST s p \<and> p \<notin> block (a, n)"
  by (simp add: pmm_wf_def pmm_free_used)

interpretation pmm: page_allocator pmm_alloc pmm_free BITMAP_TEST max_pages pmm_wf
  by (unfold_locales; fact pmm_wf_page_0 pmm_alloc_wf pmm_alloc_pages pmm_alloc_block
      pmm_alloc_none pmm_free_wf pmm_free_state(1) pmm_free_block)

section \<open>Blocks handed out never overlap\<close>

text \<open>
  Any sequence of calls and of writes by the owners of blocks from \<open>s0\<close>: \<open>L\<close> lists the blocks
  (address and page count) allocated and not yet freed; a block is freed with the count it was
  allocated with, and an owner writes only inside its block. Blocks may lie in the kernel's own
  memory \<open>own\<close> (its image, with the allocator's variables at \<open>Y\<close>): what is said of a run is said
  of owners that do not write there.
\<close>

inductive pmm_run ::
    "pmm_layout \<Rightarrow> u32 set \<Rightarrow> 'a pmm_state_scheme \<Rightarrow> 'a pmm_state_scheme \<Rightarrow> (u32 \<times> u32) list \<Rightarrow> bool" for Y own s0 where
  start: "pmm_run Y own s0 s0 []"
| alloc: "pmm_run Y own s0 s L \<Longrightarrow> pmm_alloc n s = (a, s') \<Longrightarrow> a \<noteq> 0 \<Longrightarrow> pmm_run Y own s0 s' ((a, n) # L)"
| fail: "pmm_run Y own s0 s L \<Longrightarrow> pmm_alloc n s = (0, s') \<Longrightarrow> pmm_run Y own s0 s' L"
| free: "pmm_run Y own s0 s L \<Longrightarrow> (a, n) \<in> set L \<Longrightarrow> pmm_run Y own s0 (pmm_free a n s) (remove1 (a, n) L)"
| poke: "pmm_run Y own s0 s L \<Longrightarrow> b \<in> set L \<Longrightarrow> unat x div 4096 \<in> block b \<Longrightarrow> x \<notin> own \<Longrightarrow>
    pmm_run Y own s0 (owner_write Y x v s) L"

text \<open>The pages the bitmap itself lies in are marked used.\<close>

definition metadata_safe :: "'a pmm_state_scheme \<Rightarrow> bool" where
  "metadata_safe s \<longleftrightarrow> max_pages s \<le> 8 * bitmap_size s
     \<and> (\<forall>x \<in> region (bitmap s) (bitmap_size s).
          unat x div 4096 < max_pages s \<longrightarrow> BITMAP_TEST s (unat x div 4096))"

lemma pmm_alloc_bitmap:
  "bitmap (snd (pmm_alloc n s)) = bitmap s" "bitmap_size (snd (pmm_alloc n s)) = bitmap_size s"
  by (simp_all add: pmm_alloc_eq Let_def take_pages_def split: option.split)

lemma pmm_free_bitmap:
  "bitmap (pmm_free a n s) = bitmap s" "bitmap_size (pmm_free a n s) = bitmap_size s"
  by (simp_all add: pmm_free_def Let_def)

lemma BITMAP_TEST_cong:
  assumes "\<forall>x \<in> region (bitmap s) (bitmap_size s). m x = mem s x" and "p < 8 * bitmap_size s"
  shows "BITMAP_TEST (s\<lparr>mem := m\<rparr>) p = BITMAP_TEST s p"
proof -
  have "bitmap_at s p \<in> region (bitmap s) (bitmap_size s)"
    using assms(2) by (auto simp: bitmap_at_def intro: region_memberI)
  with assms(1) show ?thesis by (simp add: BITMAP_TEST_def bitmap_at_def)
qed

text \<open>The kernel's own memory holds the allocator's variables and not its bitmap.\<close>

definition own_ok :: "pmm_layout \<Rightarrow> u32 set \<Rightarrow> 'a pmm_state_scheme \<Rightarrow> bool" where
  "own_ok Y own s \<longleftrightarrow> pmm_layout_ok Y own \<and> own \<inter> region (bitmap s) (bitmap_size s) = {} \<and> bitmap_size s < 2 ^ 32"

definition run_inv :: "'a pmm_state_scheme \<Rightarrow> 'a pmm_state_scheme \<Rightarrow> (u32 \<times> u32) list \<Rightarrow> bool" where
  "run_inv s0 s L \<longleftrightarrow> pmm_wf s \<and> max_pages s = max_pages s0 \<and> bitmap s = bitmap s0
     \<and> bitmap_size s = bitmap_size s0 \<and> live_blocks (BITMAP_TEST s) (max_pages s) L
     \<and> accounted (BITMAP_TEST s0) (BITMAP_TEST s) (max_pages s) L"

lemma run_inv_write:
  assumes "run_inv s0 s L" and "metadata_safe s0" and "own_ok Y own s0" and "b \<in> set L" and "unat x div 4096 \<in> block b" and "x \<notin> own"
  shows "run_inv s0 (owner_write Y x v s) L"
proof -
  have p: "unat x div 4096 < max_pages s0" "\<not> BITMAP_TEST s0 (unat x div 4096)"
    using assms by (auto simp: run_inv_def live_blocks_def accounted_def subset_iff)
  have area: "region (bitmap s) (bitmap_size s) = region (bitmap s0) (bitmap_size s0)" using assms(1) by (simp add: run_inv_def)
  have x: "x \<notin> region (bitmap s) (bitmap_size s)"
    using p assms(2) unfolding area metadata_safe_def by blast
  have le: "max_pages s0 \<le> 8 * bitmap_size s" "max_pages s = max_pages s0" "0 < max_pages s0"
    using assms(1,2) p(1) by (simp_all add: metadata_safe_def run_inv_def)
  have "pmm_fits s" using assms(1,3) by (auto simp: run_inv_def pmm_wf_def pmm_fits_def own_ok_def)
  then obtain m where m: "owner_write Y x v s = s\<lparr>mem := m\<rparr>" "\<forall>a. a \<notin> own \<and> a \<noteq> x \<longrightarrow> m a = mem s a"
    using owner_write_outside [of Y own x s v] assms(3,6) by (auto simp: own_ok_def)
  have "\<forall>a \<in> region (bitmap s) (bitmap_size s). m a = mem s a"
    using m(2) x assms(3) unfolding own_ok_def area by (metis disjoint_iff)
  then have same: "p < max_pages s \<Longrightarrow> BITMAP_TEST (s\<lparr>mem := m\<rparr>) p = BITMAP_TEST s p" for p
    using le by (intro BITMAP_TEST_cong) simp_all
  have "live_blocks (BITMAP_TEST (s\<lparr>mem := m\<rparr>)) (max_pages s) L"
    using assms(1) same unfolding run_inv_def live_blocks_def
    by (meson greaterThanLessThan_iff subset_iff)
  then show ?thesis
    using assms(1) same same [of 0] le unfolding m(1) run_inv_def pmm_wf_def accounted_def by simp
qed

lemma pmm_run_invariant:
  assumes "pmm_run Y own s0 s L" and "pmm_wf s0" and "metadata_safe s0" and "own_ok Y own s0"
  shows "run_inv s0 s L"
  using assms
proof (induction rule: pmm_run.induct)
  case start
  then show ?case by (simp add: run_inv_def live_blocks_def accounted_def)
next
  case (alloc s L n a s')
  then have s': "s' = snd (pmm_alloc n s)" and inv: "run_inv s0 s L" by simp_all
  note laws = pmm.live_alloc [OF _ _ alloc.hyps(2,3)] pmm.accounted_alloc [OF _ _ alloc.hyps(2,3)]
  show ?case
    using inv laws pmm.alloc_wf [of s n] pmm.alloc_pages [of n s]
    by (auto simp: run_inv_def s' pmm_alloc_bitmap)
next
  case (fail s L n s')
  then have s': "s' = snd (pmm_alloc n s)" and inv: "run_inv s0 s L" by simp_all
  note laws = pmm.live_alloc_none [OF _ _ fail.hyps(2)] pmm.accounted_alloc_none [OF _ _ fail.hyps(2)]
  show ?case
    using inv laws pmm.alloc_wf [of s n] pmm.alloc_pages [of n s]
    by (auto simp: run_inv_def s' pmm_alloc_bitmap)
next
  case (free s L a n)
  then have "run_inv s0 s L" by simp
  then show ?case
    using pmm.live_release [OF _ _ free.hyps(2), of s] pmm.accounted_release [OF _ _ free.hyps(2), of s]
    by (auto simp: run_inv_def pmm_free_bitmap)
next
  case (poke s L b x v)
  then show ?case using run_inv_write [of s0 s L Y own b x v] by simp
qed

section \<open>A failed request\<close>

text \<open>
  The second search stops at the hint, so one failure may miss a run across it; but the
  failure resets the hint, and the next call searches everything.
\<close>

lemma pmm_alloc_fails:
  assumes "n \<noteq> 0" and "fst (pmm_alloc n s) = 0" and "pmm_wf s" and "fst (pmm_alloc n (snd (pmm_alloc n s))) = 0"
  shows "\<not> (\<exists>b. b + unat n \<le> max_pages s \<and> free_run s (unat n) b)"
proof -
  have n: "0 < unat n" using assms(1) by (simp add: unat_gt_0)
  have fails: "first_fit t (unat n) (last_free_page t) (max_pages t) = None \<and> last_free_page (snd (pmm_alloc n t)) = 0
      \<and> max_pages (snd (pmm_alloc n t)) = max_pages t \<and> free_run (snd (pmm_alloc n t)) = free_run t"
    if t: "pmm_wf t" "fst (pmm_alloc n t) = 0" for t :: "'a pmm_state_scheme"
  proof (cases "first_fit t (unat n) (last_free_page t) (max_pages t)")
    case (Some b)
    then have b: "b + unat n \<le> max_pages t" "free_run t (unat n) b" using first_fit_Some by blast+
    then have "b \<noteq> 0" using t(1) n by (auto simp: free_run_def pmm_wf_def)
    moreover have "b < 2 ^ 20" using b n t(1) by (simp add: pmm_wf_def)
    ultimately have "page_address b \<noteq> 0" using unat_page_address [of b] by auto
    then show ?thesis using t(2) Some assms(1) by (simp add: pmm_alloc_eq)
  next
    case None
    show ?thesis
    proof (cases "if last_free_page t > 0 then first_fit t (unat n) 0 (last_free_page t) else None")
      case (Some b)
      then have b: "b + unat n \<le> last_free_page t" "free_run t (unat n) b"
        using first_fit_Some by (fastforce split: if_splits)+
      then have "b \<noteq> 0" "b < 2 ^ 20" using t(1) n by (auto simp: free_run_def pmm_wf_def)
      then have "page_address b \<noteq> 0" using unat_page_address [of b] by auto
      then show ?thesis using t(2) None Some assms(1) by (simp add: pmm_alloc_eq)
    next
      case none: None
      then show ?thesis using None assms(1) by (simp add: pmm_alloc_eq none Let_def)
    qed
  qed
  let ?t = "snd (pmm_alloc n s)"
  have 1: "last_free_page ?t = 0" "max_pages ?t = max_pages s" "free_run ?t = free_run s"
    using fails [OF assms(3,2)] by blast+
  have "first_fit ?t (unat n) 0 (max_pages s) = None"
    using fails [OF pmm_alloc_wf [OF assms(3)] assms(4)] 1 by metis
  then show ?thesis using 1(3) by (simp add: first_fit_None)
qed

end
