(* ===== verification/Pmm_Init.thy ===== *)
theory Pmm_Init
  imports Pmm_Spec
begin

text \<open>
  What \<open>pmm_init\<close> makes of the E820 map: which pages end up free. The map is read from
  memory again in every loop, so the lemmas first say that the bitmap does not lie on it.
\<close>

section \<open>Reading the map\<close>

definition usable :: "memory \<Rightarrow> nat \<Rightarrow> bool" where
  "usable m i \<longleftrightarrow> e_type (e820_at m i) = 1"

text \<open>The whole pages \<open>pmm_init\<close> counts into entry \<open>i\<close>.\<close>

definition region_pages :: "memory \<Rightarrow> nat \<Rightarrow> nat set" where
  "region_pages m i =
     (let e = e820_at m i; b = unat (base_low e) div PAGE_SIZE
      in {b..<b + unat (length_low e) div PAGE_SIZE})"

definition max_end :: "memory \<Rightarrow> nat \<Rightarrow> nat" where
  "max_end m k = fold (\<lambda>i a. if usable m i then max a (unat (region_end (e820_at m i))) else a) [0..<k] 0"

text \<open>The addresses the map occupies: its count and its entries.\<close>

definition map_area :: "memory \<Rightarrow> u32 set" where
  "map_area m = region MMAPCOUNT 2 \<union> region MMAPADDR (20 * e820_count m)"

lemma e820_at_cong:
  assumes "\<forall>x \<in> region (MMAPADDR + of_nat (i * 20)) 20. m' x = m x"
  shows "e820_at m' i = e820_at m i"
proof -
  let ?a = "MMAPADDR + of_nat (i * 20)"
  have "m' (?a + of_nat k) = m (?a + of_nat k)" if "k < 20" for k
    using assms that by blast
  from this [of 0] this [of 1] this [of 2] this [of 3] this [of 4] this [of 5] this [of 6]
    this [of 7] this [of 8] this [of 9] this [of 10] this [of 11] this [of 12] this [of 13]
    this [of 14] this [of 15] this [of 16] this [of 17] this [of 18] this [of 19]
  show ?thesis by (simp add: e820_at_def ld32_def Let_def add.assoc)
qed

lemma map_unchanged:
  assumes "\<forall>x \<in> map_area m. m' x = m x"
  shows "e820_count m' = e820_count m" and "i < e820_count m \<Longrightarrow> e820_at m' i = e820_at m i"
proof -
  have "MMAPCOUNT + of_nat 0 \<in> region MMAPCOUNT 2" "MMAPCOUNT + of_nat 1 \<in> region MMAPCOUNT 2"
    by (rule region_memberI; simp)+
  then have "m' MMAPCOUNT = m MMAPCOUNT" "m' (MMAPCOUNT + 1) = m (MMAPCOUNT + 1)"
    using assms by (simp_all add: map_area_def)
  then show "e820_count m' = e820_count m" by (simp add: e820_count_def ld16_def)
next
  assume "i < e820_count m"
  then have "i * 20 + 20 \<le> 20 * e820_count m" by simp
  then have "region (MMAPADDR + of_nat (i * 20)) 20 \<subseteq> map_area m"
    using region_offset [of MMAPADDR "i * 20" 20] region_mono unfolding map_area_def by blast
  then show "e820_at m' i = e820_at m i" using assms by (intro e820_at_cong) blast
qed

section \<open>Marking\<close>

lemma free_region_state [simp]:
  "bitmap (free_region i s) = bitmap s" "bitmap_size (free_region i s) = bitmap_size s"
  "max_pages (free_region i s) = max_pages s" "last_free_page (free_region i s) = last_free_page s"
  "con (free_region i s) = con s" "stuck (free_region i s) = stuck s"
  by (simp_all add: free_region_def Let_def)

lemma free_region_used:
  assumes "max_pages s \<le> 2 ^ 35" and "p < max_pages s"
  shows "BITMAP_TEST (free_region i s) p \<longleftrightarrow>
    BITMAP_TEST s p \<and> \<not> (usable (mem s) i \<and> p \<in> region_pages (mem s) i)"
  using assms
  by (auto simp: free_region_def Let_def usable_def region_pages_def BITMAP_TEST_clear_range)

lemma free_region_outside [frame]:
  "x \<notin> region (bitmap s) k \<Longrightarrow> max_pages s \<le> 8 * k \<Longrightarrow> mem (free_region i s) x = mem s x"
  by (simp add: free_region_def Let_def clear_range_mem_outside)

text \<open>
  The loop over the map, as long as the bitmap lies off it: it changes bitmap bytes only and
  frees exactly the pages of the usable entries.
\<close>

definition off_map :: "'a pmm_state_scheme \<Rightarrow> bool" where
  "off_map s \<longleftrightarrow> max_pages s \<le> 8 * bitmap_size s \<and> max_pages s \<le> 2 ^ 20
     \<and> map_area (mem s) \<inter> region (bitmap s) (bitmap_size s) = {}"

definition same_fields :: "'a pmm_state_scheme \<Rightarrow> 'a pmm_state_scheme \<Rightarrow> bool" where
  "same_fields s t \<longleftrightarrow> bitmap t = bitmap s \<and> bitmap_size t = bitmap_size s
     \<and> max_pages t = max_pages s \<and> last_free_page t = last_free_page s \<and> con t = con s
     \<and> stuck t = stuck s
     \<and> (\<forall>x. x \<notin> region (bitmap s) (bitmap_size s) \<longrightarrow> mem t x = mem s x)"

lemma off_map_same:
  assumes "off_map s" and "same_fields s t"
  shows "e820_count (mem t) = e820_count (mem s)"
    and "i < e820_count (mem s) \<Longrightarrow> e820_at (mem t) i = e820_at (mem s) i"
  using assms map_unchanged [of "mem s" "mem t"]
  by (auto simp: off_map_def same_fields_def disjoint_iff)

lemma free_regions:
  assumes off: "off_map s" and k: "k \<le> e820_count (mem s)"
  shows "same_fields s (fold free_region [0..<k] s) \<and>
    (\<forall>p < max_pages s. BITMAP_TEST (fold free_region [0..<k] s) p \<longleftrightarrow>
      BITMAP_TEST s p \<and> \<not> (\<exists>i < k. usable (mem s) i \<and> p \<in> region_pages (mem s) i))"
  using k
proof (induction k)
  case (Suc k)
  let ?t = "fold free_region [0..<k] s"
  have IH: "same_fields s ?t" "\<forall>p < max_pages s. BITMAP_TEST ?t p \<longleftrightarrow>
      BITMAP_TEST s p \<and> \<not> (\<exists>i < k. usable (mem s) i \<and> p \<in> region_pages (mem s) i)"
    using Suc by auto
  have map: "e820_at (mem ?t) k = e820_at (mem s) k"
    using off_map_same(2) [OF off IH(1)] Suc.prems by simp
  have "same_fields s (free_region k ?t)"
    using IH(1) off free_region_outside [of _ ?t "bitmap_size s" k]
    by (auto simp: same_fields_def off_map_def)
  moreover have "BITMAP_TEST (free_region k ?t) p \<longleftrightarrow> BITMAP_TEST s p \<and>
      \<not> (\<exists>i < Suc k. usable (mem s) i \<and> p \<in> region_pages (mem s) i)" if "p < max_pages s" for p
  proof -
    have "max_pages ?t \<le> 2 ^ 35" "p < max_pages ?t"
      using IH(1) off that by (auto simp: same_fields_def off_map_def)
    then show ?thesis using IH(2) that map
      by (auto simp: free_region_used usable_def region_pages_def less_Suc_eq)
  qed
  ultimately show ?case by simp
qed (simp add: same_fields_def)

lemma fill_bitmap:
  fixes s :: "'a pmm_state_scheme"
  defines "t \<equiv> fold (\<lambda>i s. s\<lparr>mem := (mem s)(bitmap s + of_nat i := 0xFF)\<rparr>) [0..<bitmap_size s] s"
  assumes "bitmap_size s \<le> 2 ^ 32"
  shows "same_fields s t" and "p < 8 * bitmap_size s \<Longrightarrow> BITMAP_TEST t p"
proof -
  have fold_eq: "fold (\<lambda>i s. s\<lparr>mem := (mem s)(bitmap s + of_nat i := 0xFF)\<rparr>) [0..<k] s
      = s\<lparr>mem := fold (\<lambda>i m. m(bitmap s + of_nat i := 0xFF)) [0..<k] (mem s)\<rparr>" for k
    by (induction k) (simp_all cong: if_cong)
  then have t: "t = s\<lparr>mem := fold (\<lambda>i m. m(bitmap s + of_nat i := 0xFF)) [0..<bitmap_size s] (mem s)\<rparr>"
    by (simp add: t_def)
  then show "same_fields s t" by (simp add: same_fields_def fold_write_outside)
  assume "p < 8 * bitmap_size s"
  then have "p div 8 < bitmap_size s" by simp
  then have "mem t (bitmap_at t p) = 0xFF"
    using assms(2) by (simp add: t bitmap_at_def fold_write_inside)
  moreover have "bit (0xFF :: u8) (p mod 8)"
  proof -
    have ones: "(0xFF :: u8) = - 1" by simp
    have "bit (- 1 :: u8) (p mod 8)" by simp
    then show ?thesis by (simp only: ones)
  qed
  ultimately show "BITMAP_TEST t p" by (simp add: BITMAP_TEST_iff)
qed

text \<open>The pages of the bitmap, as \<open>pmm_init\<close> counts them.\<close>

definition bitmap_pages :: "'a pmm_state_scheme \<Rightarrow> nat set" where
  "bitmap_pages s =
     (let b = unat (bitmap s) div PAGE_SIZE
      in {b..<b + (bitmap_size s + (PAGE_SIZE - 1)) div PAGE_SIZE})"

lemma ceil_page: "n div PAGE_SIZE + (if n mod PAGE_SIZE \<noteq> 0 then 1 else 0) = (n + (PAGE_SIZE - 1)) div PAGE_SIZE"
proof (cases "n mod 4096 = 0")
  case False
  then have "(n mod 4096 + 4095) div 4096 = 1" by (intro div_nat_eqI) simp_all
  with False show ?thesis by (simp add: PAGE_SIZE_def div_add1_eq [of n 4095])
qed (simp add: PAGE_SIZE_def div_add1_eq [of n 4095])

lemma reserve_bitmap_used:
  assumes "bitmap_size s \<le> 2 ^ 18" and "p < 2 ^ 20"
  shows "BITMAP_TEST (reserve_bitmap s) p \<longleftrightarrow> p \<in> bitmap_pages s \<or> BITMAP_TEST s p"
    and "max_pages (reserve_bitmap s) = max_pages s"
    and "last_free_page (reserve_bitmap s) = last_free_page s"
    and "stuck (reserve_bitmap s) = stuck s"
    and "bitmap (reserve_bitmap s) = bitmap s" and "bitmap_size (reserve_bitmap s) = bitmap_size s"
proof -
  let ?b = "unat (bitmap s) div PAGE_SIZE" and ?n = "(bitmap_size s + (PAGE_SIZE - 1)) div PAGE_SIZE"
  have r: "reserve_bitmap s = set_range ?b ?n s"
    unfolding reserve_bitmap_def Let_def V2P_id ceil_page ..
  have "unat (bitmap s) div 4096 \<le> 2 ^ 20" 
    using div_le_mono [OF unat_u32_less(2) [of "bitmap s"], of 4096] by simp
  then have "?b + ?n \<le> 2 ^ 35" using assms(1) by (simp add: PAGE_SIZE_def)
  then show "BITMAP_TEST (reserve_bitmap s) p \<longleftrightarrow> p \<in> bitmap_pages s \<or> BITMAP_TEST s p"
    using assms(2) by (auto simp: r BITMAP_TEST_set_range bitmap_pages_def Let_def)
qed (simp_all add: reserve_bitmap_def Let_def)

lemma pmm_mark_used:
  assumes off: "off_map s" and size: "bitmap_size s \<le> 2 ^ 18"
  shows "p < max_pages s \<Longrightarrow> BITMAP_TEST (pmm_mark s) p \<longleftrightarrow> p = 0 \<or> p \<in> bitmap_pages s
    \<or> \<not> (\<exists>i < e820_count (mem s). usable (mem s) i \<and> p \<in> region_pages (mem s) i)"
    and "max_pages (pmm_mark s) = max_pages s" "last_free_page (pmm_mark s) = last_free_page s"
    and "stuck (pmm_mark s) = stuck s" "bitmap (pmm_mark s) = bitmap s"
    and "bitmap_size (pmm_mark s) = bitmap_size s"
proof -
  define t where "t = fold (\<lambda>i s. s\<lparr>mem := (mem s)(bitmap s + of_nat i := 0xFF)\<rparr>) [0..<bitmap_size s] s"
  have "bitmap_size s \<le> 2 ^ 32" using size by simp
  note t = fill_bitmap [OF this, folded t_def]
  have count: "e820_count (mem t) = e820_count (mem s)"
    and entry: "i < e820_count (mem s) \<Longrightarrow> e820_at (mem t) i = e820_at (mem s) i" for i
    using off_map_same [OF off t(1)] by auto
  have "map_area (mem t) = map_area (mem s)" by (simp add: map_area_def count)
  then have off_t: "off_map t" using off t(1) by (simp add: off_map_def same_fields_def)
  define u where "u = fold free_region [0..<e820_count (mem t)] t"
  note u = free_regions [OF off_t order_refl, folded u_def]
  have mark: "pmm_mark s = BITMAP_SET 0 (reserve_bitmap u)"
    by (simp add: pmm_mark_def Let_def t_def u_def)
  have fields: "bitmap u = bitmap s" "bitmap_size u = bitmap_size s" "max_pages u = max_pages s"
      "last_free_page u = last_free_page s" "stuck u = stuck s"
    using u t(1) by (auto simp: same_fields_def)
  show "BITMAP_TEST (pmm_mark s) p \<longleftrightarrow> p = 0 \<or> p \<in> bitmap_pages s
    \<or> \<not> (\<exists>i < e820_count (mem s). usable (mem s) i \<and> p \<in> region_pages (mem s) i)"
    if p: "p < max_pages s"
  proof -
    have "p < 8 * bitmap_size s" "p < 2 ^ 20" using p off by (auto simp: off_map_def)
    then show ?thesis using u t fields p size count entry
    by (auto simp: mark reserve_bitmap_used usable_def region_pages_def bitmap_pages_def same_fields_def)
  qed
  show "max_pages (pmm_mark s) = max_pages s" "last_free_page (pmm_mark s) = last_free_page s"
    "stuck (pmm_mark s) = stuck s" "bitmap (pmm_mark s) = bitmap s"
    "bitmap_size (pmm_mark s) = bitmap_size s"
    using fields by (simp_all add: mark reserve_bitmap_def Let_def)
qed

section \<open>pmm_init\<close>

lemma printf_ok_usable: "printf_fails (''  - %x - %x (usable)'' @ [NL]) [VWord a, VWord b] = False"
  using length_fmt_x [of a] length_fmt_x [of b]
  by (simp add: printf_fails_def vformat_def format_run)

lemma printf_ok_size:
  "printf_fails (''[pmm] max_addr: %x, bitmap_size: %x bytes'' @ [NL]) [VWord a, VWord b, VWord c] = False"
  using length_fmt_x [of a] length_fmt_x [of b]
  by (simp add: printf_fails_def vformat_def format_run)

lemma printf_ok_done: "printf_fails (''[pmm] initialised, bitmap @ %x'' @ [NL]) [VWord a] = False"
  using length_fmt_x [of a] by (simp add: printf_fails_def vformat_def format_run)

lemmas printf_ok = printf_ok_usable [simplified] printf_ok_size [simplified]
  printf_ok_done [simplified]

lemma max_addr_loop:
  "\<exists>c. fold max_addr_step [0..<k] (0, s) = (max_end (mem s) k, s\<lparr>con := c\<rparr>)"
proof (induction k)
  case 0
  show ?case by (rule exI [of _ "con s"]) (simp add: max_end_def)
next
  case (Suc k)
  then obtain c where c: "fold max_addr_step [0..<k] (0, s) = (max_end (mem s) k, s\<lparr>con := c\<rparr>)" by blast
  have "\<exists>c'. max_addr_step k (a, s\<lparr>con := c\<rparr>)
      = (if usable (mem s) k then max a (unat (region_end (e820_at (mem s) k))) else a, s\<lparr>con := c'\<rparr>)" for a
    by (auto simp: max_addr_step_def Let_def usable_def io_state printf_ok max_def)
  then show ?case using c by (simp add: max_end_def)
qed

lemma max_end_less: "max_end m k < 2 ^ 32"
  by (induction k) (auto simp: max_end_def)

text \<open>Where the bitmap goes: above 1 MiB if some usable entry there is long enough.\<close>

definition bitmap_bytes :: "nat \<Rightarrow> nat" where
  "bitmap_bytes n = n div 8 + (if n mod 8 \<noteq> 0 then 1 else 0)"

definition place_in :: "memory \<Rightarrow> nat \<Rightarrow> nat option" where
  "place_in m need =
     (let fits = (\<lambda>ok i. usable m i \<and> need \<le> unat (length_low (e820_at m i)) \<and> ok (base_low (e820_at m i)))
      in case List.find (fits (\<lambda>b. 0x100000 \<le> b)) [0..<e820_count m] of
           Some i \<Rightarrow> Some i
         | None \<Rightarrow> List.find (fits (\<lambda>b. 0 < b)) [0..<e820_count m])"

lemma pmm_init_obtain:
  fixes s :: "'a pmm_state_scheme"
  defines "n \<equiv> max_end (mem s) (e820_count (mem s)) div PAGE_SIZE"
  assumes "max_end (mem s) (e820_count (mem s)) \<noteq> 0" and "place_in (mem s) (bitmap_bytes n) = Some i"
  obtains t c where "pmm_init s = (pmm_mark t)\<lparr>con := c\<rparr>" "mem t = mem s" "max_pages t = n"
    "bitmap_size t = bitmap_bytes n" "bitmap t = base_low (e820_at (mem s) i)"
    "last_free_page t = last_free_page s" "stuck t = stuck s"
proof -
  let ?s0 = "tty_out (''[pmm] memory map:'' @ [NL]) s"
  obtain c where c: "fold max_addr_step [0..<e820_count (mem s)] (0, ?s0)
      = (max_end (mem s) (e820_count (mem s)), ?s0\<lparr>con := c\<rparr>)"
    using max_addr_loop [of "e820_count (mem s)" ?s0] by auto
  let ?s1 = "pmm_set_size (max_end (mem s) (e820_count (mem s))) (?s0\<lparr>con := c\<rparr>)"
  let ?m = "max_end (mem s) (e820_count (mem s))"
  define s2 where "s2 = snd (printf (''[pmm] max_addr: %x, bitmap_size: %x bytes'' @ [NL])
                  [VWord (of_nat ?m), VWord (of_nat (?m div 2 ^ 32)),
                   VWord (of_nat (bitmap_size ?s1))] ?s1)"
  have s2: "mem s2 = mem s" "max_pages s2 = n" "bitmap_size s2 = bitmap_bytes n"
      "last_free_page s2 = last_free_page s" "stuck s2 = stuck s"
    by (simp_all add: s2_def io_state printf_ok pmm_set_size_def Let_def n_def bitmap_bytes_def)
  have place: "(case bitmap_place s2 (\<lambda>base. base \<ge> 0x100000) of
        Some i \<Rightarrow> Some i | None \<Rightarrow> bitmap_place s2 (\<lambda>base. base > 0)) = Some i"
    using assms(3) unfolding bitmap_place_def by (simp add: place_in_def s2 usable_def Let_def cong: option.case_cong)
  let ?t = "s2\<lparr>bitmap := P2V (base_low (e820_at (mem s2) i))\<rparr>"
  have "pmm_init s = snd (printf (''[pmm] initialised, bitmap @ %x'' @ [NL])
      [VWord (bitmap (pmm_mark ?t))] (pmm_mark ?t))"
    using assms(2) unfolding pmm_init_def Let_def
    by (simp only: tty_out_simps c prod.case if_False place option.case s2_def [symmetric])
  then obtain c' where "pmm_init s = (pmm_mark ?t)\<lparr>con := c'\<rparr>" by (auto simp: printf_state printf_ok)
  then show thesis by (rule that) (simp_all add: s2)
qed

text \<open>
  After a successful initialisation the allocator is in a well-formed state that manages the
  pages below the end of the highest usable entry, and a page is free exactly if it is not
  page 0, not a page of the bitmap, and in some usable entry.
\<close>

definition init_ok :: "memory \<Rightarrow> nat \<Rightarrow> bool" where
  "init_ok m i \<longleftrightarrow>
     (let n = max_end m (e820_count m) div PAGE_SIZE; b = unat (base_low (e820_at m i))
      in max_end m (e820_count m) \<noteq> 0 \<and> place_in m (bitmap_bytes n) = Some i
         \<and> 0x8000 + 20 * e820_count m \<le> b \<and> b + bitmap_bytes n \<le> 2 ^ 32)"

lemma init_ok_off_map:
  assumes "init_ok m i"
  shows "map_area m \<inter> region (base_low (e820_at m i)) (bitmap_bytes (max_end m (e820_count m) div PAGE_SIZE)) = {}"
    (is "_ \<inter> region ?b ?n = {}")
proof -
  have "region MMAPCOUNT 2 \<inter> region ?b ?n = {}"
    using assms by (intro regions_disjoint) (simp_all add: init_ok_def Let_def MMAPCOUNT_def)
  moreover have "region MMAPADDR (20 * e820_count m) \<inter> region ?b ?n = {}"
    using assms by (intro regions_disjoint) (simp_all add: init_ok_def Let_def MMAPADDR_def)
  ultimately show ?thesis by (auto simp: map_area_def)
qed

lemma bitmap_bytes_bounds: "n \<le> 8 * bitmap_bytes n" "n \<le> 2 ^ 20 \<Longrightarrow> bitmap_bytes n \<le> 2 ^ 18"
  by (auto simp: bitmap_bytes_def)

lemma pmm_init_used:
  fixes s :: "'a pmm_state_scheme"
  defines "n \<equiv> max_end (mem s) (e820_count (mem s)) div PAGE_SIZE"
  assumes ok: "init_ok (mem s) i"
  shows "max_pages (pmm_init s) = n" and "last_free_page (pmm_init s) = last_free_page s"
    and "stuck (pmm_init s) = stuck s"
    and "bitmap (pmm_init s) = base_low (e820_at (mem s) i)"
    and "p < n \<Longrightarrow> BITMAP_TEST (pmm_init s) p \<longleftrightarrow> p = 0 \<or> p \<in> bitmap_pages (pmm_init s)
      \<or> \<not> (\<exists>j < e820_count (mem s). usable (mem s) j \<and> p \<in> region_pages (mem s) j)"
    and "n \<le> 2 ^ 20"
    and "bitmap_size (pmm_init s) = bitmap_bytes n" and "BITMAP_TEST (pmm_init s) 0"
proof -
  show n: "n \<le> 2 ^ 20"
    using max_end_less [of "mem s" "e820_count (mem s)"] unfolding n_def PAGE_SIZE_def by simp
  obtain t c where t: "pmm_init s = (pmm_mark t)\<lparr>con := c\<rparr>" "mem t = mem s" "max_pages t = n"
    "bitmap_size t = bitmap_bytes n" "bitmap t = base_low (e820_at (mem s) i)"
    "last_free_page t = last_free_page s" "stuck t = stuck s"
    using ok unfolding n_def init_ok_def Let_def by (elim conjE) (rule pmm_init_obtain)
  have off: "off_map t"
    using init_ok_off_map [OF ok] n t bitmap_bytes_bounds by (simp add: off_map_def n_def)
  have size: "bitmap_size t \<le> 2 ^ 18" using n t(4) bitmap_bytes_bounds(2) by simp
  have test: "BITMAP_TEST ((pmm_mark t)\<lparr>con := c\<rparr>) p = BITMAP_TEST (pmm_mark t) p" for p
    by (simp add: BITMAP_TEST_def bitmap_at_def)
  note mark = pmm_mark_used [OF off size]
  show "p < n \<Longrightarrow> BITMAP_TEST (pmm_init s) p \<longleftrightarrow> p = 0 \<or> p \<in> bitmap_pages (pmm_init s)
      \<or> \<not> (\<exists>j < e820_count (mem s). usable (mem s) j \<and> p \<in> region_pages (mem s) j)"
    using mark t by (simp add: test bitmap_pages_def)
  show "max_pages (pmm_init s) = n" "last_free_page (pmm_init s) = last_free_page s"
    "stuck (pmm_init s) = stuck s" "bitmap (pmm_init s) = base_low (e820_at (mem s) i)"
    "bitmap_size (pmm_init s) = bitmap_bytes n"
    using mark t by simp_all
  have "BITMAP_TEST (pmm_mark t) 0" by (simp add: pmm_mark_def Let_def)
  then show "BITMAP_TEST (pmm_init s) 0" by (simp add: t(1) test)
qed

text \<open>
  The bitmap's pages are counted from its size alone, so they cover it only if it starts on a
  page boundary, as the regions of real maps do.
\<close>

lemma bitmap_covered:
  assumes "unat (bitmap s) + bitmap_size s \<le> 2 ^ 32" and "unat (bitmap s) mod 4096 = 0"
    and "x \<in> region (bitmap s) (bitmap_size s)"
  shows "unat x div 4096 \<in> bitmap_pages s"
proof -
  have x: "unat (bitmap s) \<le> unat x" "unat x < unat (bitmap s) + bitmap_size s"
    using assms(1,3) by (auto simp: region_unat)
  define k where "k = unat x - unat (bitmap s)"
  obtain q where q: "unat (bitmap s) = 4096 * q" using assms(2) by (auto simp: mod_eq_0_iff_dvd dvd_def)
  have k: "k < bitmap_size s" "unat x = 4096 * q + k" using x q by (simp_all add: k_def)
  then have "unat x div 4096 = q + k div 4096" by simp
  moreover have "Suc (k div 4096) \<le> (bitmap_size s + 4095) div 4096"
  proof -
    have "Suc (k div 4096) * 4096 \<le> k + 4096" by simp
    also have "\<dots> \<le> bitmap_size s + 4095" using k(1) by simp
    finally show ?thesis by (simp only: less_eq_div_iff_mult_less_eq zero_less_numeral)
  qed
  ultimately show ?thesis using q by (simp add: bitmap_pages_def PAGE_SIZE_def)
qed

lemma pmm_init_safe:
  assumes ok: "init_ok (mem s) i" and fresh: "last_free_page s = 0"
    and aligned: "unat (base_low (e820_at (mem s) i)) mod 4096 = 0"
  shows "pmm_wf (pmm_init s) \<and> metadata_safe (pmm_init s)"
proof -
  let ?n = "max_end (mem s) (e820_count (mem s)) div PAGE_SIZE"
  note used = pmm_init_used [OF ok]
  note size = used(7)
  have bound: "unat (bitmap (pmm_init s)) + bitmap_size (pmm_init s) \<le> 2 ^ 32"
    using ok used(4) size by (simp add: init_ok_def Let_def)
  have "metadata_safe (pmm_init s)"
    unfolding metadata_safe_def
  proof (intro conjI ballI impI)
    show "max_pages (pmm_init s) \<le> 8 * bitmap_size (pmm_init s)"
      using used(1) size bitmap_bytes_bounds(1) by simp
    fix x assume x: "x \<in> region (bitmap (pmm_init s)) (bitmap_size (pmm_init s))"
      and p: "unat x div 4096 < max_pages (pmm_init s)"
    then have "unat x div 4096 \<in> bitmap_pages (pmm_init s)"
      using bitmap_covered [OF bound _ x] aligned used(4) by simp
    then show "BITMAP_TEST (pmm_init s) (unat x div 4096)" using used(1,5) p by simp
  qed
  moreover have "pmm_wf (pmm_init s)"
    using used fresh by (simp add: pmm_wf_def)
  ultimately show ?thesis by blast
qed

section \<open>RAM\<close>

text \<open>
  What the E820 map says, apart from what \<open>pmm_init\<close> makes of it: base and length are 64 bits wide,
  and type 1 is memory that may be used. A page is RAM if every byte of it is.
\<close>

definition ram_byte :: "memory \<Rightarrow> nat \<Rightarrow> bool" where
  "ram_byte m x \<longleftrightarrow> (\<exists>j < e820_count m.
     let e = e820_at m j;
         base = unat (base_low e) + 2 ^ 32 * unat (base_high e);
         len = unat (length_low e) + 2 ^ 32 * unat (length_high e)
     in e_type e = 1 \<and> base \<le> x \<and> x < base + len)"

definition page_ram :: "memory \<Rightarrow> nat \<Rightarrow> bool" where
  "page_ram m p \<longleftrightarrow> (\<forall>k < 4096. ram_byte m (4096 * p + k))"

text \<open>A map whose usable entries start on page boundaries, below 4 GiB.\<close>

definition plain_map :: "memory \<Rightarrow> bool" where
  "plain_map m \<longleftrightarrow> (\<forall>j < e820_count m. e_type (e820_at m j) = 1 \<longrightarrow>
     base_high (e820_at m j) = 0 \<and> unat (base_low (e820_at m j)) mod 4096 = 0)"

lemma region_pages_ram:
  assumes "plain_map m" and "j < e820_count m" and "usable m j" and "p \<in> region_pages m j"
  shows "page_ram m p"
proof -
  let ?e = "e820_at m j"
  have e: "e_type ?e = 1" "base_high ?e = 0" "unat (base_low ?e) mod 4096 = 0"
    using assms(1-3) by (simp_all add: plain_map_def usable_def)
  have "unat (base_low ?e) div 4096 \<le> p" "p < unat (base_low ?e) div 4096 + unat (length_low ?e) div 4096"
    using assms(4) by (simp_all add: region_pages_def Let_def PAGE_SIZE_def)
  moreover have "4096 * (unat (base_low ?e) div 4096) = unat (base_low ?e)"
    using e(3) by (metis add.right_neutral mult_div_mod_eq)
  moreover have "4096 * (unat (length_low ?e) div 4096) \<le> unat (length_low ?e)" by simp
  ultimately have "unat (base_low ?e) \<le> 4096 * p + k" "4096 * p + k < unat (base_low ?e) + unat (length_low ?e)" if "k < 4096" for k
    using that by linarith+
  then show ?thesis
    using assms(2) e(1,2) by (fastforce simp: page_ram_def ram_byte_def Let_def)
qed

lemma init_ok_usable: "init_ok m i \<Longrightarrow> i < e820_count m \<and> usable m i"
  by (auto simp: init_ok_def place_in_def Let_def find_Some_iff split: option.splits)

lemma init_ok_aligned: "init_ok m i \<Longrightarrow> plain_map m \<Longrightarrow> unat (base_low (e820_at m i)) mod 4096 = 0"
  using init_ok_usable [of m i] by (simp add: plain_map_def usable_def)

text \<open>
  The blocks of a run from \<open>pmm_init\<close>, or from a state \<open>q\<close> that has the allocator as \<open>pmm_init\<close> left it.
\<close>

lemma pmm_blocks_from:
  fixes q :: "'a pmm_state_scheme"
  assumes "init_ok (mem s) i" and "last_free_page s = 0" and "plain_map (mem s)"
    and "bitmap q = bitmap (pmm_init s)" and "bitmap_size q = bitmap_size (pmm_init s)" and "max_pages q = max_pages (pmm_init s)"
    and "pmm_wf q" and "metadata_safe q" and "\<forall>p < max_pages q. BITMAP_TEST q p = BITMAP_TEST (pmm_init s) p"
    and "pmm_layout_ok Y own" and "own \<inter> region (bitmap (pmm_init s)) (bitmap_size (pmm_init s)) = {}" and "pmm_run Y own q t L"
  shows "live_blocks (BITMAP_TEST t) (max_pages t) L
    \<and> (\<forall>b \<in> set L. \<forall>p \<in> block b. p \<notin> bitmap_pages q \<and> page_ram (mem s) p)"
proof (intro conjI ballI)
  note used = pmm_init_used [OF assms(1)]
  have "max_pages q \<le> 2 ^ 20" using assms(7) by (simp add: pmm_wf_def)
  then have "bitmap_bytes (max_pages q) \<le> 2 ^ 18" by (rule bitmap_bytes_bounds(2))
  then have own: "own_ok Y own q" using assms(4-6,10,11) used(1,7) by (simp add: own_ok_def)
  have inv: "run_inv q t L" by (rule pmm_run_invariant [OF assms(12,7,8) own])
  then show live: "live_blocks (BITMAP_TEST t) (max_pages t) L" unfolding run_inv_def by blast
  fix b p assume b: "b \<in> set L" "p \<in> block b"
  then have "p < max_pages q" "\<not> BITMAP_TEST q p" using inv live by (auto simp: run_inv_def accounted_def live_blocks_def subset_iff)
  then have p: "p < max_end (mem s) (e820_count (mem s)) div PAGE_SIZE" "\<not> BITMAP_TEST (pmm_init s) p"
    using assms(6,9) used(1) by simp_all
  from used(5) [OF p(1)] p(2) obtain j where "p \<notin> bitmap_pages (pmm_init s)" "j < e820_count (mem s)" "usable (mem s) j" "p \<in> region_pages (mem s) j"
    by blast
  then show "p \<notin> bitmap_pages q" "page_ram (mem s) p"
    using region_pages_ram [OF assms(3)] assms(4,5) by (auto simp: bitmap_pages_def)
qed

lemma pmm_blocks:
  assumes "init_ok (mem s) i" and "last_free_page s = 0" and "plain_map (mem s)"
  shows "pmm_layout_ok Y own \<Longrightarrow> own \<inter> region (bitmap (pmm_init s)) (bitmap_size (pmm_init s)) = {} \<Longrightarrow> pmm_run Y own (pmm_init s) t L \<Longrightarrow>
    live_blocks (BITMAP_TEST t) (max_pages t) L \<and> (\<forall>b \<in> set L. \<forall>p \<in> block b. p \<notin> bitmap_pages (pmm_init s) \<and> page_ram (mem s) p)"
  using pmm_init_safe [OF assms(1,2) init_ok_aligned [OF assms(1,3)]]
  by (intro pmm_blocks_from [OF assms refl refl refl]) simp_all

end
