(* ===== verification/Pmm_Props.thy ===== *)
theory Pmm_Props
  imports Pmm_Init
begin

text \<open>
  The properties of the physical page allocator, and the boot-time state their hypotheses are
  checked on: an E820 map of one usable region of two pages at 1 MiB, the first of which takes
  the bitmap.
\<close>

section \<open>A boot-time state\<close>

definition boot_memory :: memory where
  "boot_memory = st16 MMAPCOUNT 1 (st32 0x8000 0x100000 (st32 0x8004 0 (st32 0x8008 0x2000
     (st32 0x800C 0 (st32 0x8010 1 (\<lambda>_. 0))))))"

definition boot_state :: pmm_state where
  "boot_state = \<lparr>mem = boot_memory, con = [], ports = [], ticks = 0, halted = False, stuck = False,
     bitmap = 0, bitmap_size = 0, max_pages = 0, last_free_page = 0\<rparr>"

lemma boot_map:
  "e820_count boot_memory = 1"
  "e820_at boot_memory 0 = \<lparr>base_low = 0x100000, base_high = 0, length_low = 0x2000, length_high = 0, e_type = 1\<rparr>"
  by (simp_all add: boot_memory_def e820_count_def e820_at_def ld16_def st16_def ld32_def st32_def
      MMAPCOUNT_def MMAPADDR_def)

lemma boot_init_ok: "init_ok (mem boot_state) 0"
  by (simp add: init_ok_def boot_state_def boot_map max_end_def usable_def region_end_def
      place_in_def bitmap_bytes_def PAGE_SIZE_def)

lemma boot_aligned: "unat (base_low (e820_at (mem boot_state) 0)) mod 4096 = 0"
  by (simp add: boot_state_def boot_map)

lemma boot_fresh: "last_free_page boot_state = 0"
  by (simp add: boot_state_def)

lemma boot_pages:
  "max_pages (pmm_init boot_state) = 258" "last_free_page (pmm_init boot_state) = 0"
  "p < 258 \<Longrightarrow> BITMAP_TEST (pmm_init boot_state) p \<longleftrightarrow> p \<noteq> 257"
proof -
  note used = pmm_init_used [OF boot_init_ok]
  have n: "max_end boot_memory 1 div PAGE_SIZE = 258"
    by (simp add: max_end_def boot_map usable_def region_end_def PAGE_SIZE_def)
  have b: "bitmap_pages (pmm_init boot_state) = {256}"
    using used(4,7) n by (auto simp: bitmap_pages_def boot_state_def boot_map bitmap_bytes_def PAGE_SIZE_def)
  show "max_pages (pmm_init boot_state) = 258" "last_free_page (pmm_init boot_state) = 0"
    using used(1,2) n by (simp_all add: boot_state_def boot_map)
  have "region_pages boot_memory 0 = {256..<258}" "usable boot_memory 0"
    by (simp_all add: region_pages_def boot_map PAGE_SIZE_def Let_def usable_def)
  then have "BITMAP_TEST (pmm_init boot_state) p \<longleftrightarrow> p = 0 \<or> p = 256 \<or> p \<notin> {256..<258}" if "p < 258"
    using used(5) [of p] that n b boot_map(1) by (simp add: boot_state_def)
  then show "p < 258 \<Longrightarrow> BITMAP_TEST (pmm_init boot_state) p \<longleftrightarrow> p \<noteq> 257" by auto
qed

lemma boot_alloc: "pmm_alloc 1 (pmm_init boot_state) = take_pages 257 1 (pmm_init boot_state)"
proof -
  have "first_fit (pmm_init boot_state) 1 0 258 = Some 257"
    by (auto simp: first_fit_def find_upt_Some free_run_def boot_pages(3))
  then show ?thesis by (simp add: pmm_alloc_eq boot_pages)
qed

lemma boot_alloc_address: "fst (pmm_alloc 1 (pmm_init boot_state)) = 0x101000"
  by (simp add: boot_alloc page_address_def PAGE_SIZE_def)

text \<open>The kernel's image from \<open>0x10000\<close> to \<open>0x20000\<close>, the allocator's variables at its end.\<close>

definition boot_vars :: pmm_layout where
  "boot_vars = \<lparr>at_bitmap = 0x1F000, at_bitmap_size = 0x1F004, at_max_pages = 0x1F008, at_last_free_page = 0x1F010\<rparr>"

lemma boot_layout: "pmm_layout_ok boot_vars (region 0x10000 0x10000)"
proof -
  have sub: "n + k \<le> 0x10000 \<Longrightarrow> region (0x10000 + of_nat n) k \<subseteq> region 0x10000 0x10000" for n k
    using region_offset [of "0x10000" n k] region_mono [of "n + k" "0x10000" "0x10000"] by blast
  have "region 0x1F000 4 \<inter> region 0x1F004 4 = {}" "region 0x1F000 4 \<inter> region 0x1F008 8 = {}" "region 0x1F000 4 \<inter> region 0x1F010 8 = {}"
    "region 0x1F004 4 \<inter> region 0x1F008 8 = {}" "region 0x1F004 4 \<inter> region 0x1F010 8 = {}" "region 0x1F008 8 \<inter> region 0x1F010 8 = {}"
    by (rule regions_disjoint; simp)+
  then show ?thesis
    using sub [of "0xF000" 4] sub [of "0xF004" 4] sub [of "0xF008" 8] sub [of "0xF010" 8]
    by (simp add: pmm_layout_ok_def boot_vars_def pmm_cells_def)
qed

lemma boot_own_off_bitmap: "region 0x10000 0x10000 \<inter> region (bitmap (pmm_init boot_state)) (bitmap_size (pmm_init boot_state)) = {}"
proof -
  have "max_end boot_memory 1 div PAGE_SIZE = 258"
    by (simp add: max_end_def boot_map usable_def region_end_def PAGE_SIZE_def)
  then have "bitmap (pmm_init boot_state) = 0x100000" "bitmap_size (pmm_init boot_state) = 33"
    using pmm_init_used(4,7) [OF boot_init_ok] by (simp_all add: boot_state_def boot_map bitmap_bytes_def)
  moreover have "region 0x10000 0x10000 \<inter> region 0x100000 33 = {}" by (rule regions_disjoint) simp_all
  ultimately show ?thesis by simp
qed

lemma boot_run:
  "pmm_run boot_vars (region 0x10000 0x10000) (pmm_init boot_state)
     (owner_write boot_vars 0x101FFF 0x5A (snd (pmm_alloc 1 (pmm_init boot_state)))) [(0x101000, 1)]"
proof -
  have "region 0x10000 0x10000 \<inter> region 0x101FFF 1 = {}" by (rule regions_disjoint) simp_all
  then have x: "0x101FFF \<notin> region 0x10000 0x10000" using region_memberI [of 0 1 "0x101FFF"] by auto
  have "pmm_run boot_vars (region 0x10000 0x10000) (pmm_init boot_state) (snd (pmm_alloc 1 (pmm_init boot_state))) [(0x101000, 1)]"
    using boot_alloc_address by (intro pmm_run.alloc [OF pmm_run.start]) (simp_all add: prod_eq_iff)
  then show ?thesis by (rule pmm_run.poke [OF _ _ _ x, where b = "(0x101000, 1)"]) (simp_all add: block_def)
qed

lemma boot_plain: "plain_map (mem boot_state)"
  by (simp add: plain_map_def boot_state_def boot_map)

lemma boot_wf: "pmm_wf (pmm_init boot_state)"
  using pmm_init_safe [OF boot_init_ok boot_fresh boot_aligned] by blast

section \<open>Properties\<close>

text \<open>
  C1: \<open>pmm_alloc\<close> (\<open>kernel/mm/pmm.c\<close>), with its 32-page word skipping, its two searches and
  its hint, is first fit: the lowest run of \<open>pages\<close> free pages from the hint to the end of
  memory, else the lowest run that ends before the hint, else 0; a request for 0 pages is 0
  and changes nothing, a failed one only resets the hint.
\<close>

theorem pmm_alloc_first_fit:
  "pmm_alloc pages s =
     (let n = unat pages in
      if pages = 0 then (0, s)
      else case first_fit s n (last_free_page s) (max_pages s) of
             Some b \<Rightarrow> take_pages b n s
           | None \<Rightarrow>
              (case (if last_free_page s > 0 then first_fit s n 0 (last_free_page s) else None) of
                 Some b \<Rightarrow> take_pages b n s
               | None \<Rightarrow> (0, s\<lparr>last_free_page := 0\<rparr>)))"
  by (rule pmm_alloc_eq)

text \<open>
  C2: from a boot with a usable map, after any sequence of \<open>pmm_alloc\<close>, \<open>pmm_free\<close> of live
  blocks and writes by owners into their blocks, the live blocks are non-null, inside the
  managed pages, pairwise disjoint and marked; every byte of every page of each is RAM in the E820
  map (an entry of type 1 holds it, in 64-bit arithmetic), and no page is one of the allocator's own
  bitmap. The map is one whose usable entries are below 4 GiB and start on page boundaries:
  \<open>pmm_init\<close> ignores the high words of the base and rounds it down. The owners are ones that do not
  write to the kernel's own memory \<open>own\<close>, which holds the allocator's variables: \<open>pmm_init\<close> does
  not reserve it, so a block may contain it.
\<close>

theorem pmm_blocks_safe:
  assumes "init_ok (mem s) i" and "last_free_page s = 0" and "plain_map (mem s)"
    and "pmm_layout_ok Y own" and "own \<inter> region (bitmap (pmm_init s)) (bitmap_size (pmm_init s)) = {}"
    and "pmm_run Y own (pmm_init s) t L"
  shows "live_blocks (BITMAP_TEST t) (max_pages t) L
    \<and> (\<forall>b \<in> set L. \<forall>p \<in> block b. p \<notin> bitmap_pages (pmm_init s) \<and> page_ram (mem s) p)"
  using pmm_blocks [OF assms(1-3)] assms(4-6) by blast

lemma pmm_blocks_safe_witness:
  "\<exists>t :: pmm_state. pmm_run boot_vars (region 0x10000 0x10000) (pmm_init boot_state) t [(0x101000, 1)]
    \<and> live_blocks (BITMAP_TEST t) (max_pages t) [(0x101000, 1)] \<and> page_ram boot_memory 257"
proof -
  have "257 \<in> block (0x101000, 1)" by (simp add: block_def)
  then show ?thesis
    using pmm_blocks_safe [OF boot_init_ok boot_fresh boot_plain boot_layout boot_own_off_bitmap boot_run] boot_run
    by (auto simp: boot_state_def)
qed

text \<open>
  C15: \<open>pmm_init\<close> leaves a well-formed allocator over the pages below the highest usable end,
  in which a page is free exactly if it is not page 0, not a page of the bitmap and inside some
  usable entry of the E820 map; the bitmap is at the base of the entry chosen for it.
\<close>

theorem pmm_init_pages:
  assumes "init_ok (mem s) i" and "last_free_page s = 0"
    and "unat (base_low (e820_at (mem s) i)) mod 4096 = 0"
  shows "pmm_wf (pmm_init s) \<and> metadata_safe (pmm_init s)
    \<and> max_pages (pmm_init s) = max_end (mem s) (e820_count (mem s)) div PAGE_SIZE
    \<and> bitmap (pmm_init s) = base_low (e820_at (mem s) i) \<and> stuck (pmm_init s) = stuck s
    \<and> (\<forall>p < max_pages (pmm_init s). BITMAP_TEST (pmm_init s) p \<longleftrightarrow>
         p = 0 \<or> p \<in> bitmap_pages (pmm_init s)
         \<or> \<not> (\<exists>j < e820_count (mem s). usable (mem s) j \<and> p \<in> region_pages (mem s) j))"
  using pmm_init_used [OF assms(1)] pmm_init_safe [OF assms] by simp

lemma pmm_init_pages_witness:
  "pmm_wf (pmm_init boot_state) \<and> max_pages (pmm_init boot_state) = 258
    \<and> bitmap (pmm_init boot_state) = 0x100000"
  using pmm_init_pages [OF boot_init_ok boot_fresh boot_aligned] boot_pages(1)
  by (simp add: boot_state_def boot_map)

text \<open>
  C16: freeing a block just allocated, with the count it was allocated with, gives every page
  its old state back.
\<close>

theorem pmm_free_undoes_alloc:
  assumes "pmm_wf s" and "pmm_alloc n s = (a, s')" and "a \<noteq> 0" and "p < max_pages s"
  shows "BITMAP_TEST (pmm_free a n s') p = BITMAP_TEST s p"
  using assms by (rule pmm.alloc_release)

lemma pmm_free_undoes_alloc_witness:
  "\<not> BITMAP_TEST (pmm_free 0x101000 1 (snd (pmm_alloc 1 (pmm_init boot_state)))) 257"
  using pmm_free_undoes_alloc [OF boot_wf, of 1 "0x101000" "snd (pmm_alloc 1 (pmm_init boot_state))" 257]
  by (simp add: prod_eq_iff boot_alloc_address boot_pages)

text \<open>
  C36: two failures in a row of the same request mean that no run of that many free pages
  exists anywhere. (One failure alone does not: the second search stops at the hint.)
\<close>

theorem pmm_alloc_exhausted:
  assumes "n \<noteq> 0" and "fst (pmm_alloc n s) = 0" and "pmm_wf s"
    and "fst (pmm_alloc n (snd (pmm_alloc n s))) = 0"
  shows "\<not> (\<exists>b. b + unat n \<le> max_pages s \<and> free_run s (unat n) b)"
  using assms by (rule pmm_alloc_fails)

lemma pmm_alloc_exhausted_witness:
  "\<not> (\<exists>b. b + 2 \<le> 258 \<and> free_run (pmm_init boot_state) 2 b)"
proof -
  have "\<not> free_run (pmm_init boot_state) 2 b" if "b + 2 \<le> 258" for b
    using boot_pages(3) [of b] that by (auto simp: free_run_def)
  then have "first_fit (pmm_init boot_state) 2 0 258 = None" by (simp add: first_fit_None)
  then have "pmm_alloc 2 (pmm_init boot_state) = (0, (pmm_init boot_state)\<lparr>last_free_page := 0\<rparr>)"
    and "pmm_alloc 2 ((pmm_init boot_state)\<lparr>last_free_page := 0\<rparr>)
      = (0, (pmm_init boot_state)\<lparr>last_free_page := 0\<rparr>)"
    by (simp_all add: pmm_alloc_eq boot_pages)
  then show ?thesis
    using pmm_alloc_exhausted [of 2 "pmm_init boot_state"] boot_wf by (simp add: boot_pages)
qed

end
