(* ===== verification/Paging.thy ===== *)
theory Paging
  imports Log
begin

text \<open>
  \<open>kernel/mm/paging.c\<close> (kept in the tree, left out of the default build): one page table that
  maps the first 4 MiB onto themselves. The two-level walk of the processor, which the code
  relies on, is written out as \<open>walk\<close>, so that the tables can be read the way the MMU reads
  them. \<open>cr0\<close> and \<open>cr3\<close> are the control registers the inline assembly writes.
\<close>

record paging_state = kernel +
  cr0 :: u32
  cr3 :: u32

definition pagedir :: u32 where "pagedir = 0x9C000"
definition ftb :: u32 where "ftb = 0x9D000"

definition paging_init :: "'a paging_state_scheme \<Rightarrow> 'a paging_state_scheme" where
  "paging_init s =
     (let m = mem s;
          m = fold (\<lambda>i m. st32 (ftb + of_nat (4 * i)) (of_nat (i * 0x1000) OR 3) m) [0..<1024] m;
          m = st32 pagedir (ftb OR 3) m;
          m = fold (\<lambda>i m. st32 (pagedir + of_nat (4 * i)) 0 m) [1..<1024] m
      in s\<lparr>mem := m, cr3 := pagedir, cr0 := cr0 s OR 0x80000000\<rparr>)"

text \<open>The walk: present bit, frame address, offset in the page.\<close>

definition walk :: "memory \<Rightarrow> u32 \<Rightarrow> u32 \<Rightarrow> u32 option" where
  "walk m dir va =
     (let pde = ld32 m (dir + of_nat (4 * unat (drop_bit 22 va))) in
      if \<not> bit pde 0 then None
      else
       (let pte = ld32 m ((pde AND NOT 0xFFF) + of_nat (4 * unat (drop_bit 12 va AND 0x3FF))) in
        if \<not> bit pte 0 then None else Some ((pte AND NOT 0xFFF) OR (va AND 0xFFF))))"

definition translate :: "'a paging_state_scheme \<Rightarrow> u32 \<Rightarrow> u32 option" where
  "translate s va = (if bit (cr0 s) 31 then walk (mem s) (cr3 s) va else Some va)"

lemma fold_cells:
  assumes "d + n \<le> 2 ^ 30" and "j < 2 ^ 30"
  shows "ld32 (fold (\<lambda>i m. st32 (p + of_nat (4 * (d + i))) (f i) m) [0..<n] m) (p + of_nat (4 * j))
    = (if d \<le> j \<and> j < d + n then f (j - d) else ld32 m (p + of_nat (4 * j)))"
  using assms(1)
proof (induction n)
  case (Suc n)
  let ?m = "fold (\<lambda>i m. st32 (p + of_nat (4 * (d + i))) (f i) m) [0..<n] m"
  have "ld32 (st32 (p + of_nat (4 * (d + n))) (f n) ?m) (p + of_nat (4 * j))
      = (if d + n = j then f n else ld32 ?m (p + of_nat (4 * j)))"
    using Suc.prems assms(2) by (intro ld32_st32_cell) simp_all
  moreover have "ld32 ?m (p + of_nat (4 * j))
      = (if d \<le> j \<and> j < d + n then f (j - d) else ld32 m (p + of_nat (4 * j)))"
    using Suc by simp
  ultimately show ?case by (auto simp del: of_nat_mult of_nat_add)
qed auto

text \<open>Both tables as one array of 2048 cells from \<open>pagedir\<close> on.\<close>

lemma ftb_cell: "ftb + of_nat (4 * i) = pagedir + of_nat (4 * (1024 + i))"
  by (simp add: ftb_def pagedir_def)

lemma paging_init_cells:
  assumes "j < 2048"
  shows "ld32 (mem (paging_init s)) (pagedir + of_nat (4 * j)) =
    (if j = 0 then ftb OR 3 else if j < 1024 then 0 else of_nat ((j - 1024) * 0x1000) OR 3)"
proof -
  define m1 where "m1 = fold (\<lambda>i m. st32 (ftb + of_nat (4 * i)) (of_nat (i * 0x1000) OR 3) m) [0..<1024] (mem s)"
  have m1: "ld32 m1 (pagedir + of_nat (4 * j)) = of_nat ((j - 1024) * 0x1000) OR 3" if "1024 \<le> j"
    unfolding m1_def ftb_cell using that assms by (subst fold_cells) auto
  define m2 where "m2 = st32 pagedir (ftb OR 3) m1"
  have m2: "ld32 m2 (pagedir + of_nat (4 * j)) =
      (if j = 0 then ftb OR 3 else ld32 m1 (pagedir + of_nat (4 * j)))"
    using ld32_st32_cell [of 0 j pagedir "ftb OR 3" m1] assms by (simp add: m2_def)
  have shift: "[1..<1024] = map (\<lambda>i. 1 + i) [0..<1023]"
    using map_add_upt [of 1 1023] by (simp add: add.commute)
  have mem: "mem (paging_init s) = fold (\<lambda>i m. st32 (pagedir + of_nat (4 * (1 + i))) 0 m) [0..<1023] m2"
    unfolding paging_init_def Let_def m1_def m2_def shift fold_map comp_def by simp
  show ?thesis unfolding mem using assms m1 m2 by (subst fold_cells) auto
qed

text \<open>
  The address the processor puts together from an entry of the table and the offset, bit by bit.
\<close>

lemma frame_bits:
  assumes "drop_bit 22 va = (0 :: u32)"
  shows "((push_bit 12 (drop_bit 12 va AND 0x3FF) OR 3) AND NOT 0xFFF) OR (va AND 0xFFF) = va"
proof (rule bit_word_eqI)
  fix n assume "n < LENGTH(32)"
  have high: "n < 22" if "bit va n"
  proof (rule ccontr)
    assume "\<not> n < 22"
    then have "bit (drop_bit 22 va) (n - 22)" using that by (simp add: bit_drop_bit_eq)
    then show False using assms by simp
  qed
  have mask: "mask 10 = (0x3FF :: u32)" "mask 12 = (0xFFF :: u32)" "mask 2 = (3 :: u32)"
    by (simp_all add: mask_eq_exp_minus_1)
  show "bit (((push_bit 12 (drop_bit 12 va AND 0x3FF) OR 3) AND NOT 0xFFF) OR (va AND 0xFFF)) n = bit va n"
    unfolding mask [symmetric]
    by (simp only: bit_simps bit_mask_iff bit_drop_bit_eq comp_apply possible_bit_word)
       (use high \<open>n < LENGTH(32)\<close> in auto)
qed

text \<open>
  C29: after \<open>paging_init\<close> the processor's translation is the identity on the first 4 MiB and faults
  on every other address, whatever memory held before.
\<close>

theorem paging_identity: "translate (paging_init s) va = (if unat va < 0x400000 then Some va else None)"
proof -
  have on: "bit (cr0 (paging_init s)) 31" "cr3 (paging_init s) = pagedir"
    by (simp_all add: paging_init_def Let_def bit_simps)
  have dir: "unat (drop_bit 22 va) = unat va div 0x400000"
    by (simp add: drop_bit_eq_div unat_div)
  then have dir_less: "unat (drop_bit 22 va) < 1024"
    using unat_u32_less(1) [of va] by (simp add: less_mult_imp_div_less)
  have pde: "ld32 (mem (paging_init s)) (pagedir + of_nat (4 * unat (drop_bit 22 va)))
      = (if unat (drop_bit 22 va) = 0 then ftb OR 3 else 0)"
    using dir_less by (subst paging_init_cells) auto
  show ?thesis
  proof (cases "unat va < 0x400000")
    case False
    then have "unat (drop_bit 22 va) \<noteq> 0" using dir by simp
    then show ?thesis using False pde by (simp add: translate_def on walk_def Let_def)
  next
    case True
    then have z: "drop_bit 22 va = 0" using dir by (simp add: word_unat_eq_iff)
    let ?i = "drop_bit 12 va AND 0x3FF :: u32"
    have i: "unat ?i < 1024"
      using word_and_le1 [of "drop_bit 12 va" "0x3FF"] by (simp add: word_le_nat_alt and.commute)
    have frame: "(ftb OR 3) AND NOT 0xFFF = ftb" by (simp add: ftb_def)
    have pte: "ld32 (mem (paging_init s)) (ftb + of_nat (4 * unat ?i)) = push_bit 12 ?i OR 3"
      unfolding ftb_cell using i by (subst paging_init_cells) (simp_all add: push_bit_eq_mult)
    have "bit (ftb OR 3) 0" "bit (push_bit 12 ?i OR 3 :: u32) 0" by (simp_all add: ftb_def bit_simps)
    then show ?thesis
      using True pde pte z frame_bits [OF z] by (simp add: translate_def on walk_def Let_def frame [simplified])
  qed
qed

end
