(* ===== verification/Lib_Misc.thy ===== *)
theory Lib_Misc
  imports Log
begin

text \<open>
  \<open>kernel/lib/rand.c\<close> and \<open>kernel/lib/time.c\<close>. The busy waits read the interrupt-driven counter
  \<open>ticks\<close> again and again; the values the successive reads see are the sequence \<open>obs\<close>, and a
  wait is the number of the read that ends it, \<open>None\<close> if none does.
\<close>

section \<open>rand.c\<close>

definition srand :: "u32 \<Rightarrow> u32" where
  "srand seed =
     (let seed = (seed XOR 61) XOR drop_bit 16 seed;
          seed = seed + push_bit 3 seed;
          seed = seed XOR drop_bit 4 seed
      in seed * 0x27d4eb2d)"

definition rand :: "'a kernel_scheme \<Rightarrow> u32" where
  "rand s =
     (let seed = ticks s;
          seed = (seed XOR 61) XOR drop_bit 16 seed;
          seed = seed + push_bit 3 seed;
          seed = seed XOR drop_bit 4 seed
      in seed * 0x27d4eb2d)"

text \<open>Each of the four steps can be undone.\<close>

lemma xor_shift_inj:
  assumes "a XOR drop_bit n a = b XOR drop_bit n (b :: u32)" and "0 < n"
  shows "a = b"
proof -
  let ?d = "a XOR b"
  have step: "?d = drop_bit n ?d"
  proof (rule bit_word_eqI)
    fix k assume "k < LENGTH(32)"
    have "bit (a XOR drop_bit n a) k = bit (b XOR drop_bit n b) k" using assms(1) by simp
    then show "bit ?d k = bit (drop_bit n ?d) k" by (auto simp: bit_simps)
  qed
  have shifts: "?d = drop_bit (k * n) ?d" for k
  proof (induction k)
    case (Suc k)
    have "drop_bit (Suc k * n) ?d = drop_bit n (drop_bit (k * n) ?d)"
      by (simp add: add.commute)
    with Suc step show ?case by metis
  qed simp
  have "drop_bit (32 * n) ?d = 0"
    using assms(2) by (intro bit_word_eqI) (auto simp: bit_simps dest: bit_imp_le_length)
  then have "a XOR b = a XOR a" using shifts [of 32] by (metis xor_self_eq)
  then have "a XOR (a XOR b) = a XOR (a XOR a)" by (rule arg_cong)
  then have "b = a" by (simp add: xor.assoc [symmetric])
  then show ?thesis by (rule sym)
qed

lemma times_unit_inj:
  fixes a b c d :: u32
  assumes "c * d = 1"
  shows "a * c = b * c \<longleftrightarrow> a = b"
proof
  assume "a * c = b * c"
  then have "a * c * d = b * c * d" by (rule arg_cong)
  then show "a = b" by (simp only: mult.assoc assms mult_1_right)
qed (rule arg_cong)

lemma times_9_inj: "(a + push_bit 3 a = b + push_bit 3 (b :: u32)) \<longleftrightarrow> a = b"
proof -
  have "x + push_bit 3 x = x * 9" for x :: u32 by (simp add: push_bit_eq_mult)
  then show ?thesis using times_unit_inj [of 9 954437177 a b] by (simp add: mult.commute)
qed

lemma times_mix_inj: "(a * 0x27d4eb2d = b * (0x27d4eb2d :: u32)) \<longleftrightarrow> a = b"
  by (rule times_unit_inj [of _ 4218002597]) simp

lemma xor_left_inj: "(a XOR b = a XOR c) \<longleftrightarrow> b = (c :: u32)"
proof
  assume "a XOR b = a XOR c"
  then have "a XOR (a XOR b) = a XOR (a XOR c)" by (rule arg_cong)
  then show "b = c" by (simp only: xor.assoc [symmetric] xor_self_eq xor.left_neutral)
qed (rule arg_cong)

lemma srand_inject: "srand a = srand b \<longleftrightarrow> a = b"
proof
  assume "srand a = srand b"
  then have "((a XOR 61) XOR drop_bit 16 a) + push_bit 3 ((a XOR 61) XOR drop_bit 16 a)
      = ((b XOR 61) XOR drop_bit 16 b) + push_bit 3 ((b XOR 61) XOR drop_bit 16 b)"
    unfolding srand_def Let_def times_mix_inj by (rule xor_shift_inj) simp
  then have "61 XOR (a XOR drop_bit 16 a) = 61 XOR (b XOR drop_bit 16 b)"
    unfolding times_9_inj by (simp only: ac_simps)
  then have "a XOR drop_bit 16 a = b XOR drop_bit 16 b" by (simp only: xor_left_inj)
  then show "a = b" by (rule xor_shift_inj) simp
qed (rule arg_cong)

section \<open>time.c\<close>

partial_function (option) usleep_loop :: "(nat \<Rightarrow> u32) \<Rightarrow> nat \<Rightarrow> u32 \<Rightarrow> u32 \<Rightarrow> nat option" where
  [code]: "usleep_loop obs k init time =
     (if obs k - init < time then usleep_loop obs (Suc k) init time else Some k)"

definition usleep :: "(nat \<Rightarrow> u32) \<Rightarrow> u32 \<Rightarrow> nat option" where
  "usleep obs time = usleep_loop obs 1 (obs 0) time"

definition sleep :: "(nat \<Rightarrow> u32) \<Rightarrow> u32 \<Rightarrow> nat option" where
  "sleep obs time = usleep_loop obs 1 (obs 0) (time * 1000)"

lemma usleep_loop_at:
  assumes "j \<le> k" and "\<not> obs k - init < time" and "\<forall>i. j \<le> i \<and> i < k \<longrightarrow> obs i - init < time"
  shows "usleep_loop obs j init time = Some k"
  using assms
proof (induction "k - j" arbitrary: j)
  case 0
  then show ?case by (subst usleep_loop.simps) simp
next
  case (Suc n)
  then have "usleep_loop obs (Suc j) init time = Some k" by (intro Suc.hyps(1)) auto
  then show ?case using Suc by (subst usleep_loop.simps) auto
qed

text \<open>
  The real time \<open>t\<close> in milliseconds at each read, of which \<open>ticks\<close> shows the low 32 bits: it
  never goes back, it passes every bound, and no gap between reads is so long that the
  elapsed time wraps unseen.
\<close>

definition real_time :: "(nat \<Rightarrow> nat) \<Rightarrow> nat \<Rightarrow> bool" where
  "real_time t time \<longleftrightarrow> (\<forall>k. t k \<le> t (Suc k) \<and> t (Suc k) - t k \<le> 2 ^ 32 - time) \<and> (\<forall>b. \<exists>k. b \<le> t k)"

lemma ticks_elapsed:
  assumes "a \<le> b" and "b - a < 2 ^ 32"
  shows "unat (of_nat b - of_nat a :: u32) = b - a"
proof -
  have "(of_nat b - of_nat a :: u32) = of_nat (b - a)" using assms(1) by (simp add: of_nat_diff)
  then show ?thesis using assms(2) by (simp add: unat_of_nat_u32)
qed

text \<open>
  C30: \<open>usleep\<close> returns, and not before the time it was given has passed: it ends at the first
  reading of the counter that shows so, on any clock that goes on and is read often enough, the
  counter wrapping or not.
\<close>

theorem usleep_waits:
  assumes "real_time t (unat time)" and "0 < time"
  shows "\<exists>k. usleep (of_nat \<circ> t) time = Some k \<and> unat time \<le> t k - t 0
    \<and> (\<forall>i < k. t i - t 0 < unat time)"
proof -
  let ?late = "\<lambda>k. unat time \<le> t k - t 0"
  have mono: "t 0 \<le> t k" for k
    by (induction k) (use assms(1) in \<open>auto simp: real_time_def intro: le_trans\<close>)
  obtain k0 where "t 0 + unat time \<le> t k0" using assms(1) unfolding real_time_def by blast
  then have late: "?late k0" by linarith
  define k where "k = (LEAST k. ?late k)"
  have k: "?late k" "\<forall>i < k. \<not> ?late i"
    unfolding k_def using late by (rule LeastI) (auto dest: not_less_Least)
  have "0 < unat time" using assms(2) by (simp add: word_less_nat_alt)
  then have "k \<noteq> 0" using k(1) by (intro notI) simp
  then obtain j where j: "k = Suc j" by (cases k) auto
  have early: "unat (of_nat (t i) - of_nat (t 0) :: u32) = t i - t 0 \<and> t i - t 0 < unat time" if "i < k" for i
  proof -
    have "t i - t 0 < unat time" using k(2) that by auto
    moreover have "unat time < 2 ^ 32" using unat_u32_less by simp
    ultimately show ?thesis using ticks_elapsed [OF mono [of i]] by (metis less_trans)
  qed
  have "t j - t 0 < unat time" using early j by simp
  moreover have "t k - t j \<le> 4294967296 - unat time" using assms(1) j by (simp add: real_time_def)
  ultimately have "t k - t 0 < 4294967296"
    using mono [of j] unat_u32_less(1) [of time] by linarith
  then have "t k - t 0 < 2 ^ 32" by simp
  then have "unat (of_nat (t k) - of_nat (t 0) :: u32) = t k - t 0" by (intro ticks_elapsed mono)
  then have "usleep_loop (of_nat \<circ> t) 1 (of_nat (t 0)) time = Some k"
    using k(1) early j by (intro usleep_loop_at) (auto simp: word_less_nat_alt)
  then show ?thesis using k by (auto simp: usleep_def)
qed

lemma usleep_waits_witness: "\<exists>k. usleep (of_nat \<circ> (\<lambda>k. 7 + 2 * k)) 5 = Some k \<and> 5 \<le> 2 * k"
proof -
  have "\<exists>k. b \<le> 7 + 2 * k" for b :: nat by (rule exI [of _ b]) simp
  then have "real_time (\<lambda>k. 7 + 2 * k) (unat (5 :: u32))" by (simp add: real_time_def)
  from usleep_waits [OF this] show ?thesis by auto
qed

end
