(* ===== verification/Lib_Props.thy ===== *)
theory Lib_Props
  imports Lib_IO
begin

text \<open>
  Properties of \<open>kernel/lib/string.c\<close> and \<open>kernel/lib/io.c\<close>: a sequence of calls of \<open>strtok\<close>
  against the fields of the text, and the numbers \<open>printf\<close> prints against the values they denote.
\<close>

section \<open>strtok, call after call\<close>

text \<open>At most \<open>n\<close> calls, the first on \<open>str\<close>, the others on \<open>NULL\<close>, until one returns \<open>NULL\<close>.\<close>

fun tokens ::
    "nat \<Rightarrow> nat option \<Rightarrow> string \<Rightarrow> string \<Rightarrow> nat option \<Rightarrow> (nat list \<times> string \<times> nat option) option" where
  "tokens 0 str buf delim next = Some ([], buf, next)"
| "tokens (Suc n) str buf delim next =
     (case strtok buf str delim next of
        None \<Rightarrow> None
      | Some (None, b, nx) \<Rightarrow> Some ([], b, nx)
      | Some (Some p, b, nx) \<Rightarrow> map_option (\<lambda>(ps, r). (p # ps, r)) (tokens n None b delim nx))"

text \<open>The reference: the fields of a text, one more than it has separators.\<close>

fun fields :: "string \<Rightarrow> string \<Rightarrow> string list" where
  "fields delim [] = [[]]"
| "fields delim (c # t) =
     (if c \<in> set delim then [] # fields delim t
      else (case fields delim t of [] \<Rightarrow> [[c]] | f # fs \<Rightarrow> (c # f) # fs))"

lemma fields_single: "set t \<inter> set delim = {} \<Longrightarrow> fields delim t = [t]"
  by (induction t) auto

lemma fields_first: "set t \<inter> set delim = {} \<Longrightarrow> d \<in> set delim \<Longrightarrow> fields delim (t @ d # r) = t # fields delim r"
  by (induction t) auto

lemma set_token: "set (token delim t) \<inter> set (cstr delim) = {}"
proof -
  have "c \<notin> set (cstr delim)" if "c \<in> set (token delim t)" for c
    using token_not_delim [OF that] by (simp add: is_delim_def)
  then show ?thesis by blast
qed

lemma cstr_plain: "NUL \<notin> set t \<Longrightarrow> cstr (t @ r) = t @ cstr r"
  by (induction t) auto

lemma strtok_at:
  assumes "terminated delim" and "is_delim delim d"
  shows "strtok (pre @ token delim t @ d # r) None delim (Some (length pre))
    = (if d = NUL then Some (Some (length pre), pre @ token delim t @ d # r, None)
       else Some (Some (length pre), pre @ token delim t @ NUL # r, Some (Suc (length pre + length (token delim t)))))"
proof -
  let ?b = "pre @ token delim t @ d # r" and ?e = "length pre + length (token delim t)"
  have "\<not> is_delim delim (?b ! j)" if "length pre \<le> j" "j < ?e" for j
  proof -
    have k: "j - length pre < length (token delim t)" using that by linarith
    then have "?b ! j = token delim t ! (j - length pre)" using that(1) by (simp add: nth_append)
    then show ?thesis using token_not_delim [OF nth_mem [OF k]] by simp
  qed
  then have "tok_end ?b delim (length pre) = Some ?e"
    using assms by (intro tok_end_eq) (simp_all add: nth_append)
  then show ?thesis by (simp add: strtok_def nth_append list_update_append)
qed

lemma tokens_fields:
  assumes "terminated rest" and "terminated delim" and "length (cstr rest) < n"
  shows "\<exists>ps rest'. tokens n None (pre @ rest) delim (Some (length pre)) = Some (ps, pre @ rest', None)
    \<and> map (\<lambda>p. cstr (drop p (pre @ rest'))) ps = fields (cstr delim) (cstr rest)"
  using assms(1,3)
proof (induction n arbitrary: pre rest)
  case (Suc n)
  let ?t = "token delim rest"
  obtain d r where split: "rest = ?t @ d # r" and d: "is_delim delim d"
    using token_split [OF Suc.prems(1)] by blast
  note at = strtok_at [OF assms(2) d, of pre rest r, folded split]
  show ?case
  proof (cases "d = NUL")
    case True
    then have "cstr rest = ?t" using split NUL_notin_token cstr_append_NUL by metis
    moreover have "tokens (Suc n) None (pre @ rest) delim (Some (length pre)) = Some ([length pre], pre @ rest, None)"
      using at True by (cases n) (simp_all add: strtok_def)
    ultimately show ?thesis using fields_single [OF set_token] by (intro exI [of _ "[length pre]"] exI [of _ rest]) simp
  next
    case False
    let ?pre = "pre @ ?t @ [NUL]"
    have "cstr (?t @ d # r) = ?t @ d # cstr r" using False by (simp add: cstr_plain NUL_notin_token)
    then have whole: "cstr rest = ?t @ d # cstr r" by (simp only: split [symmetric])
    have "terminated (?t @ d # r)" by (simp only: split [symmetric] Suc.prems(1))
    then have r: "terminated r" using False NUL_notin_token [of delim rest] by (simp add: terminated_def [of "?t"])
    have "length (cstr r) < n" using Suc.prems(2) whole by simp
    from Suc.IH [OF r this, of ?pre] obtain ps r' where
      ps: "tokens n None (?pre @ r) delim (Some (length ?pre)) = Some (ps, ?pre @ r', None)"
        "map (\<lambda>p. cstr (drop p (?pre @ r'))) ps = fields (cstr delim) (cstr r)" by blast
    have "tokens (Suc n) None (pre @ rest) delim (Some (length pre)) = Some (length pre # ps, pre @ ?t @ NUL # r', None)"
      using at False ps(1) by simp
    moreover have "fields (cstr delim) (cstr rest) = ?t # fields (cstr delim) (cstr r)"
      unfolding whole using set_token d False by (intro fields_first) (auto simp: is_delim_def)
    ultimately show ?thesis using ps(2)
      by (intro exI [of _ "length pre # ps"] exI [of _ "?t @ NUL # r'"]) (simp add: cstr_token)
  qed
qed simp

section \<open>The digits of a number\<close>

lemma set_numeral_of: "c \<in> set (numeral_of b n) \<Longrightarrow> 2 \<le> b \<Longrightarrow> \<exists>d < b. c = digit d"
proof (induction b n rule: numeral_of.induct)
  case (1 b n)
  show ?case
  proof (cases "n < b")
    case True
    then have "c = digit n" using 1(2) by (subst (asm) numeral_of.simps) simp
    with True show ?thesis by (intro exI [of _ n]) simp
  next
    case False
    then consider "c \<in> set (numeral_of b (n div b))" | "c = digit (n mod b)"
      using 1(2,3) by (subst (asm) numeral_of.simps) auto
    then show ?thesis
    proof cases
      case 2
      with 1(3) show ?thesis by (intro exI [of _ "n mod b"]) simp
    qed (use 1(1,3) False in simp)
  qed
qed

lemma digit_visible:
  assumes "d < 36"
  shows "digit d \<noteq> NUL"
proof -
  have "(of_char (digit d) :: nat) \<noteq> 0" using assms by (simp add: digit_def)
  then show ?thesis by auto
qed

lemma NUL_notin_numeral:
  assumes "2 \<le> b" and "b \<le> 36"
  shows "NUL \<notin> set (numeral_of b n)"
proof
  assume "NUL \<in> set (numeral_of b n)"
  then obtain d where "d < b" "NUL = digit d" using set_numeral_of assms(1) by blast
  then show False using digit_visible [of d] assms(2) by simp
qed

section \<open>Properties\<close>

text \<open>
  C31: calling \<open>strtok\<close> on an array and then on \<open>NULL\<close> until it returns \<open>NULL\<close> goes through the
  fields of its text, in order and without missing an empty one: the pointers it returned still
  point to them in the array it leaves, and no later call finds more.
\<close>

theorem strtok_fields:
  assumes "terminated buf" and "terminated delim" and "length (cstr buf) < n"
  shows "\<exists>ps b. tokens n (Some 0) buf delim next = Some (ps, b, None)
    \<and> map (\<lambda>p. cstr (drop p b)) ps = fields (cstr delim) (cstr buf)"
proof -
  obtain m where n: "n = Suc m" using assms(3) by (cases n) auto
  have "strtok buf (Some 0) delim next = strtok buf None delim (Some 0)" by (simp add: strtok_def)
  then have "tokens n (Some 0) buf delim next = tokens n None buf delim (Some 0)" by (simp add: n)
  then show ?thesis using tokens_fields [OF assms, of "[]"] by auto
qed

lemma strtok_fields_witness:
  "\<exists>ps b. tokens 12 (Some 0) (''cat  notes'' @ [NUL]) ('' '' @ [NUL]) None = Some (ps, b, None)
    \<and> map (\<lambda>p. cstr (drop p b)) ps = [''cat'', [], ''notes'']"
  using strtok_fields [of "''cat  notes'' @ [NUL]" "'' '' @ [NUL]" 12 None] by simp

text \<open>
  C32: what \<open>printf\<close> prints for \<open>%d\<close> and \<open>%x\<close> denotes the argument: the sign and the decimal
  digits of the signed value for any 32-bit word, \<open>INT_MIN\<close> included, the hexadecimal digits of
  the unsigned one, neither longer than its temporary array; \<open>atoi\<close> reads back what \<open>%d\<close>
  prints for a number that is not negative (it knows neither a sign nor hexadecimal digits).
\<close>

theorem printf_numbers:
  "\<exists>d x. con (snd (printf ''%d %x'' [VWord m, VWord n] s)) = con s @ map Out (d @ '' '' @ x)
    \<and> (if sint m < 0 then \<exists>u. d = CHR ''-'' # u \<and> int (numeral_value 10 u) = - sint m
       else int (numeral_value 10 d) = sint m \<and> atoi (d @ [NUL]) = Some m)
    \<and> numeral_value 16 x = unat n \<and> length d \<le> 11 \<and> length x \<le> 8
    \<and> stuck (snd (printf ''%d %x'' [VWord m, VWord n] s)) = stuck s"
proof -
  have run: "format_loop ''%d %x'' [VWord m, VWord n] = Inr (fmt_d m @ '' '' @ fmt_x n)"
    by (simp add: format_run)
  have short: "length (fmt_d m @ '' '' @ fmt_x n) < 1024" using length_fmt_d [of m] length_fmt_x [of n] by simp
  have "NUL \<notin> set (fmt_d m @ '' '' @ fmt_x n)" by (simp add: fmt_d_eq fmt_x_eq NUL_notin_numeral)
  then have "printf ''%d %x'' [VWord m, VWord n] s = (0, tty_out (fmt_d m @ '' '' @ fmt_x n) s)"
    using run short by (simp add: printf_def vformat_def puts_def cstr_plain)
  moreover have "if sint m < 0 then \<exists>u. fmt_d m = CHR ''-'' # u \<and> int (numeral_value 10 u) = - sint m
       else int (numeral_value 10 (fmt_d m)) = sint m \<and> atoi (fmt_d m @ [NUL]) = Some m"
    by (simp add: fmt_d_eq [of m] numeral_value_of) (use atoi_fmt_d [of m "[]"] in \<open>simp add: fmt_d_eq\<close>)
  moreover have "numeral_value 16 (fmt_x n) = unat n" by (simp add: fmt_x_eq numeral_value_of)
  ultimately show ?thesis using length_fmt_d [of m] length_fmt_x [of n]
    by (intro exI [of _ "fmt_d m"] exI [of _ "fmt_x n"]) simp
qed

end
