(* ===== verification/E820.thy ===== *)
theory E820
  imports Pmm
begin

text \<open>\<open>kernel/mm/lmm.c\<close>: \<open>mmp\<close> prints the E820 map.\<close>

definition types :: "string list" where
  "types = [''Unknown'', ''RAM'', ''Reserved'', ''ACPI Reclaim'', ''ACPI NVS'', ''Bad RAM'']"

text \<open>\<open>for (s = 28; s >= 0; s -= 4) tty_putc(digits[(w >> s) & 0xF])\<close>\<close>

definition puts_hex :: "u32 \<Rightarrow> 'a kernel_scheme \<Rightarrow> 'a kernel_scheme" where
  "puts_hex w s =
     fold (\<lambda>k. tty_out [''0123456789ABCDEF'' ! unat (drop_bit k w AND 0xF)])
       [28, 24, 20, 16, 12, 8, 4, 0] s"

definition mmp_entry :: "nat \<Rightarrow> 'a kernel_scheme \<Rightarrow> 'a kernel_scheme" where
  "mmp_entry i s =
     (let e = e820_at (mem s) i;
          t = (ucast (e_type e) :: u8);
          s = klog [char_of (48 + i mod 10)] s;
          s = tty_out '': base=0x'' s;
          s = puts_hex (base_low e) s;
          s = tty_out '' len=0x'' s;
          s = puts_hex (length_low e) s;
          s = tty_out '' type='' s;
          s = tty_out (if t < 6 then types ! unat t else ''Unknown'') s
      in tty_out [NL] s)"

definition mmp :: "'a kernel_scheme \<Rightarrow> 'a kernel_scheme" where
  "mmp s = fold mmp_entry [0..<e820_count (mem s)] (klog (''E820 Memory Map:'' @ [NL]) s)"

text \<open>The eight digits are the ones \<open>puthex\<close> prints.\<close>

definition hex8 :: "u32 \<Rightarrow> string" where
  "hex8 w = map (\<lambda>i. upper_digit (unat w div 16 ^ i mod 16)) (rev [0..<8])"

lemma unat_nibble: "unat (drop_bit (4 * i) w AND 15 :: u32) = unat w div 16 ^ i mod 16"
  by (simp add: unat_and_15 unat_drop_bit_eq) (simp add: drop_bit_eq_div power_mult)

lemma puts_hex_eq: "puts_hex w s = tty_out (hex8 w) s"
proof -
  have "[28, 24, 20, 16, 12, 8, 4, 0] = map (\<lambda>i :: nat. 4 * i) (rev [0..<8])"
    by code_simp
  then have "puts_hex w s =
      fold (\<lambda>i. tty_out [upper_digit (unat w div 16 ^ i mod 16)]) (rev [0..<8]) s"
    unfolding puts_hex_def by (simp only: fold_map comp_def unat_nibble upper_digit_def)
  also have "\<dots> = tty_out (hex8 w) s"
  proof -
    have "fold (\<lambda>i. tty_out [f i]) xs s = tty_out (map f xs) s" for f :: "nat \<Rightarrow> char" and xs
      by (induction xs arbitrary: s) (simp_all add: tty_out_def)
    then show ?thesis by (simp add: hex8_def)
  qed
  finally show ?thesis .
qed

definition type_name :: "u32 \<Rightarrow> string" where
  "type_name t = (if unat t mod 256 < 6 then types ! (unat t mod 256) else ''Unknown'')"

definition mmp_line :: "nat \<Rightarrow> e820_entry \<Rightarrow> nat \<Rightarrow> string" where
  "mmp_line now e i = stamp now @ [digit (i mod 10)] @ '': base=0x'' @ hex8 (base_low e)
     @ '' len=0x'' @ hex8 (length_low e) @ '' type='' @ type_name (e_type e) @ [NL]"

lemma type_name_eq:
  "(if (ucast t :: u8) < 6 then types ! unat (ucast t :: u8) else ''Unknown'') = type_name t" for t :: u32
proof -
  have "unat (ucast t :: u8) = unat t mod 256" by (simp add: unsigned_ucast_eq take_bit_eq_mod)
  then show ?thesis by (simp add: type_name_def word_less_nat_alt)
qed

lemma mmp_entry_eq:
  "mmp_entry i s = tty_out (mmp_line (unat (ticks s)) (e820_at (mem s) i) i) s"
  unfolding mmp_entry_def Let_def type_name_eq
  by (simp add: klog_eq puts_hex_eq mmp_line_def digit_def)

lemma mmp_entries:
  "fold mmp_entry [0..<n] s =
     tty_out (concat (map (\<lambda>i. mmp_line (unat (ticks s)) (e820_at (mem s) i) i) [0..<n])) s"
  by (induction n) (simp_all add: mmp_entry_eq)

lemma mmp_eq:
  "mmp s = tty_out (stamp (unat (ticks s)) @ (''E820 Memory Map:'' @ [NL])
     @ concat (map (\<lambda>i. mmp_line (unat (ticks s)) (e820_at (mem s) i) i) [0..<e820_count (mem s)])) s"
  unfolding mmp_def klog_eq mmp_entries by (simp only: tty_out_simps append_assoc)

end
