(* ===== verification/Framebuffer.thy ===== *)
theory Framebuffer
  imports Lib_Base
begin

text \<open>
  \<open>kernel/drivers/fb.c\<close>, the linear framebuffer: the mode information the boot loader left in
  memory, filling the screen, one pixel, a rectangle. (\<open>fblogo\<close> is with the file system.)
  Pixels are bytes of flat memory. The proofs say that every store stays inside the
  framebuffer and that pixels do not disturb each other.
\<close>

record fb_state = kernel +
  fb_addr :: u32
  fb_width :: u32
  fb_height :: u32
  fb_pitch :: u32
  fb_bpp :: u8

definition fb_init :: "u32 \<Rightarrow> 'a fb_state_scheme \<Rightarrow> 'a fb_state_scheme" where
  "fb_init vbe s =
     (if vbe = 0 then s
      else
       (let w = ld16 (mem s) (vbe + 0x12);
            h = ld16 (mem s) (vbe + 0x14);
            p = ld16 (mem s) (vbe + 0x10);
            bpp = mem s (vbe + 0x19);
            phys = ld32 (mem s) (vbe + 0x28)
        in if w = 0 \<or> h = 0 then s
           else
            (let bpp = (if bpp = 0 then 32 else bpp);
                 p = (if p = 0 then ucast ((ucast w :: u32) * ucast (bpp div 8)) else p)
             in s\<lparr>fb_addr := phys, fb_width := ucast w, fb_height := ucast h, fb_pitch := ucast p, fb_bpp := bpp\<rparr>)))"

definition rgb565 :: "u8 \<Rightarrow> u8 \<Rightarrow> u8 \<Rightarrow> u16" where
  "rgb565 r g b =
     push_bit 8 (ucast (b AND 0xF8)) OR push_bit 3 (ucast (g AND 0xFC)) OR ucast (drop_bit 3 r)"

definition fb_putpixel :: "u32 \<Rightarrow> u32 \<Rightarrow> u32 \<Rightarrow> 'a fb_state_scheme \<Rightarrow> 'a fb_state_scheme" where
  "fb_putpixel x y c s =
     (if fb_addr s = 0 then s
      else if x \<ge> fb_width s \<or> y \<ge> fb_height s then s
      else
       (let row = fb_addr s + y * fb_pitch s;
            bpp_bytes = fb_bpp s div 8
        in if bpp_bytes = 4 then s\<lparr>mem := st32 (row + x * 4) c (mem s)\<rparr>
           else if bpp_bytes = 3 then
             (let px = row + x * 3
              in s\<lparr>mem := (mem s)(px := byte_n c 0, px + 1 := byte_n c 1, px + 2 := byte_n c 2)\<rparr>)
           else if bpp_bytes = 2 then
             s\<lparr>mem := st16 (row + x * 2) (rgb565 (byte_n c 2) (byte_n c 1) (byte_n c 0)) (mem s)\<rparr>
           else s\<lparr>mem := (mem s)(row + x := byte_n c 0)\<rparr>))"

text \<open>One row of \<open>fb_fill\<close>; the depth is tested once per row, not per pixel.\<close>

definition fb_fill_row :: "u32 \<Rightarrow> u32 \<Rightarrow> 'a fb_state_scheme \<Rightarrow> 'a fb_state_scheme" where
  "fb_fill_row y color s =
     (let row = fb_addr s + y * fb_pitch s;
          xs = map of_nat [0..<unat (fb_width s)];
          bpp_bytes = fb_bpp s div 8
      in if bpp_bytes = 4 then
           fold (\<lambda>x s. s\<lparr>mem := st32 (row + x * 4) color (mem s)\<rparr>) xs s
         else if bpp_bytes = 3 then
           fold (\<lambda>x s. let px = row + x * 3
             in s\<lparr>mem := (mem s)(px := byte_n color 0, px + 1 := byte_n color 1, px + 2 := byte_n color 2)\<rparr>) xs s
         else if bpp_bytes = 2 then
           (let c16 = rgb565 (byte_n color 2) (byte_n color 1) (byte_n color 0)
            in fold (\<lambda>x s. s\<lparr>mem := st16 (row + x * 2) c16 (mem s)\<rparr>) xs s)
         else fold (\<lambda>x s. s\<lparr>mem := (mem s)(row + x := byte_n color 0)\<rparr>) xs s)"

definition fb_fill :: "u32 \<Rightarrow> 'a fb_state_scheme \<Rightarrow> 'a fb_state_scheme" where
  "fb_fill color s =
     (if fb_addr s = 0 then s
      else fold (\<lambda>y. fb_fill_row y color) (map of_nat [0..<unat (fb_height s)]) s)"

definition fb_rect :: "u32 \<Rightarrow> u32 \<Rightarrow> u32 \<Rightarrow> u32 \<Rightarrow> u32 \<Rightarrow> 'a fb_state_scheme \<Rightarrow> 'a fb_state_scheme" where
  "fb_rect x1 y1 x2 y2 colour s =
     fold (\<lambda>i. fold (\<lambda>j. fb_putpixel (x1 + of_nat i) (y1 + of_nat j) colour) [0..<unat (y2 - y1)])
       [0..<unat (x2 - x1)] s"

section \<open>A pixel is a run of bytes\<close>

definition depth :: "'a fb_state_scheme \<Rightarrow> nat" where
  "depth s = (let n = unat (fb_bpp s div 8) in if n \<in> {2, 3, 4} then n else 1)"

definition pixel_bytes :: "nat \<Rightarrow> u32 \<Rightarrow> u8 list" where
  "pixel_bytes n c =
     (if n = 4 then [byte_n c 0, byte_n c 1, byte_n c 2, byte_n c 3]
      else if n = 3 then [byte_n c 0, byte_n c 1, byte_n c 2]
      else if n = 2 then (let v = rgb565 (byte_n c 2) (byte_n c 1) (byte_n c 0) in [byte_n v 0, byte_n v 1])
      else [byte_n c 0])"

definition pixel_at :: "'a fb_state_scheme \<Rightarrow> u32 \<Rightarrow> u32 \<Rightarrow> u32" where
  "pixel_at s x y = fb_addr s + y * fb_pitch s + x * of_nat (depth s)"

definition on_screen :: "'a fb_state_scheme \<Rightarrow> u32 \<Rightarrow> u32 \<Rightarrow> bool" where
  "on_screen s x y \<longleftrightarrow> fb_addr s \<noteq> 0 \<and> x < fb_width s \<and> y < fb_height s"

definition pixel :: "'a fb_state_scheme \<Rightarrow> u32 \<Rightarrow> u32 \<Rightarrow> u8 list" where
  "pixel s x y = peek (mem s) (pixel_at s x y) (depth s)"

lemma length_pixel_bytes [simp]: "length (pixel_bytes (depth s) c) = depth s"
  by (auto simp: pixel_bytes_def depth_def Let_def)

lemma depth_bounds: "0 < depth s" "depth s \<le> 4"
  by (auto simp: depth_def Let_def)

lemma depth_cases:
  "fb_bpp s div 8 = 4 \<Longrightarrow> depth s = 4" "fb_bpp s div 8 = 3 \<Longrightarrow> depth s = 3"
  "fb_bpp s div 8 = 2 \<Longrightarrow> depth s = 2"
  "fb_bpp s div 8 \<noteq> 4 \<Longrightarrow> fb_bpp s div 8 \<noteq> 3 \<Longrightarrow> fb_bpp s div 8 \<noteq> 2 \<Longrightarrow> depth s = 1"
proof -
  show "fb_bpp s div 8 = 4 \<Longrightarrow> depth s = 4" "fb_bpp s div 8 = 3 \<Longrightarrow> depth s = 3"
    "fb_bpp s div 8 = 2 \<Longrightarrow> depth s = 2" by (simp_all add: depth_def Let_def)
  have "unat (fb_bpp s div 8) = n \<Longrightarrow> fb_bpp s div 8 = of_nat n" for n by auto
  from this [of 2] this [of 3] this [of 4]
  show "fb_bpp s div 8 \<noteq> 4 \<Longrightarrow> fb_bpp s div 8 \<noteq> 3 \<Longrightarrow> fb_bpp s div 8 \<noteq> 2 \<Longrightarrow> depth s = 1"
    by (auto simp: depth_def Let_def)
qed

lemma poke_words:
  "st32 a c m = poke a (pixel_bytes 4 c) m"
  "m(a := byte_n c 0, a + 1 := byte_n c 1, a + 2 := byte_n c 2) = poke a (pixel_bytes 3 c) m"
  "st16 a (rgb565 (byte_n c 2) (byte_n c 1) (byte_n c 0)) m = poke a (pixel_bytes 2 c) m"
  "m(a := byte_n c 0) = poke a (pixel_bytes 1 c) m"
  by (simp_all add: poke_def pixel_bytes_def st32_def st16_def Let_def upt_rec_numeral)

lemma fb_putpixel_eq:
  "fb_putpixel x y c s =
     (if on_screen s x y then s\<lparr>mem := poke (pixel_at s x y) (pixel_bytes (depth s) c) (mem s)\<rparr> else s)"
  unfolding fb_putpixel_def Let_def poke_words(1,2,3)
  unfolding poke_words(4)
  using depth_cases [of s] by (auto simp: on_screen_def pixel_at_def simp flip: not_less)

text \<open>Filling is putting every pixel, row by row.\<close>

definition fb_of :: "'a fb_state_scheme \<Rightarrow> u32 \<times> u32 \<times> u32 \<times> u32 \<times> u8" where
  "fb_of s = (fb_addr s, fb_width s, fb_height s, fb_pitch s, fb_bpp s)"

lemma fb_of_mem [simp]: "fb_of (mem_update f s) = fb_of s"
  by (simp add: fb_of_def)

lemma fb_of_putpixel [simp]: "fb_of (fb_putpixel x y c s) = fb_of s"
  by (simp add: fb_putpixel_eq)

lemma fb_of_eqD:
  "fb_of t = fb_of s \<Longrightarrow> fb_addr t = fb_addr s \<and> fb_width t = fb_width s \<and> fb_height t = fb_height s
     \<and> fb_pitch t = fb_pitch s \<and> fb_bpp t = fb_bpp s \<and> depth t = depth s
     \<and> on_screen t = on_screen s \<and> pixel_at t = pixel_at s"
  by (simp add: fb_of_def depth_def on_screen_def pixel_at_def fun_eq_iff)

lemma fb_fill_row_eq:
  assumes "fb_addr s \<noteq> 0" and "y < fb_height s"
  shows "fb_fill_row y c s = fold (\<lambda>x. fb_putpixel x y c) (map of_nat [0..<unat (fb_width s)]) s"
proof -
  let ?xs = "map of_nat [0..<unat (fb_width s)] :: u32 list"
  have x: "x \<in> set ?xs \<Longrightarrow> x < fb_width s" for x
    by (auto simp: word_less_nat_alt unat_of_nat_u32 less_trans [OF _ unat_u32_less(1)])
  have row: "fold (\<lambda>x t. t\<lparr>mem := poke (fb_addr s + y * fb_pitch s + x * of_nat (depth s)) (pixel_bytes (depth s) c) (mem t)\<rparr>) ?xs s
      = fold (\<lambda>x. fb_putpixel x y c) ?xs s"
  proof (rule fold_congruent [where P = "\<lambda>t. fb_of t = fb_of s", THEN conjunct1])
    fix x :: u32 and t :: "'a fb_state_scheme" assume "x \<in> set ?xs" "fb_of t = fb_of s"
    then show "t\<lparr>mem := poke (fb_addr s + y * fb_pitch s + x * of_nat (depth s)) (pixel_bytes (depth s) c) (mem t)\<rparr>
        = fb_putpixel x y c t \<and> fb_of (fb_putpixel x y c t) = fb_of s"
      using x [of x] assms fb_of_eqD [of t s] by (simp add: fb_putpixel_eq on_screen_def pixel_at_def)
  qed simp
  show ?thesis
    unfolding row [symmetric] fb_fill_row_def Let_def poke_words(1,2,3)
    unfolding poke_words(4)
    using depth_cases [of s] by auto
qed

lemma fb_fill_eq:
  assumes "fb_addr s \<noteq> 0"
  shows "fb_fill c s = fold (\<lambda>y. fold (\<lambda>x. fb_putpixel x y c) (map of_nat [0..<unat (fb_width s)]))
      (map of_nat [0..<unat (fb_height s)]) s"
proof -
  let ?ys = "map of_nat [0..<unat (fb_height s)] :: u32 list"
  have y: "y \<in> set ?ys \<Longrightarrow> y < fb_height s" for y
    by (auto simp: word_less_nat_alt unat_of_nat_u32 less_trans [OF _ unat_u32_less(1)])
  have keep: "fb_of (fold (\<lambda>x. fb_putpixel x y c) xs t) = fb_of t" for y xs and t :: "'a fb_state_scheme"
    by (rule fold_frame) simp
  have "fold (\<lambda>y. fb_fill_row y c) ?ys s
      = fold (\<lambda>y. fold (\<lambda>x. fb_putpixel x y c) (map of_nat [0..<unat (fb_width s)])) ?ys s"
  proof (rule fold_congruent [where P = "\<lambda>t. fb_of t = fb_of s", THEN conjunct1])
    fix y :: u32 and t :: "'a fb_state_scheme" assume "y \<in> set ?ys" "fb_of t = fb_of s"
    then show "fb_fill_row y c t = fold (\<lambda>x. fb_putpixel x y c) (map of_nat [0..<unat (fb_width s)]) t
        \<and> fb_of (fold (\<lambda>x. fb_putpixel x y c) (map of_nat [0..<unat (fb_width s)]) t) = fb_of s"
      using y [of y] assms fb_of_eqD [of t s] by (simp add: fb_fill_row_eq keep)
  qed simp
  then show ?thesis using assms by (simp add: fb_fill_def)
qed

section \<open>Stores stay in the framebuffer and pixels are independent\<close>

definition fb_ok :: "'a fb_state_scheme \<Rightarrow> bool" where
  "fb_ok s \<longleftrightarrow> unat (fb_width s) * depth s \<le> unat (fb_pitch s)
     \<and> unat (fb_addr s) + unat (fb_pitch s) * unat (fb_height s) \<le> 2 ^ 32"

definition fb_region :: "'a fb_state_scheme \<Rightarrow> u32 set" where
  "fb_region s = region (fb_addr s) (unat (fb_pitch s) * unat (fb_height s))"

lemma fb_of_eqD2: "fb_of t = fb_of s \<Longrightarrow> fb_ok t = fb_ok s \<and> fb_region t = fb_region s"
  using fb_of_eqD [of t s] by (simp add: fb_ok_def fb_region_def)

lemma region_offsets_disjoint:
  "k + d \<le> k' \<Longrightarrow> k' + d' \<le> 2 ^ 32 \<Longrightarrow> region (a + of_nat k) d \<inter> region (a + of_nat k') d' = {}"
proof (rule ccontr)
  assume le: "k + d \<le> k'" "k' + d' \<le> 2 ^ 32"
    and "region (a + of_nat k) d \<inter> region (a + of_nat k') d' \<noteq> {}"
  then obtain i j where ij: "i < d" "j < d'" "a + of_nat k + of_nat i = a + of_nat k' + of_nat j"
    by (auto simp: region_def)
  then have eq: "a + of_nat (k + i) = a + of_nat (k' + j)" by (simp only: of_nat_add add.assoc)
  have "k + i < 2 ^ 32" "k' + j < 2 ^ 32" using le ij by linarith+
  with eq have "k + i = k' + j" using offset_eq_iff by blast
  then show False using le ij by linarith
qed

definition pixel_offset :: "'a fb_state_scheme \<Rightarrow> u32 \<Rightarrow> u32 \<Rightarrow> nat" where
  "pixel_offset s x y = unat y * unat (fb_pitch s) + unat x * depth s"

lemma pixel_at_offset: "pixel_at s x y = fb_addr s + of_nat (pixel_offset s x y)"
  by (simp add: pixel_at_def pixel_offset_def)

lemma pixel_in_row:
  assumes "fb_ok s" and "on_screen s x y"
  shows "pixel_offset s x y + depth s \<le> Suc (unat y) * unat (fb_pitch s)"
proof -
  have "Suc (unat x) * depth s \<le> unat (fb_width s) * depth s"
    using assms(2) by (intro mult_le_mono) (auto simp: on_screen_def word_less_nat_alt)
  then have "Suc (unat x) * depth s \<le> unat (fb_pitch s)" using assms(1) by (simp add: fb_ok_def)
  then show ?thesis by (simp add: pixel_offset_def)
qed

lemma pixel_in_fb:
  assumes "fb_ok s" and "on_screen s x y"
  shows "pixel_offset s x y + depth s \<le> unat (fb_pitch s) * unat (fb_height s)"
proof -
  have "Suc (unat y) * unat (fb_pitch s) \<le> unat (fb_height s) * unat (fb_pitch s)"
    using assms(2) by (intro mult_le_mono) (auto simp: on_screen_def word_less_nat_alt)
  then show ?thesis using pixel_in_row [OF assms] by (simp add: mult.commute)
qed

lemma pixel_region: "fb_ok s \<Longrightarrow> on_screen s x y \<Longrightarrow> region (pixel_at s x y) (depth s) \<subseteq> fb_region s"
  unfolding pixel_at_offset fb_region_def
  using region_offset region_mono [OF pixel_in_fb] by (metis (no_types) order_trans)

lemma pixels_disjoint:
  assumes ok: "fb_ok s" and on: "on_screen s x y" "on_screen s x' y'" and ne: "(x, y) \<noteq> (x', y')"
  shows "region (pixel_at s x y) (depth s) \<inter> region (pixel_at s x' y') (depth s) = {}"
proof -
  have apart: "region (pixel_at s x y) (depth s) \<inter> region (pixel_at s x' y') (depth s) = {}"
    if on: "on_screen s x y" "on_screen s x' y'" and lt: "y < y' \<or> y = y' \<and> x < x'" for x y x' y'
  proof -
    have "pixel_offset s x y + depth s \<le> pixel_offset s x' y'"
    proof (cases "y = y'")
      case True
      then have "Suc (unat x) * depth s \<le> unat x' * depth s"
        using lt by (intro mult_le_mono) (auto simp: word_less_nat_alt)
      then show ?thesis using True by (simp add: pixel_offset_def)
    next
      case False
      then have "Suc (unat y) * unat (fb_pitch s) \<le> unat y' * unat (fb_pitch s)"
        using lt by (intro mult_le_mono) (auto simp: word_less_nat_alt)
      then show ?thesis using pixel_in_row [OF ok on(1)] unfolding pixel_offset_def by linarith
    qed
    moreover have "pixel_offset s x' y' + depth s \<le> 2 ^ 32"
      using pixel_in_fb [OF ok on(2)] ok unfolding fb_ok_def by linarith
    ultimately show ?thesis unfolding pixel_at_offset by (intro region_offsets_disjoint)
  qed
  have "y < y' \<or> y = y' \<and> x < x' \<or> y' < y \<or> y' = y \<and> x' < x" using ne by auto
  then show ?thesis using apart on by (metis Int_commute)
qed

lemma fb_mem_update [simp]:
  "pixel_at (mem_update f s) = pixel_at s" "depth (mem_update f s) = depth s"
  "on_screen (mem_update f s) = on_screen s" "fb_ok (mem_update f s) = fb_ok s"
  "fb_region (mem_update f s) = fb_region s"
  by (simp_all add: pixel_at_def depth_def on_screen_def fb_ok_def fb_region_def fun_eq_iff)

lemma pixel_putpixel:
  assumes "fb_ok s" and "on_screen s x' y'"
  shows "pixel (fb_putpixel x y c s) x' y' =
    (if (x, y) = (x', y') then pixel_bytes (depth s) c else pixel s x' y')"
proof (cases "on_screen s x y")
  case True
  have len: "depth s \<le> 2 ^ 32" using depth_bounds(2) [of s] by simp
  have fb: "pixel_at (fb_putpixel x y c s) = pixel_at s" "depth (fb_putpixel x y c s) = depth s"
    using fb_of_eqD [OF fb_of_putpixel] by blast+
  show ?thesis
    using True pixels_disjoint [OF assms(1) True assms(2)] len
    by (auto simp: pixel_def fb fb_putpixel_eq peek_poke peek_poke_other Int_commute)
next
  case False
  then show ?thesis using assms(2) by (auto simp: fb_putpixel_eq)
qed

lemma fb_putpixel_frame [frame]:
  "fb_ok s \<Longrightarrow> a \<notin> fb_region s \<Longrightarrow> mem (fb_putpixel x y c s) a = mem s a"
  using pixel_region [of s x y] by (auto simp: fb_putpixel_eq intro!: poke_outside)

section \<open>Many pixels\<close>

definition plots :: "(u32 \<times> u32) list \<Rightarrow> u32 \<Rightarrow> 'a fb_state_scheme \<Rightarrow> 'a fb_state_scheme" where
  "plots ps c s = fold (\<lambda>(x, y). fb_putpixel x y c) ps s"

lemma plots_simps [simp]:
  "plots [] c s = s" "plots (p # ps) c s = plots ps c (fb_putpixel (fst p) (snd p) c s)"
  "plots (ps @ qs) c s = plots qs c (plots ps c s)"
  by (simp_all add: plots_def split: prod.split)

lemma fold_plots: "fold (\<lambda>x. fb_putpixel (f x) (g x) c) xs s = plots (map (\<lambda>x. (f x, g x)) xs) c s"
  by (induction xs arbitrary: s) simp_all

lemma fold_fold_plots:
  "fold (\<lambda>y. fold (\<lambda>x. fb_putpixel (f x y) (g x y) c) (xs y)) ys s
    = plots (concat (map (\<lambda>y. map (\<lambda>x. (f x y, g x y)) (xs y)) ys)) c s"
  by (induction ys arbitrary: s) (simp_all add: fold_plots)

lemma fb_of_plots [simp]: "fb_of (plots ps c s) = fb_of s"
  by (induction ps arbitrary: s) simp_all

lemma plots_pixel:
  "fb_ok s \<Longrightarrow> on_screen s x y \<Longrightarrow>
     pixel (plots ps c s) x y = (if (x, y) \<in> set ps then pixel_bytes (depth s) c else pixel s x y)"
proof (induction ps arbitrary: s)
  case (Cons p ps)
  let ?s = "fb_putpixel (fst p) (snd p) c s"
  have "fb_ok ?s" "on_screen ?s x y" "depth ?s = depth s"
    using Cons.prems fb_of_eqD [OF fb_of_putpixel, of "fst p" "snd p" c s]
      fb_of_eqD2 [OF fb_of_putpixel, of "fst p" "snd p" c s] by auto
  then show ?case
    using Cons.IH [of ?s] pixel_putpixel [OF Cons.prems, of "fst p" "snd p" c] by (cases p) auto
qed simp

lemma plots_frame [frame]: "fb_ok s \<Longrightarrow> a \<notin> fb_region s \<Longrightarrow> mem (plots ps c s) a = mem s a"
proof (induction ps arbitrary: s)
  case (Cons p ps)
  then show ?case
    using fb_of_eqD2 [OF fb_of_putpixel, of "fst p" "snd p" c s] by (simp add: fb_putpixel_frame)
qed simp

definition all_pixels :: "'a fb_state_scheme \<Rightarrow> (u32 \<times> u32) list" where
  "all_pixels s = concat (map (\<lambda>y. map (\<lambda>x. (x, y)) (map of_nat [0..<unat (fb_width s)]))
     (map of_nat [0..<unat (fb_height s)]))"

lemma fb_fill_plots: "fb_addr s \<noteq> 0 \<Longrightarrow> fb_fill c s = plots (all_pixels s) c s"
  unfolding all_pixels_def fold_fold_plots [symmetric] by (rule fb_fill_eq)

lemma all_pixels_iff:
  assumes "fb_addr s \<noteq> 0"
  shows "(x, y) \<in> set (all_pixels s) \<longleftrightarrow> on_screen s x y"
proof -
  have w: "z \<in> of_nat ` {..<unat n} \<longleftrightarrow> z < n" for z n :: u32
  proof
    assume "z < n"
    then show "z \<in> of_nat ` {..<unat n}"
      by (intro image_eqI [of _ _ "unat z"]) (simp_all add: word_less_nat_alt)
  next
    assume "z \<in> of_nat ` {..<unat n}"
    then show "z < n"
      by (auto simp: word_less_nat_alt unat_of_nat_u32 less_trans [OF _ unat_u32_less(1)])
  qed
  have "set (all_pixels s) = of_nat ` {..<unat (fb_width s)} \<times> of_nat ` {..<unat (fb_height s)}"
    by (auto simp: all_pixels_def atLeast0LessThan)
  then show ?thesis using assms w by (auto simp: on_screen_def)
qed

lemma fb_fill_pixel:
  "fb_ok s \<Longrightarrow> on_screen s x y \<Longrightarrow> pixel (fb_fill c s) x y = pixel_bytes (depth s) c"
  by (simp add: fb_fill_plots plots_pixel all_pixels_iff on_screen_def)

lemma fb_of_fill [simp]: "fb_of (fb_fill c s) = fb_of s"
  by (cases "fb_addr s = 0") (simp add: fb_fill_def, simp add: fb_fill_plots)

lemma fb_fill_frame [frame]: "fb_ok s \<Longrightarrow> a \<notin> fb_region s \<Longrightarrow> mem (fb_fill c s) a = mem s a"
  by (cases "fb_addr s = 0") (simp add: fb_fill_def, simp add: fb_fill_plots plots_frame)

end
