(* ===== verification/Font.thy ===== *)
theory Font
  imports Prelude
begin

text \<open>
  \<open>kernel/drivers/fonts/basic8x8.h\<close>: the glyphs, in the order of the table, a group of nine per
  definition. A glyph is 16 rows of 9 cells, \<open>#\<close> for a cell that is drawn.
\<close>

record fontentry =
  ch :: char
  rows :: "string list"

abbreviation glyph :: "char \<Rightarrow> string list \<Rightarrow> fontentry" where
  "glyph c r \<equiv> \<lparr>ch = c, rows = r\<rparr>"

definition font_0 :: "fontentry list" where
  "font_0 = [glyph (CHR '' '') [''#########'', ''#########'', ''#########'', ''#########'',
       ''#########'', ''#########'', ''#########'', ''#########'',
       ''#########'', ''#########'', ''#########'', ''#########'',
       ''#########'', ''#########'', ''#########'', ''#########''],
     glyph (CHR ''!'') [''.........'', ''.........'', ''.........'', ''....##...'',
       ''...####..'', ''...####..'', ''...####..'', ''....##...'',
       ''....##...'', ''....##...'', ''.........'', ''....##...'',
       ''....##...'', ''.........'', ''.........'', ''.........''],
     glyph (CHR 0x22) [''.........'', ''.........'', ''.........'', ''.##...##.'',
       ''.##...##.'', ''.##...##.'', ''.#...##..'', ''.........'',
       ''.........'', ''.........'', ''.........'', ''.........'',
       ''.........'', ''.........'', ''.........'', ''.........''],
     glyph (CHR ''#'') [''.........'', ''.........'', ''.........'', ''.........'',
       ''..##.##..'', ''..##.##..'', ''.#######.'', ''..##.##..'',
       ''..##.##..'', ''..##.##..'', ''.#######.'', ''..##.##..'',
       ''..##.##..'', ''.........'', ''.........'', ''.........''],
     glyph (CHR ''$'') [''.........'', ''....##...'', ''....##...'', ''..#####..'',
       ''.##...##.'', ''.##....#.'', ''.##......'', ''..#####..'',
       ''......##.'', ''......##.'', ''.#....##.'', ''.##...##.'',
       ''..#####..'', ''....##...'', ''....##...'', ''.........''],
     glyph (CHR ''%'') [''.........'', ''.........'', ''.........'', ''.........'',
       ''.........'', ''.........'', ''.##...#..'', ''.##..##..'',
       ''....##...'', ''...##....'', ''..##.....'', ''.##..##..'',
       ''.#...##..'', ''.........'', ''.........'', ''.........''],
     glyph (CHR ''&'') [''.........'', ''.........'', ''.........'', ''...###...'',
       ''..##.##..'', ''..##.##..'', ''...###...'', ''..###.##.'',
       ''.##.###..'', ''.##..##..'', ''.##..##..'', ''.##..##..'',
       ''..###.##.'', ''.........'', ''.........'', ''.........''],
     glyph (CHR 0x27) [''.........'', ''.........'', ''.........'', ''.....##..'',
       ''.....##..'', ''.....##..'', ''......#..'', ''.........'',
       ''.........'', ''.........'', ''.........'', ''.........'',
       ''.........'', ''.........'', ''.........'', ''.........''],
     glyph (CHR ''('') [''.........'', ''....##...'', ''...##....'', ''..##.....'',
       ''..##.....'', ''..##.....'', ''..##.....'', ''..##.....'',
       ''..##.....'', ''..##.....'', ''..##.....'', ''...##....'',
       ''....##...'', ''.........'', ''.........'', ''.........'']]"

definition font_1 :: "fontentry list" where
  "font_1 = [glyph (CHR '')'') [''.........'', ''..##.....'', ''...##....'', ''....##...'',
       ''....##...'', ''....##...'', ''....##...'', ''....##...'',
       ''....##...'', ''....##...'', ''....##...'', ''...##....'',
       ''..##.....'', ''.........'', ''.........'', ''.........''],
     glyph (CHR ''*'') [''.........'', ''.........'', ''.........'', ''.........'',
       ''.........'', ''..##..##.'', ''...####..'', ''.########'',
       ''...####..'', ''..##..##.'', ''.........'', ''.........'',
       ''.........'', ''.........'', ''.........'', ''.........''],
     glyph (CHR ''+'') [''.........'', ''.........'', ''.........'', ''.........'',
       ''.........'', ''.........'', ''.........'', ''.........'',
       ''...##....'', ''...##....'', ''.######..'', ''...##....'',
       ''...##....'', ''.........'', ''.........'', ''.........''],
     glyph (CHR '','') [''.........'', ''.........'', ''.........'', ''.........'',
       ''.........'', ''.........'', ''.........'', ''.........'',
       ''.........'', ''.........'', ''.........'', ''...##....'',
       ''...##....'', ''...##....'', ''..##.....'', ''.........''],
     glyph (CHR ''-'') [''.........'', ''.........'', ''.........'', ''.........'',
       ''.........'', ''.........'', ''.........'', ''.#######.'',
       ''.........'', ''.........'', ''.........'', ''.........'',
       ''.........'', ''.........'', ''.........'', ''.........''],
     glyph (CHR ''.'') [''.........'', ''.........'', ''.........'', ''.........'',
       ''.........'', ''.........'', ''.........'', ''.........'',
       ''.........'', ''.........'', ''.........'', ''....##...'',
       ''....##...'', ''.........'', ''.........'', ''.........''],
     glyph (CHR ''/'') [''.........'', ''.........'', ''.........'', ''.........'',
       ''.........'', ''.......#.'', ''......##.'', ''.....##..'',
       ''....##...'', ''...##....'', ''..##.....'', ''.##......'',
       ''.#.......'', ''.........'', ''.........'', ''.........''],
     glyph (CHR ''0'') [''.........'', ''.........'', ''.........'', ''...####..'',
       ''..##..##.'', ''.##....##'', ''.##....##'', ''.##.##.##'',
       ''.##.##.##'', ''.##....##'', ''.##....##'', ''..##..##.'',
       ''...####..'', ''.........'', ''.........'', ''.........''],
     glyph (CHR ''1'') [''.........'', ''.........'', ''.........'', ''...##....'',
       ''..###....'', ''.####....'', ''...##....'', ''...##....'',
       ''...##....'', ''...##....'', ''...##....'', ''...##....'',
       ''.######..'', ''.........'', ''.........'', ''.........'']]"

definition font_2 :: "fontentry list" where
  "font_2 = [glyph (CHR ''2'') [''.........'', ''.........'', ''.........'', ''..#####..'',
       ''.##...##.'', ''......##.'', ''.....##..'', ''....##...'',
       ''...##....'', ''..##.....'', ''.##......'', ''.##...##.'',
       ''.#######.'', ''.........'', ''.........'', ''.........''],
     glyph (CHR ''3'') [''.........'', ''.........'', ''.........'', ''..#####..'',
       ''.##...##.'', ''......##.'', ''......##.'', ''...####..'',
       ''......##.'', ''......##.'', ''......##.'', ''.##...##.'',
       ''..#####..'', ''.........'', ''.........'', ''.........''],
     glyph (CHR ''4'') [''.........'', ''.........'', ''.........'', ''.....##..'',
       ''....###..'', ''...####..'', ''..##.##..'', ''.##..##..'',
       ''.#######.'', ''.....##..'', ''.....##..'', ''.....##..'',
       ''....####.'', ''.........'', ''.........'', ''.........''],
     glyph (CHR ''5'') [''.........'', ''.........'', ''.........'', ''.#######.'',
       ''.##......'', ''.##......'', ''.##......'', ''.######..'',
       ''......##.'', ''......##.'', ''......##.'', ''.##...##.'',
       ''..#####..'', ''.........'', ''.........'', ''.........''],
     glyph (CHR ''6'') [''.........'', ''.........'', ''.........'', ''...###...'',
       ''..##.....'', ''.##......'', ''.##......'', ''.######..'',
       ''.##...##.'', ''.##...##.'', ''.##...##.'', ''.##...##.'',
       ''..#####..'', ''.........'', ''.........'', ''.........''],
     glyph (CHR ''7'') [''.........'', ''.........'', ''.........'', ''.#######.'',
       ''.##...##.'', ''......##.'', ''......##.'', ''.....##..'',
       ''....##...'', ''...##....'', ''...##....'', ''...##....'',
       ''...##....'', ''.........'', ''.........'', ''.........''],
     glyph (CHR ''8'') [''.........'', ''.........'', ''.........'', ''..#####..'',
       ''.##...##.'', ''.##...##.'', ''.##...##.'', ''..#####..'',
       ''.##...##.'', ''.##...##.'', ''.##...##.'', ''.##...##.'',
       ''..#####..'', ''.........'', ''.........'', ''.........''],
     glyph (CHR ''9'') [''.........'', ''.........'', ''.........'', ''..#####..'',
       ''.##...##.'', ''.##...##.'', ''.##...##.'', ''..######.'',
       ''......##.'', ''......##.'', ''......##.'', ''.....##..'',
       ''..####...'', ''.........'', ''.........'', ''.........''],
     glyph (CHR '':'') [''.........'', ''.........'', ''.........'', ''.........'',
       ''.........'', ''.........'', ''....##...'', ''....##...'',
       ''.........'', ''.........'', ''.........'', ''....##...'',
       ''....##...'', ''.........'', ''.........'', ''.........'']]"

definition font_3 :: "fontentry list" where
  "font_3 = [glyph (CHR '';'') [''.........'', ''.........'', ''.........'', ''.........'',
       ''.........'', ''.........'', ''....##...'', ''....##...'',
       ''.........'', ''.........'', ''.........'', ''....##...'',
       ''....##...'', ''...##....'', ''.........'', ''.........''],
     glyph (CHR ''<'') [''.........'', ''.........'', ''.........'', ''.........'',
       ''.....##..'', ''....##...'', ''...##....'', ''..##.....'',
       ''.##......'', ''..##.....'', ''...##....'', ''....##...'',
       ''.....##..'', ''.........'', ''.........'', ''.........''],
     glyph (CHR ''='') [''.........'', ''.........'', ''.........'', ''.........'',
       ''.........'', ''.........'', ''.#######.'', ''.........'',
       ''.........'', ''.#######.'', ''.........'', ''.........'',
       ''.........'', ''.........'', ''.........'', ''.........''],
     glyph (CHR ''>'') [''.........'', ''.........'', ''.........'', ''.........'',
       ''.##......'', ''..##.....'', ''...##....'', ''....##...'',
       ''.....##..'', ''....##...'', ''...##....'', ''..##.....'',
       ''.##......'', ''.........'', ''.........'', ''.........''],
     glyph (CHR ''?'') [''.........'', ''.........'', ''.........'', ''..#####..'',
       ''.##...##.'', ''.##...##.'', ''.....##..'', ''....##...'',
       ''....##...'', ''....##...'', ''.........'', ''....##...'',
       ''....##...'', ''.........'', ''.........'', ''.........''],
     glyph (CHR ''@'') [''.........'', ''.........'', ''.........'', ''.........'',
       ''..#####..'', ''.##...##.'', ''.##...##.'', ''.##.####.'',
       ''.##.####.'', ''.##.####.'', ''.##.###..'', ''.##......'',
       ''..#####..'', ''.........'', ''.........'', ''.........''],
     glyph (CHR ''A'') [''.........'', ''.........'', ''.........'', ''....#....'',
       ''...###...'', ''..##.##..'', ''.##...##.'', ''.##...##.'',
       ''.#######.'', ''.##...##.'', ''.##...##.'', ''.##...##.'',
       ''.##...##.'', ''.........'', ''.........'', ''.........''],
     glyph (CHR ''B'') [''.........'', ''.........'', ''.........'', ''.######..'',
       ''..##..##.'', ''..##..##.'', ''..##..##.'', ''..#####..'',
       ''..##..##.'', ''..##..##.'', ''..##..##.'', ''..##..##.'',
       ''.######..'', ''.........'', ''.........'', ''.........''],
     glyph (CHR ''C'') [''.........'', ''.........'', ''.........'', ''...####..'',
       ''..##..##.'', ''.##....#.'', ''.##......'', ''.##......'',
       ''.##......'', ''.##......'', ''.##....#.'', ''..##..##.'',
       ''...####..'', ''.........'', ''.........'', ''.........'']]"

definition font_4 :: "fontentry list" where
  "font_4 = [glyph (CHR ''D'') [''.........'', ''.........'', ''.........'', ''.#####...'',
       ''..##.##..'', ''..##..##.'', ''..##..##.'', ''..##..##.'',
       ''..##..##.'', ''..##..##.'', ''..##..##.'', ''..##.##..'',
       ''.#####...'', ''.........'', ''.........'', ''.........''],
     glyph (CHR ''E'') [''.........'', ''.........'', ''.........'', ''.#######.'',
       ''..##..##.'', ''..##...#.'', ''..##.#...'', ''..####...'',
       ''..##.#...'', ''..##.....'', ''..##...#.'', ''..##..##.'',
       ''.#######.'', ''.........'', ''.........'', ''.........''],
     glyph (CHR ''F'') [''.........'', ''.........'', ''.........'', ''.#######.'',
       ''..##..##.'', ''..##...#.'', ''..##.#...'', ''..####...'',
       ''..##.#...'', ''..##.....'', ''..##.....'', ''..##.....'',
       ''.####....'', ''.........'', ''.........'', ''.........''],
     glyph (CHR ''G'') [''.........'', ''.........'', ''.........'', ''...####..'',
       ''..##..##.'', ''.##....#.'', ''.##......'', ''.##......'',
       ''.##.####.'', ''.##...##.'', ''.##...##.'', ''..##..##.'',
       ''...###.#.'', ''.........'', ''.........'', ''.........''],
     glyph (CHR ''H'') [''.........'', ''.........'', ''.........'', ''.##...##.'',
       ''.##...##.'', ''.##...##.'', ''.##...##.'', ''.#######.'',
       ''.##...##.'', ''.##...##.'', ''.##...##.'', ''.##...##.'',
       ''.##...##.'', ''.........'', ''.........'', ''.........''],
     glyph (CHR ''I'') [''.........'', ''.........'', ''.........'', ''..####...'',
       ''...##....'', ''...##....'', ''...##....'', ''...##....'',
       ''...##....'', ''...##....'', ''...##....'', ''...##....'',
       ''..####...'', ''.........'', ''.........'', ''.........''],
     glyph (CHR ''J'') [''.........'', ''.........'', ''.........'', ''....####.'',
       ''.....##..'', ''.....##..'', ''.....##..'', ''.....##..'',
       ''.....##..'', ''.##..##..'', ''.##..##..'', ''.##..##..'',
       ''..####...'', ''.........'', ''.........'', ''.........''],
     glyph (CHR ''K'') [''.........'', ''.........'', ''.........'', ''.###..##.'',
       ''..##..##.'', ''..##..##.'', ''..##.##..'', ''..####...'',
       ''..####...'', ''..##.##..'', ''..##..##.'', ''..##..##.'',
       ''.###..##.'', ''.........'', ''.........'', ''.........''],
     glyph (CHR ''L'') [''.........'', ''.........'', ''.........'', ''.####....'',
       ''..##.....'', ''..##.....'', ''..##.....'', ''..##.....'',
       ''..##.....'', ''..##.....'', ''..##...#.'', ''..##..##.'',
       ''.#######.'', ''.........'', ''.........'', ''.........'']]"

definition font_5 :: "fontentry list" where
  "font_5 = [glyph (CHR ''M'') [''.........'', ''.........'', ''.........'', ''.##....##'',
       ''.###..###'', ''.########'', ''.########'', ''.##.##.##'',
       ''.##....##'', ''.##....##'', ''.##....##'', ''.##....##'',
       ''.##....##'', ''.........'', ''.........'', ''.........''],
     glyph (CHR ''N'') [''.........'', ''.........'', ''.........'', ''.##...##.'',
       ''.###..##.'', ''.####.##.'', ''.#######.'', ''.##.####.'',
       ''.##..###.'', ''.##...##.'', ''.##...##.'', ''.##...##.'',
       ''.##...##.'', ''.........'', ''.........'', ''.........''],
     glyph (CHR ''O'') [''.........'', ''.........'', ''.........'', ''..#####..'',
       ''.##...##.'', ''.##...##.'', ''.##...##.'', ''.##...##.'',
       ''.##...##.'', ''.##...##.'', ''.##...##.'', ''.##...##.'',
       ''..#####..'', ''.........'', ''.........'', ''.........''],
     glyph (CHR ''P'') [''.........'', ''.........'', ''.........'', ''.######..'',
       ''..##..##.'', ''..##..##.'', ''..##..##.'', ''..#####..'',
       ''..##.....'', ''..##.....'', ''..##.....'', ''..##.....'',
       ''.####....'', ''.........'', ''.........'', ''.........''],
     glyph (CHR ''Q'') [''.........'', ''.........'', ''.........'', ''..#####..'',
       ''.##...##.'', ''.##...##.'', ''.##...##.'', ''.##...##.'',
       ''.##...##.'', ''.##...##.'', ''.##.#.##.'', ''.##.####.'',
       ''..#####..'', ''.....##..'', ''.....###.'', ''.........''],
     glyph (CHR ''R'') [''.........'', ''.........'', ''.........'', ''.######..'',
       ''..##..##.'', ''..##..##.'', ''..##..##.'', ''..#####..'',
       ''..##.##..'', ''..##..##.'', ''..##..##.'', ''..##..##.'',
       ''.###..##.'', ''.........'', ''.........'', ''.........''],
     glyph (CHR ''S'') [''.........'', ''.........'', ''.........'', ''..#####..'',
       ''.##...##.'', ''.##...##.'', ''..##.....'', ''...###...'',
       ''.....##..'', ''......##.'', ''.##...##.'', ''.##...##.'',
       ''..#####..'', ''.........'', ''.........'', ''.........''],
     glyph (CHR ''T'') [''.........'', ''.........'', ''.........'', ''.########'',
       ''.##.##.##'', ''.#..##..#'', ''....##...'', ''....##...'',
       ''....##...'', ''....##...'', ''....##...'', ''....##...'',
       ''...####..'', ''.........'', ''.........'', ''.........''],
     glyph (CHR ''U'') [''.........'', ''.........'', ''.........'', ''.##...##.'',
       ''.##...##.'', ''.##...##.'', ''.##...##.'', ''.##...##.'',
       ''.##...##.'', ''.##...##.'', ''.##...##.'', ''.##...##.'',
       ''..#####..'', ''.........'', ''.........'', ''.........'']]"

definition font_6 :: "fontentry list" where
  "font_6 = [glyph (CHR ''V'') [''.........'', ''.........'', ''.........'', ''.##....##'',
       ''.##....##'', ''.##....##'', ''.##....##'', ''.##....##'',
       ''.##....##'', ''.##....##'', ''..##..##.'', ''...####..'',
       ''....##...'', ''.........'', ''.........'', ''.........''],
     glyph (CHR ''W'') [''.........'', ''.........'', ''.........'', ''.##....##'',
       ''.##....##'', ''.##....##'', ''.##....##'', ''.##....##'',
       ''.##.##.##'', ''.##.##.##'', ''.########'', ''..##..##.'',
       ''..##..##.'', ''.........'', ''.........'', ''.........''],
     glyph (CHR ''X'') [''.........'', ''.........'', ''.........'', ''.##....##'',
       ''.##....##'', ''..##..##.'', ''...####..'', ''....##...'',
       ''....##...'', ''...####..'', ''..##..##.'', ''.##....##'',
       ''.##....##'', ''.........'', ''.........'', ''.........''],
     glyph (CHR ''Y'') [''.........'', ''.........'', ''.........'', ''.##....##'',
       ''.##....##'', ''.##....##'', ''..##..##.'', ''...####..'',
       ''....##...'', ''....##...'', ''....##...'', ''....##...'',
       ''...####..'', ''.........'', ''.........'', ''.........''],
     glyph (CHR ''Z'') [''.........'', ''.........'', ''.........'', ''.########'',
       ''.##....##'', ''.#....##.'', ''.....##..'', ''....##...'',
       ''...##....'', ''..##.....'', ''.##.....#'', ''.##....##'',
       ''.########'', ''.........'', ''.........'', ''.........''],
     glyph (CHR ''['') [''.........'', ''.........'', ''.........'', ''..####...'',
       ''..##.....'', ''..##.....'', ''..##.....'', ''..##.....'',
       ''..##.....'', ''..##.....'', ''..##.....'', ''..##.....'',
       ''..####...'', ''.........'', ''.........'', ''.........''],
     glyph (BSLASH) [''.........'', ''.........'', ''.........'', ''.........'',
       ''.........'', ''.#.......'', ''.##......'', ''..##.....'',
       ''...##....'', ''....##...'', ''.....##..'', ''......##.'',
       ''.......#.'', ''.........'', ''.........'', ''.........''],
     glyph (CHR '']'') [''.........'', ''.........'', ''.........'', ''..####...'',
       ''....##...'', ''....##...'', ''....##...'', ''....##...'',
       ''....##...'', ''....##...'', ''....##...'', ''....##...'',
       ''..####...'', ''.........'', ''.........'', ''.........''],
     glyph (CHR ''^'') [''.........'', ''.........'', ''....#....'', ''...###...'',
       ''..##.##..'', ''.##...##.'', ''.........'', ''.........'',
       ''.........'', ''.........'', ''.........'', ''.........'',
       ''.........'', ''.........'', ''.........'', ''.........'']]"

definition font_7 :: "fontentry list" where
  "font_7 = [glyph (CHR ''_'') [''.........'', ''.........'', ''.........'', ''.........'',
       ''.........'', ''.........'', ''.........'', ''.........'',
       ''.........'', ''.........'', ''.........'', ''.........'',
       ''.........'', ''.........'', ''.########'', ''.........''],
     glyph (CHR 0x60) [''.........'', ''.........'', ''.........'', ''.........'',
       ''...##....'', ''...##....'', ''....##...'', ''.........'',
       ''.........'', ''.........'', ''.........'', ''.........'',
       ''.........'', ''.........'', ''.........'', ''.........''],
     glyph (CHR ''a'') [''.........'', ''.........'', ''.........'', ''.........'',
       ''.........'', ''.........'', ''..####...'', ''.....##..'',
       ''..#####..'', ''.##..##..'', ''.##..##..'', ''.##..##..'',
       ''..###.##.'', ''.........'', ''.........'', ''.........''],
     glyph (CHR ''b'') [''.........'', ''.........'', ''.........'', ''.###.....'',
       ''..##.....'', ''..##.....'', ''..####...'', ''..##.##..'',
       ''..##..##.'', ''..##..##.'', ''..##..##.'', ''..##..##.'',
       ''..#####..'', ''.........'', ''.........'', ''.........''],
     glyph (CHR ''c'') [''.........'', ''.........'', ''.........'', ''.........'',
       ''.........'', ''.........'', ''..#####..'', ''.##...##.'',
       ''.##......'', ''.##......'', ''.##......'', ''.##...##.'',
       ''..#####..'', ''.........'', ''.........'', ''.........''],
     glyph (CHR ''d'') [''.........'', ''.........'', ''....###..'', ''.....##..'',
       ''.....##..'', ''.....##..'', ''...####..'', ''..##.##..'',
       ''.##..##..'', ''.##..##..'', ''.##..##..'', ''.##..##..'',
       ''..###.##.'', ''.........'', ''.........'', ''.........''],
     glyph (CHR ''e'') [''.........'', ''.........'', ''.........'', ''.........'',
       ''.........'', ''.........'', ''..#####..'', ''.##...##.'',
       ''.#######.'', ''.##......'', ''.##......'', ''.##...##.'',
       ''..#####..'', ''.........'', ''.........'', ''.........''],
     glyph (CHR ''f'') [''.........'', ''.........'', ''.........'', ''...###...'',
       ''..##.##..'', ''..##..#..'', ''..##.....'', ''.####....'',
       ''..##.....'', ''..##.....'', ''..##.....'', ''..##.....'',
       ''.####....'', ''.........'', ''.........'', ''.........''],
     glyph (CHR ''g'') [''.........'', ''.........'', ''.........'', ''.........'',
       ''.........'', ''.........'', ''..###.##.'', ''.##..##..'',
       ''.##..##..'', ''.##..##..'', ''.##..##..'', ''.##..##..'',
       ''..#####..'', ''.....##..'', ''.##..##..'', ''..####...'']]"

definition font_8 :: "fontentry list" where
  "font_8 = [glyph (CHR ''h'') [''.........'', ''.........'', ''.........'', ''.###.....'',
       ''..##.....'', ''..##.....'', ''..##.##..'', ''..###.##.'',
       ''..##..##.'', ''..##..##.'', ''..##..##.'', ''..##..##.'',
       ''.###..##.'', ''.........'', ''.........'', ''.........''],
     glyph (CHR ''i'') [''.........'', ''.........'', ''.........'', ''...##....'',
       ''...##....'', ''.........'', ''..###....'', ''...##....'',
       ''...##....'', ''...##....'', ''...##....'', ''...##....'',
       ''..####...'', ''.........'', ''.........'', ''.........''],
     glyph (CHR ''j'') [''.........'', ''.........'', ''.........'', ''.....##..'',
       ''.....##..'', ''.........'', ''....###..'', ''.....##..'',
       ''.....##..'', ''.....##..'', ''.....##..'', ''.....##..'',
       ''.....##..'', ''.##..##..'', ''.##..##..'', ''..####...''],
     glyph (CHR ''k'') [''.........'', ''.........'', ''.........'', ''.###.....'',
       ''..##.....'', ''..##.....'', ''..##..##.'', ''..##.##..'',
       ''..####...'', ''..####...'', ''..##.##..'', ''..##..##.'',
       ''.###..##.'', ''.........'', ''.........'', ''.........''],
     glyph (CHR ''l'') [''.........'', ''.........'', ''.........'', ''..###....'',
       ''...##....'', ''...##....'', ''...##....'', ''...##....'',
       ''...##....'', ''...##....'', ''...##....'', ''...##....'',
       ''..####...'', ''.........'', ''.........'', ''.........''],
     glyph (CHR ''m'') [''.........'', ''.........'', ''.........'', ''.........'',
       ''.........'', ''.........'', ''.###..##.'', ''.########'',
       ''.##.##.##'', ''.##.##.##'', ''.##.##.##'', ''.##.##.##'',
       ''.##.##.##'', ''.........'', ''.........'', ''.........''],
     glyph (CHR ''n'') [''.........'', ''.........'', ''.........'', ''.........'',
       ''.........'', ''.........'', ''.##.###..'', ''..##..##.'',
       ''..##..##.'', ''..##..##.'', ''..##..##.'', ''..##..##.'',
       ''..##..##.'', ''.........'', ''.........'', ''.........''],
     glyph (CHR ''o'') [''.........'', ''.........'', ''.........'', ''.........'',
       ''.........'', ''.........'', ''..#####..'', ''.##...##.'',
       ''.##...##.'', ''.##...##.'', ''.##...##.'', ''.##...##.'',
       ''..#####..'', ''.........'', ''.........'', ''.........''],
     glyph (CHR ''p'') [''.........'', ''.........'', ''.........'', ''.........'',
       ''.........'', ''.........'', ''.##.###..'', ''..##..##.'',
       ''..##..##.'', ''..##..##.'', ''..##..##.'', ''..##..##.'',
       ''..#####..'', ''..##.....'', ''..##.....'', ''.####....'']]"

definition font_9 :: "fontentry list" where
  "font_9 = [glyph (CHR ''q'') [''.........'', ''.........'', ''.........'', ''.........'',
       ''.........'', ''.........'', ''..###.##.'', ''.##..##..'',
       ''.##..##..'', ''.##..##..'', ''.##..##..'', ''.##..##..'',
       ''..#####..'', ''.....##..'', ''....####.'', ''.........''],
     glyph (CHR ''r'') [''.........'', ''.........'', ''.........'', ''.........'',
       ''.........'', ''.........'', ''.##.###..'', ''..###.##.'',
       ''..##..##.'', ''..##.....'', ''..##.....'', ''..##.....'',
       ''.####....'', ''.........'', ''.........'', ''.........''],
     glyph (CHR ''s'') [''.........'', ''.........'', ''.........'', ''.........'',
       ''.........'', ''.........'', ''..#####..'', ''.##...##.'',
       ''..##.....'', ''...###...'', ''.....##..'', ''.##...##.'',
       ''..#####..'', ''.........'', ''.........'', ''.........''],
     glyph (CHR ''t'') [''.........'', ''.........'', ''.........'', ''....#....'',
       ''...##....'', ''...##....'', ''.######..'', ''...##....'',
       ''...##....'', ''...##....'', ''...##....'', ''...##.##.'',
       ''....###..'', ''.........'', ''.........'', ''.........''],
     glyph (CHR ''u'') [''.........'', ''.........'', ''.........'', ''.........'',
       ''.........'', ''.........'', ''.##..##..'', ''.##..##..'',
       ''.##..##..'', ''.##..##..'', ''.##..##..'', ''.##..##..'',
       ''..###.##.'', ''.........'', ''.........'', ''.........''],
     glyph (CHR ''v'') [''.........'', ''.........'', ''.........'', ''.........'',
       ''.........'', ''.........'', ''.##....##'', ''.##....##'',
       ''.##....##'', ''.##....##'', ''..##..##.'', ''...####..'',
       ''....##...'', ''.........'', ''.........'', ''.........''],
     glyph (CHR ''w'') [''.........'', ''.........'', ''.........'', ''.........'',
       ''.........'', ''.........'', ''.##....##'', ''.##....##'',
       ''.##....##'', ''.##.##.##'', ''.##.##.##'', ''.########'',
       ''..##..##.'', ''.........'', ''.........'', ''.........''],
     glyph (CHR ''x'') [''.........'', ''.........'', ''.........'', ''.........'',
       ''.........'', ''.........'', ''.##....##'', ''..##..##.'',
       ''...####..'', ''....##...'', ''...####..'', ''..##..##.'',
       ''.##....##'', ''.........'', ''.........'', ''.........''],
     glyph (CHR ''y'') [''.........'', ''.........'', ''.........'', ''.........'',
       ''.........'', ''.........'', ''.##....##'', ''.##....##'',
       ''.##....##'', ''.##....##'', ''.##....##'', ''.##....##'',
       ''..######.'', ''......##.'', ''.....##..'', ''.#####...'']]"

definition font_10 :: "fontentry list" where
  "font_10 = [glyph (CHR ''z'') [''.........'', ''.........'', ''.........'', ''.........'',
       ''.........'', ''.........'', ''.#######.'', ''.##..##..'',
       ''....##...'', ''...##....'', ''..##.....'', ''.##...##.'',
       ''.#######.'', ''.........'', ''.........'', ''.........''],
     glyph (CHR ''{'') [''.........'', ''.........'', ''.........'', ''....###..'',
       ''...##....'', ''...##....'', ''...##....'', ''.###.....'',
       ''...##....'', ''...##....'', ''...##....'', ''...##....'',
       ''....###..'', ''.........'', ''.........'', ''.........''],
     glyph (CHR ''|'') [''.........'', ''.........'', ''.........'', ''...##....'',
       ''...##....'', ''...##....'', ''...##....'', ''.........'',
       ''...##....'', ''...##....'', ''...##....'', ''...##....'',
       ''...##....'', ''.........'', ''.........'', ''.........''],
     glyph (CHR ''}'') [''.........'', ''.........'', ''.........'', ''.####....'',
       ''....##...'', ''....##...'', ''....##...'', ''.....###.'',
       ''....##...'', ''....##...'', ''....##...'', ''....##...'',
       ''.####....'', ''.........'', ''.........'', ''.........''],
     glyph (CHR ''~'') [''.........'', ''.........'', ''.........'', ''.........'',
       ''.........'', ''.........'', ''.........'', ''..###.##.'',
       ''.##.###..'', ''.........'', ''.........'', ''.........'',
       ''.........'', ''.........'', ''.........'', ''.........''],
     glyph (BS) [''#########'', ''#########'', ''#########'', ''#########'',
       ''#########'', ''#########'', ''#########'', ''#########'',
       ''#########'', ''#########'', ''#########'', ''#########'',
       ''#########'', ''#########'', ''#########'', ''#########'']]"

definition basic8x8 :: "fontentry list" where
  "basic8x8 = font_0 @ font_1 @ font_2 @ font_3 @ font_4 @ font_5 @ font_6 @ font_7 @ font_8 @ font_9 @ font_10"

text \<open>Every glyph is 16 rows of 9 cells, and no character has two.\<close>

definition wf_glyph :: "fontentry \<Rightarrow> bool" where
  "wf_glyph f \<longleftrightarrow> length (rows f) = 16 \<and> list_all (\<lambda>r. length r = 9) (rows f)"


lemma wf_font_0: "list_all wf_glyph font_0"
  by (simp add: font_0_def wf_glyph_def)

lemma wf_font_1: "list_all wf_glyph font_1"
  by (simp add: font_1_def wf_glyph_def)

lemma wf_font_2: "list_all wf_glyph font_2"
  by (simp add: font_2_def wf_glyph_def)

lemma wf_font_3: "list_all wf_glyph font_3"
  by (simp add: font_3_def wf_glyph_def)

lemma wf_font_4: "list_all wf_glyph font_4"
  by (simp add: font_4_def wf_glyph_def)

lemma wf_font_5: "list_all wf_glyph font_5"
  by (simp add: font_5_def wf_glyph_def)

lemma wf_font_6: "list_all wf_glyph font_6"
  by (simp add: font_6_def wf_glyph_def)

lemma wf_font_7: "list_all wf_glyph font_7"
  by (simp add: font_7_def wf_glyph_def)

lemma wf_font_8: "list_all wf_glyph font_8"
  by (simp add: font_8_def wf_glyph_def)

lemma wf_font_9: "list_all wf_glyph font_9"
  by (simp add: font_9_def wf_glyph_def)

lemma wf_font_10: "list_all wf_glyph font_10"
  by (simp add: font_10_def wf_glyph_def)

lemma wf_basic8x8: "list_all wf_glyph basic8x8"
  by (simp add: basic8x8_def wf_font_0 wf_font_1 wf_font_2 wf_font_3 wf_font_4 wf_font_5 wf_font_6 wf_font_7 wf_font_8 wf_font_9 wf_font_10)

end
