(* ===== verification/Fbcon.thy ===== *)
theory Fbcon
  imports Framebuffer Font
begin

text \<open>
  \<open>kernel/drivers/fbcon.c\<close>: characters and strings drawn on the framebuffer. A glyph is drawn
  cell by cell; cells that are not \<open>#\<close> are left as they were.
\<close>

datatype font_t = FONT_BASIC8X8

definition CHAR_W :: nat where "CHAR_W = 9"
definition CHAR_H :: nat where "CHAR_H = 16"
definition BGC :: u32 where "BGC = 0"

definition font_get :: "char \<Rightarrow> font_t \<Rightarrow> fontentry option" where
  "font_get c font = (case font of FONT_BASIC8X8 \<Rightarrow> List.find (\<lambda>f. ch f = c) basic8x8)"

definition fbcputchar ::
    "u16 \<Rightarrow> u16 \<Rightarrow> char \<Rightarrow> u32 \<Rightarrow> font_t \<Rightarrow> 'a fb_state_scheme \<Rightarrow> 'a fb_state_scheme" where
  "fbcputchar px py c color font s =
     (case font_get c font of
        None \<Rightarrow> s
      | Some f \<Rightarrow>
          fold (\<lambda>y. let r = rows f ! y in
            fold (\<lambda>x s. if r ! x = CHR ''#''
                         then fb_putpixel (ucast px + of_nat x) (ucast py + of_nat y) color s else s)
              [0..<CHAR_W]) [0..<CHAR_H] s)"

text \<open>The string is the text up to its NUL.\<close>

fun fbcstr ::
    "u16 \<Rightarrow> u16 \<Rightarrow> string \<Rightarrow> u32 \<Rightarrow> font_t \<Rightarrow> 'a fb_state_scheme \<Rightarrow> 'a fb_state_scheme" where
  "fbcstr x y [] color font s = s"
| "fbcstr x y (c # t) color font s =
     fbcstr (x + 9) y t color font
       (if c = CHR '' '' then fbcputchar x y c BGC font s else fbcputchar x y c color font s)"

section \<open>Characters as sets of pixels\<close>

definition glyph_cells :: "fontentry \<Rightarrow> u16 \<Rightarrow> u16 \<Rightarrow> (u32 \<times> u32) list" where
  "glyph_cells f px py =
     concat (map (\<lambda>y. map (\<lambda>x. (ucast px + of_nat x, ucast py + of_nat y))
       (filter (\<lambda>x. rows f ! y ! x = CHR ''#'') [0..<9])) [0..<16])"

lemma fold_if_filter: "fold (\<lambda>x s. if P x then f x s else s) xs s = fold f (filter P xs) s"
  by (induction xs arbitrary: s) simp_all

lemma fbcputchar_plots:
  "fbcputchar px py c color font s =
     (case font_get c font of None \<Rightarrow> s | Some f \<Rightarrow> plots (glyph_cells f px py) color s)"
  unfolding fbcputchar_def Let_def glyph_cells_def CHAR_W_def CHAR_H_def fold_if_filter
  by (simp only: fold_fold_plots)

lemma glyph_cells_iff:
  "(X, Y) \<in> set (glyph_cells f px py) \<longleftrightarrow>
     (\<exists>x < 9. \<exists>y < 16. rows f ! y ! x = CHR ''#'' \<and> X = ucast px + of_nat x \<and> Y = ucast py + of_nat y)"
  unfolding glyph_cells_def by (auto simp: image_iff Bex_def)

lemma fb_of_fbcputchar [simp]: "fb_of (fbcputchar px py c color font s) = fb_of s"
  by (simp add: fbcputchar_plots split: option.split)

lemma fbcputchar_frame [frame]:
  "fb_ok s \<Longrightarrow> a \<notin> fb_region s \<Longrightarrow> mem (fbcputchar px py c color font s) a = mem s a"
  by (simp add: fbcputchar_plots plots_frame split: option.split)

lemma fbcstr_frame [frame]:
  "fb_ok s \<Longrightarrow> a \<notin> fb_region s \<Longrightarrow> mem (fbcstr x y t color font s) a = mem s a"
proof (induction t arbitrary: x s)
  case (Cons c t)
  then show ?case
    using fb_of_eqD2 [OF fb_of_fbcputchar, of x y _ _ font s] by (auto simp: fbcputchar_frame)
qed simp

text \<open>Glyphs of the table have 16 rows of 9 cells, so the two loops stay inside them.\<close>

lemma font_get_wf:
  assumes "font_get c font = Some f"
  shows "ch f = c \<and> f \<in> set basic8x8 \<and> length (rows f) = 16 \<and> (\<forall>y < 16. length (rows f ! y) = 9)"
proof -
  have f: "f \<in> set basic8x8" "ch f = c"
    using assms by (auto simp: font_get_def find_Some_iff split: font_t.splits)
  then have "wf_glyph f" using wf_basic8x8 by (auto simp: list_all_iff)
  then show ?thesis using f by (auto simp: wf_glyph_def list_all_iff)
qed

text \<open>The drawn cell: what a pixel of the 9 by 16 block at \<open>(px, py)\<close> is afterwards.\<close>

lemma cell_coordinate:
  "x < 9 \<Longrightarrow> x' < 9 \<Longrightarrow> (ucast (p :: u16) + of_nat x = (ucast p + of_nat x' :: u32)) \<longleftrightarrow> x = x'"
  "y < 16 \<Longrightarrow> y' < 16 \<Longrightarrow> (ucast (p :: u16) + of_nat y = (ucast p + of_nat y' :: u32)) \<longleftrightarrow> y = y'"
  by (intro offset_eq_iff; simp)+

lemma glyph_cell_iff:
  "x < 9 \<Longrightarrow> y < 16 \<Longrightarrow>
     (ucast px + of_nat x, ucast py + of_nat y) \<in> set (glyph_cells f px py) \<longleftrightarrow> rows f ! y ! x = CHR ''#''"
  unfolding glyph_cells_iff using cell_coordinate by metis

lemma fbcputchar_cell:
  assumes "fb_ok s" and "font_get c font = Some f" and "x < 9" and "y < 16"
    and "on_screen s (ucast px + of_nat x) (ucast py + of_nat y)"
  shows "pixel (fbcputchar px py c color font s) (ucast px + of_nat x) (ucast py + of_nat y) =
    (if rows f ! y ! x = CHR ''#'' then pixel_bytes (depth s) color
     else pixel s (ucast px + of_nat x) (ucast py + of_nat y))"
  using plots_pixel [OF assms(1,5), of "glyph_cells f px py" color] glyph_cell_iff [OF assms(3,4)] assms(2)
  by (simp add: fbcputchar_plots)

lemma fbcputchar_elsewhere:
  assumes "fb_ok s" and "on_screen s X Y" and "\<forall>x < 9. X \<noteq> ucast px + of_nat x"
  shows "pixel (fbcputchar px py c color font s) X Y = pixel s X Y"
proof -
  have "(X, Y) \<notin> set (glyph_cells f px py)" for f using assms(3) by (auto simp: glyph_cells_iff)
  then show ?thesis using plots_pixel [OF assms(1,2)] by (simp add: fbcputchar_plots split: option.split)
qed

section \<open>Which characters have a glyph\<close>

lemmas font_tables = font_0_def font_1_def font_2_def font_3_def font_4_def font_5_def
  font_6_def font_7_def font_8_def font_9_def font_10_def

lemma font_codes: "map (\<lambda>f. of_char (ch f)) basic8x8 = [32..<127] @ [8 :: nat]"
  by (simp add: basic8x8_def font_tables upt_rec_numeral)

lemma font_get_None: "font_get c FONT_BASIC8X8 = None \<longleftrightarrow> (of_char c :: nat) \<notin> {32..<127} \<union> {8}"
proof -
  have "font_get c FONT_BASIC8X8 = None \<longleftrightarrow> (\<forall>f \<in> set basic8x8. ch f \<noteq> c)"
    by (auto simp: font_get_def find_None_iff)
  also have "\<dots> \<longleftrightarrow> (\<forall>f \<in> set basic8x8. of_char (ch f) \<noteq> (of_char c :: nat))"
    by simp
  also have "\<dots> \<longleftrightarrow> (of_char c :: nat) \<notin> set (map (\<lambda>f. of_char (ch f)) basic8x8)"
    by auto
  finally show ?thesis unfolding font_codes set_append set_upt by simp
qed

lemma solid_BS:
  "\<exists>f. font_get BS FONT_BASIC8X8 = Some f \<and> (\<forall>x < 9. \<forall>y < 16. rows f ! y ! x = CHR ''#'')"
proof -
  obtain f where f: "font_get BS FONT_BASIC8X8 = Some f"
    using font_get_None [of BS] by auto
  have "list_all (\<lambda>f. ch f = BS \<longrightarrow> rows f = replicate 16 (replicate 9 (CHR ''#''))) basic8x8"
    by (simp add: basic8x8_def font_tables numeral_eq_Suc)
  then have "rows f = replicate 16 (replicate 9 (CHR ''#''))"
    using font_get_wf [OF f] by (simp add: list_all_iff)
  then show ?thesis using f by simp
qed

end
