(* ===== verification/Console.thy ===== *)
theory Console
  imports Prelude
begin

text \<open>
  The contract of a character terminal: putting a character and wiping keep it well-formed, and
  touch no byte outside its screen memory. A whole transcript then does so too.
\<close>

fun show_event :: "(char \<Rightarrow> 's \<Rightarrow> 's) \<Rightarrow> ('s \<Rightarrow> 's) \<Rightarrow> con_event \<Rightarrow> 's \<Rightarrow> 's" where
  "show_event put wipe (Out c) s = put c s"
| "show_event put wipe Clr s = wipe s"

locale console =
  fixes put :: "char \<Rightarrow> 's \<Rightarrow> 's"
    and wipe :: "'s \<Rightarrow> 's"
    and wf :: "'s \<Rightarrow> bool"
    and area :: "'s \<Rightarrow> u32 set"
    and bytes :: "'s \<Rightarrow> memory"
  assumes put_wf: "wf s \<Longrightarrow> wf (put c s)"
    and wipe_wf: "wf s \<Longrightarrow> wf (wipe s)"
    and put_area: "wf s \<Longrightarrow> area (put c s) = area s"
    and wipe_area: "wf s \<Longrightarrow> area (wipe s) = area s"
    and put_outside: "wf s \<Longrightarrow> a \<notin> area s \<Longrightarrow> bytes (put c s) a = bytes s a"
    and wipe_outside: "wf s \<Longrightarrow> a \<notin> area s \<Longrightarrow> bytes (wipe s) a = bytes s a"
begin

lemma event:
  assumes "wf s"
  shows "wf (show_event put wipe e s)" and "area (show_event put wipe e s) = area s"
    and "a \<notin> area s \<Longrightarrow> bytes (show_event put wipe e s) a = bytes s a"
  using assms put_wf wipe_wf put_area wipe_area put_outside wipe_outside by (cases e; simp)+

lemma transcript:
  "wf s \<Longrightarrow> wf (fold (show_event put wipe) es s) \<and> area (fold (show_event put wipe) es s) = area s
     \<and> (\<forall>a. a \<notin> area s \<longrightarrow> bytes (fold (show_event put wipe) es s) a = bytes s a)"
proof (induction es arbitrary: s)
  case (Cons e es)
  then show ?case using event [where s = s and e = e] Cons.IH [of "show_event put wipe e s"] by simp
qed simp

end

end
