(* ===== verification/Tty.thy ===== *)
theory Tty
  imports Fbcon Console
begin

text \<open>
  \<open>kernel/drivers/tty.c\<close>: the terminal on the framebuffer, with its cursor in pixels. The rest
  of the kernel appears here as the sequence of its console calls, the transcript \<open>con\<close> of the
  other theories: \<open>render\<close> runs one on the screen.
\<close>

record tty_state = fb_state +
  cx :: u16
  cy :: u16

definition SCREEN_WIDTH :: u16 where "SCREEN_WIDTH = 9 * 80 * 2"
definition SCREEN_HEIGHT :: u16 where "SCREEN_HEIGHT = 16 * 25 * 2"

definition tty_init :: "u32 \<Rightarrow> 'a tty_state_scheme \<Rightarrow> 'a tty_state_scheme" where
  "tty_init vbe s = (fb_fill BGC (fb_init vbe s))\<lparr>cx := 0, cy := 0\<rparr>"

text \<open>\<open>cx = 0; cy += CHAR_H; if (cy >= SCREEN_HEIGHT) cy = 0;\<close>\<close>

definition next_line :: "'a tty_state_scheme \<Rightarrow> 'a tty_state_scheme" where
  "next_line s =
     (let s = s\<lparr>cx := 0, cy := cy s + 16\<rparr>
      in if cy s \<ge> SCREEN_HEIGHT then s\<lparr>cy := 0\<rparr> else s)"

definition draw :: "u16 \<Rightarrow> u16 \<Rightarrow> char \<Rightarrow> u32 \<Rightarrow> 'a tty_state_scheme \<Rightarrow> 'a tty_state_scheme" where
  "draw px py c colour s = fbcputchar px py c colour FONT_BASIC8X8 s"

definition tty_putc :: "char \<Rightarrow> 'a tty_state_scheme \<Rightarrow> 'a tty_state_scheme" where
  "tty_putc c s =
     (let colour = 0xFFFFFFFF;
          s = draw (cx s) (cy s) BS BGC s;
          s = draw (cx s + 9) (cy s) (CHR ''_'') colour s
      in if c = NL then
           next_line (draw (cx s + 9) (cy s) BS BGC s)
         else if c = BS then
          (let s = draw (cx s + 9) (cy s) BS BGC s;
               s = (if cx s \<ge> 9 then s\<lparr>cx := cx s - 9\<rparr>
                    else if cy s \<ge> 16 then s\<lparr>cy := cy s - 16, cx := SCREEN_WIDTH - 9\<rparr>
                    else s);
               s = draw (cx s) (cy s) (CHR '' '') BGC s
           in draw (cx s) (cy s) (CHR ''_'') colour s)
         else if c = TAB then
          (let s = draw (cx s + 9) (cy s) (CHR '' '') BGC s;
               s = s\<lparr>cx := cx s + (4 - cx s mod 5) * 9\<rparr>;
               s = (if cx s \<ge> SCREEN_WIDTH then next_line s else s)
           in draw (cx s) (cy s) (CHR ''_'') colour s)
         else if c = CR then s\<lparr>cx := 0\<rparr>
         else
          (let colour = (if c = CHR '' '' then BGC else colour);
               s = draw (cx s) (cy s) c colour s;
               s = s\<lparr>cx := cx s + 9\<rparr>
           in if cx s \<ge> SCREEN_WIDTH then next_line s else s))"

definition tty_puts :: "string \<Rightarrow> 'a tty_state_scheme \<Rightarrow> 'a tty_state_scheme" where
  "tty_puts t s = fold tty_putc t s"

definition tty_clear :: "'a tty_state_scheme \<Rightarrow> 'a tty_state_scheme" where
  "tty_clear s = (fb_fill BGC s)\<lparr>cx := 0, cy := 0\<rparr>"

fun render :: "con_event \<Rightarrow> 'a tty_state_scheme \<Rightarrow> 'a tty_state_scheme" where
  "render (Out c) s = tty_putc c s"
| "render Clr s = tty_clear s"

section \<open>The cursor\<close>

text \<open>
  The cursor stays on a grid of 160 columns and 50 rows; \<open>cursor_step\<close> is the grid machine the
  code implements. A tab is not a move to a tab stop: the code takes the remainder by 5 of the
  pixel position, which for column \<open>n\<close> is \<open>9 * n mod 5\<close>, and at a column that is 1 modulo 5 it
  does not move at all.
\<close>

definition tty_wf :: "'a tty_state_scheme \<Rightarrow> bool" where
  "tty_wf s \<longleftrightarrow> unat (cx s) mod 9 = 0 \<and> unat (cx s) < 1440 \<and> unat (cy s) mod 16 = 0 \<and> unat (cy s) < 800"

definition cursor :: "'a tty_state_scheme \<Rightarrow> nat \<times> nat" where
  "cursor s = (unat (cx s) div 9, unat (cy s) div 16)"

definition down :: "nat \<Rightarrow> nat" where
  "down row = (if row + 1 = 50 then 0 else row + 1)"

definition cursor_step :: "char \<Rightarrow> nat \<times> nat \<Rightarrow> nat \<times> nat" where
  "cursor_step c p =
     (case p of (col, row) \<Rightarrow>
        if c = NL then (0, down row)
        else if c = BS then
          (if 0 < col then (col - 1, row) else if 0 < row then (159, row - 1) else (0, 0))
        else if c = TAB then
          (let col' = col + (4 - 9 * col mod 5) in if col' < 160 then (col', row) else (0, down row))
        else if c = CR then (0, row)
        else if col + 1 < 160 then (col + 1, row) else (0, down row))"

lemma draw_mem: "\<exists>m. draw px py c colour s = s\<lparr>mem := m\<rparr>"
proof -
  have plots: "\<exists>m. plots ps k s = s\<lparr>mem := m\<rparr>" for ps k
  proof (induction ps arbitrary: s)
    case Nil
    show ?case by (rule exI [of _ "mem s"]) simp
  next
    case (Cons p ps)
    obtain m where m: "fb_putpixel (fst p) (snd p) k s = s\<lparr>mem := m\<rparr>"
      by (cases "on_screen s (fst p) (snd p)") (auto simp: fb_putpixel_eq intro: that [of "mem s"])
    obtain m' where "plots ps k (s\<lparr>mem := m\<rparr>) = s\<lparr>mem := m, mem := m'\<rparr>" using Cons by blast
    then show ?case using m by auto
  qed
  show ?thesis
    unfolding draw_def fbcputchar_plots using plots
    by (auto split: option.split intro: exI [of _ "mem s"])
qed

lemma draw_cursor [simp]: "cx (draw px py c colour s) = cx s" "cy (draw px py c colour s) = cy s"
  using draw_mem [of px py c colour s] by auto

lemma fb_of_draw [simp]: "fb_of (draw px py c colour s) = fb_of s"
  by (simp add: draw_def)

lemma next_line_cursor:
  "unat (cy s) < 800 \<Longrightarrow> cx (next_line s) = 0"
  "unat (cy s) < 800 \<Longrightarrow> unat (cy (next_line s)) = (if unat (cy s) + 16 < 800 then unat (cy s) + 16 else 0)"
  by (auto simp: next_line_def Let_def SCREEN_HEIGHT_def word_le_nat_alt unat_word_ariths)

text \<open>The cursor after each kind of character, in pixels.\<close>

definition pixel_step :: "char \<Rightarrow> nat \<times> nat \<Rightarrow> nat \<times> nat" where
  "pixel_step c p =
     (case p of (x, y) \<Rightarrow>
        let down = (if y + 16 < 800 then y + 16 else 0) in
        if c = NL then (0, down)
        else if c = BS then
          (if 9 \<le> x then (x - 9, y) else if 16 \<le> y then (1431, y - 16) else (x, y))
        else if c = TAB then
          (let x' = x + (4 - x mod 5) * 9 in if x' < 1440 then (x', y) else (0, down))
        else if c = CR then (0, y)
        else if x + 9 < 1440 then (x + 9, y) else (0, down))"

lemma tab_width: "unat (36 - x mod 5 * 9 :: u16) = 36 - unat x mod 5 * 9"
proof -
  have m: "unat (x mod 5) = unat x mod 5" by (simp add: unat_mod)
  define r where "r = unat x mod 5"
  have x: "x mod 5 = of_nat r" by (rule word_unat_eq_iff [THEN iffD2]) (simp add: m r_def unat_of_nat)
  have "r < 5" by (simp add: r_def)
  then consider "r = 0" | "r = 1" | "r = 2" | "r = 3" | "r = 4" by linarith
  then have "unat (36 - of_nat r * 9 :: u16) = 36 - r * 9" by cases simp_all
  then show ?thesis using x by (simp add: r_def)
qed

lemma tty_putc_pixel:
  assumes "unat (cx s) < 1440" and "unat (cy s) < 800"
  shows "(unat (cx (tty_putc c s)), unat (cy (tty_putc c s))) = pixel_step c (unat (cx s), unat (cy s))"
proof -
  have plus: "unat (cx s + w) = unat (cx s) + unat w" if "unat w \<le> 36" for w
    using assms(1) that by (simp add: unat_word_ariths)
  have tab: "unat (36 - cx s mod 5 * 9) \<le> 36" by (simp add: tab_width)
  have width: "n + (4 - n mod 5) * 9 = n + 36 - n mod 5 * 9" for n :: nat
    by (simp add: diff_mult_distrib)
  note word_le_nat_alt [simp] and SCREEN_WIDTH_def [simp]
  consider "c = NL" | "c = BS" | "c = TAB" | "c = CR" | "c \<noteq> NL" "c \<noteq> BS" "c \<noteq> TAB" "c \<noteq> CR" by blast
  then show ?thesis
  proof cases
    case 1
    then show ?thesis using assms
      by (simp add: tty_putc_def Let_def next_line_cursor pixel_step_def)
  next
    case 2
    then show ?thesis
      by (simp add: tty_putc_def Let_def pixel_step_def unat_sub)
  next
    case 3
    then show ?thesis using assms
      by (simp add: tty_putc_def Let_def pixel_step_def next_line_cursor plus [OF tab] tab_width width not_le)
  next
    case 4
    then show ?thesis by (simp add: tty_putc_def Let_def pixel_step_def)
  next
    case 5
    then show ?thesis using assms
      by (simp add: tty_putc_def Let_def pixel_step_def next_line_cursor plus not_le)
  qed
qed

lemma grid:
  assumes "col < 160" and "row < 50"
  shows "pixel_step c (9 * col, 16 * row) = (9 * fst (cursor_step c (col, row)), 16 * snd (cursor_step c (col, row)))"
proof -
  define tab where "tab = col + (4 - 9 * col mod 5)"
  have tab: "9 * col + (4 - 9 * col mod 5) * 9 = 9 * tab" by (simp add: tab_def)
  have "9 * tab < 1440 \<longleftrightarrow> tab < 160" "9 * col + 9 < 1440 \<longleftrightarrow> col + 1 < 160"
    "16 * row + 16 < 800 \<longleftrightarrow> row + 1 \<noteq> 50" "9 \<le> 9 * col \<longleftrightarrow> 0 < col" "16 \<le> 16 * row \<longleftrightarrow> 0 < row"
    "9 * col - 9 = 9 * (col - 1)" "16 * row - 16 = 16 * (row - 1)"
    using assms by auto
  then show ?thesis
    by (simp add: pixel_step_def cursor_step_def down_def Let_def tab flip: tab_def)
qed

lemma tty_wfE:
  assumes "tty_wf s"
  obtains col row where "col < 160" "row < 50" "unat (cx s) = 9 * col" "unat (cy s) = 16 * row"
    "cursor s = (col, row)"
proof -
  obtain col row where "unat (cx s) = 9 * col" "unat (cy s) = 16 * row"
    using assms by (auto simp: tty_wf_def mod_eq_0_iff_dvd dvd_def)
  then show thesis using that assms by (simp add: tty_wf_def cursor_def)
qed

lemma cursor_step_bounds:
  "col < 160 \<Longrightarrow> row < 50 \<Longrightarrow>
     fst (cursor_step c (col, row)) < 160 \<and> snd (cursor_step c (col, row)) < 50"
  by (auto simp: cursor_step_def down_def Let_def)

lemma tty_putc_cursor:
  assumes "tty_wf s"
  shows "tty_wf (tty_putc c s) \<and> cursor (tty_putc c s) = cursor_step c (cursor s)"
  using assms
proof (rule tty_wfE)
  fix col row assume g: "col < 160" "row < 50" "unat (cx s) = 9 * col" "unat (cy s) = 16 * row" "cursor s = (col, row)"
  obtain col' row' where step: "cursor_step c (col, row) = (col', row')" by fastforce
  have "(unat (cx (tty_putc c s)), unat (cy (tty_putc c s))) = (9 * col', 16 * row')"
    using tty_putc_pixel [of s c] grid [OF g(1,2), of c] g step by simp
  then show ?thesis using cursor_step_bounds [OF g(1,2), of c] g(5) step
    by (simp add: tty_wf_def cursor_def)
qed

section \<open>The screen\<close>

lemma fb_of_next_line [simp]: "fb_of (next_line s) = fb_of s"
  by (simp add: next_line_def Let_def fb_of_def)

lemma fb_of_cursor [simp]: "fb_of (cx_update f s) = fb_of s" "fb_of (cy_update g s) = fb_of s"
  by (simp_all add: fb_of_def)

lemma fb_of_putc [simp]: "fb_of (tty_putc c s) = fb_of s"
  by (simp add: tty_putc_def Let_def)

lemma fb_of_render [simp]: "fb_of (render e s) = fb_of s"
  by (cases e) (simp_all add: tty_clear_def)

text \<open>No store of the terminal leaves the framebuffer.\<close>

definition confined :: "'a tty_state_scheme \<Rightarrow> 'a tty_state_scheme \<Rightarrow> bool" where
  "confined s t \<longleftrightarrow> fb_of t = fb_of s \<and> (fb_ok s \<longrightarrow> (\<forall>a. a \<notin> fb_region s \<longrightarrow> mem t a = mem s a))"

lemma confined_refl [simp]: "confined s s"
  by (simp add: confined_def)

lemma confined_trans: "confined s t \<Longrightarrow> confined t u \<Longrightarrow> confined s u"
  using fb_of_eqD2 [of t s] by (auto simp: confined_def)

lemma confined_draw [simp]: "confined s t \<Longrightarrow> confined s (draw px py c k t)"
proof -
  assume "confined s t"
  moreover have "confined t (draw px py c k t)"
    by (simp add: confined_def draw_def fbcputchar_frame)
  ultimately show "confined s (draw px py c k t)" by (rule confined_trans)
qed

lemma confined_cursor [simp]:
  "confined s (cx_update f t) = confined s t" "confined s (cy_update g t) = confined s t"
  by (simp_all add: confined_def)

lemma confined_next_line [simp]: "confined s (next_line t) = confined s t"
  by (simp add: next_line_def Let_def)

lemma confined_putc: "confined s (tty_putc c s)"
  by (simp add: tty_putc_def Let_def)

lemma confined_clear: "confined s (tty_clear s)"
  by (simp add: tty_clear_def) (simp add: confined_def fb_fill_frame)

lemma tty_clear_wf: "tty_wf (tty_clear s)"
  by (simp add: tty_clear_def tty_wf_def)

lemma confined_area: "confined s t \<Longrightarrow> fb_region t = fb_region s \<and> fb_ok t = fb_ok s"
  using fb_of_eqD2 [of t s] by (simp add: confined_def)

interpretation tty: console tty_putc tty_clear "\<lambda>s. tty_wf s \<and> fb_ok s" fb_region mem
proof unfold_locales
  fix s :: "'a tty_state_scheme" and c a
  assume wf: "tty_wf s \<and> fb_ok s"
  note put = confined_putc [of s c] and wipe = confined_clear [of s]
  show "tty_wf (tty_putc c s) \<and> fb_ok (tty_putc c s)" "tty_wf (tty_clear s) \<and> fb_ok (tty_clear s)"
    using wf tty_putc_cursor confined_area [OF put] confined_area [OF wipe] tty_clear_wf by auto
  show "fb_region (tty_putc c s) = fb_region s" "fb_region (tty_clear s) = fb_region s"
    using confined_area [OF put] confined_area [OF wipe] by auto
  show "a \<notin> fb_region s \<Longrightarrow> mem (tty_putc c s) a = mem s a"
    "a \<notin> fb_region s \<Longrightarrow> mem (tty_clear s) a = mem s a"
    using wf put wipe by (auto simp: confined_def)
qed

lemma render_show_event: "render = show_event tty_putc tty_clear"
proof (intro ext)
  fix e and s :: "'a tty_state_scheme"
  show "render e s = show_event tty_putc tty_clear e s" by (cases e) simp_all
qed

text \<open>
  A character with a glyph shows in its cell: first the cell is blanked with the solid glyph of
  \<open>\b\<close>, then the next cell gets the cursor, then the glyph is drawn.
\<close>

definition cell_pixel :: "'a tty_state_scheme \<Rightarrow> 'a tty_state_scheme \<Rightarrow> nat \<Rightarrow> nat \<Rightarrow> u8 list" where
  "cell_pixel p s x y = pixel s (ucast (cx p) + of_nat x) (ucast (cy p) + of_nat y)"

lemma pixel_cursor [simp]:
  "pixel (cx_update f s) X Y = pixel s X Y" "pixel (cy_update f s) X Y = pixel s X Y"
  "pixel (next_line s) X Y = pixel s X Y"
  by (simp_all add: pixel_def pixel_at_def depth_def next_line_def Let_def)

lemma tty_putc_shows:
  assumes "tty_wf s" and "fb_ok s" and "font_get c FONT_BASIC8X8 = Some f" and "c \<noteq> BS"
    and xy: "x < 9" "y < 16" and on: "on_screen s (ucast (cx s) + of_nat x) (ucast (cy s) + of_nat y)"
  shows "cell_pixel s (tty_putc c s) x y =
    pixel_bytes (depth s) (if c \<noteq> CHR '' '' \<and> rows f ! y ! x = CHR ''#'' then 0xFFFFFFFF else 0)"
proof -
  obtain b where b: "font_get BS FONT_BASIC8X8 = Some b" "rows b ! y ! x = CHR ''#''"
    using solid_BS xy by blast
  let ?X = "ucast (cx s) + of_nat x :: u32" and ?Y = "ucast (cy s) + of_nat y :: u32"
  let ?s1 = "draw (cx s) (cy s) BS BGC s"
  let ?s2 = "draw (cx s + 9) (cy s) (CHR ''_'') 0xFFFFFFFF ?s1"
  have fb: "fb_ok t \<and> depth t = depth s \<and> on_screen t ?X ?Y" if "fb_of t = fb_of s" for t :: "'a tty_state_scheme"
    using fb_of_eqD [OF that] fb_of_eqD2 [OF that] assms(2) on by simp
  have 1: "pixel ?s1 ?X ?Y = pixel_bytes (depth s) 0"
    using fbcputchar_cell [OF assms(2) b(1) xy on] b(2) by (simp add: draw_def BGC_def)
  have "unat (cx s) < 1440" using assms(1) by (simp add: tty_wf_def)
  then have next_cell: "unat (cx s + 9) = unat (cx s) + 9" by (simp add: unat_word_ariths)
  have "?X \<noteq> ucast (cx s + 9) + of_nat x'" if "x' < 9" for x'
  proof -
    have "ucast (cx s + 9) = (ucast (cx s) + of_nat 9 :: u32)"
      using next_cell \<open>unat (cx s) < 1440\<close> by (simp add: word_unat_eq_iff unsigned_ucast_eq unat_word_ariths take_bit_nat_eq_self)
    then have "ucast (cx s + 9) + of_nat x' = (ucast (cx s) + of_nat (9 + x') :: u32)"
      by simp
    then show ?thesis using offset_eq_iff [of x "9 + x'" "ucast (cx s)"] xy that by simp
  qed
  then have 2: "pixel ?s2 ?X ?Y = pixel_bytes (depth s) 0"
    using fbcputchar_elsewhere [of ?s1 ?X ?Y "cx s + 9"] fb [of ?s1] 1 by (simp add: draw_def)
  have control: "c \<noteq> NL" "c \<noteq> TAB" "c \<noteq> CR"
    using assms(3) font_get_None [of c] by auto
  let ?k = "if c = CHR '' '' then BGC else 0xFFFFFFFF"
  let ?s3 = "draw (cx s) (cy s) c ?k ?s2"
  have "tty_putc c s = (if cx (?s3\<lparr>cx := cx ?s3 + 9\<rparr>) \<ge> SCREEN_WIDTH then next_line (?s3\<lparr>cx := cx ?s3 + 9\<rparr>)
      else ?s3\<lparr>cx := cx ?s3 + 9\<rparr>)"
    using control assms(4) by (simp add: tty_putc_def Let_def)
  then have "cell_pixel s (tty_putc c s) x y = pixel ?s3 ?X ?Y" by (simp add: cell_pixel_def)
  also have "\<dots> = (if rows f ! y ! x = CHR ''#'' then pixel_bytes (depth s) ?k else pixel_bytes (depth s) 0)"
    using fbcputchar_cell [OF _ assms(3) xy, of ?s2 "cx s" "cy s" ?k] fb [of ?s2] 2 by (simp add: draw_def)
  finally show ?thesis by (simp add: BGC_def)
qed

section \<open>Properties\<close>

text \<open>A 1440 by 800 screen of 32-bit pixels, as the terminal expects it.\<close>

definition screen_state :: tty_state where
  "screen_state = \<lparr>mem = (\<lambda>_. 0), con = [], ports = [], ticks = 0, halted = False, stuck = False,
     fb_addr = 0xE0000000, fb_width = 1440, fb_height = 800, fb_pitch = 5760, fb_bpp = 32, cx = 0, cy = 0\<rparr>"

lemma screen_ok: "tty_wf screen_state" "fb_ok screen_state" "depth screen_state = 4" "on_screen screen_state 3 2"
  by (simp_all add: screen_state_def tty_wf_def fb_ok_def depth_def Let_def on_screen_def)

text \<open>
  C22: whatever the kernel prints, the terminal never stores outside the framebuffer, and its
  cursor stays on the grid of 160 by 50 cells.
\<close>

theorem tty_confined:
  assumes "tty_wf s" and "fb_ok s" and "a \<notin> fb_region s"
  shows "mem (fold render es s) a = mem s a \<and> tty_wf (fold render es s)"
  using tty.transcript [of s es] assms unfolding render_show_event by simp

lemma tty_confined_witness:
  "mem (fold render [Out (CHR ''x''), Out NL, Clr] screen_state) 0x1000 = 0"
proof -
  have "0x1000 \<notin> fb_region screen_state"
    by (simp add: fb_region_def screen_state_def region_unat)
  note confined = tty_confined [OF screen_ok(1,2) this, of "[Out (CHR ''x''), Out NL, Clr]"]
  have "mem screen_state 0x1000 = 0" by (simp add: screen_state_def)
  with confined show ?thesis by (simp only:)
qed

text \<open>
  C23: the pixel arithmetic of \<open>tty_putc\<close> on its 16-bit cursor is the machine \<open>cursor_step\<close> on a grid
  of 160 columns and 50 rows (\<open>SCREEN_WIDTH\<close> is 80 times two characters): newline, backspace over line starts, the tab and the wrap at the right and
  bottom edges.
\<close>

theorem tty_putc_refines_cursor:
  assumes "tty_wf s"
  shows "tty_wf (tty_putc c s) \<and> cursor (tty_putc c s) = cursor_step c (cursor s)"
  using assms by (rule tty_putc_cursor)

lemma tty_putc_refines_cursor_witness: "cursor (tty_putc (CHR ''x'') screen_state) = (1, 0)"
  using tty_putc_refines_cursor [OF screen_ok(1), of "CHR ''x''"]
  by (simp add: cursor_def screen_state_def cursor_step_def)

text \<open>
  C35: after \<open>tty_putc\<close> of a character that has a glyph, every visible pixel of the cell the
  cursor was on shows the glyph in white on black (a space shows black).
\<close>

theorem tty_putc_draws_glyph:
  assumes "tty_wf s" and "fb_ok s" and "font_get c FONT_BASIC8X8 = Some f" and "c \<noteq> BS"
    and "x < 9" and "y < 16" and "on_screen s (ucast (cx s) + of_nat x) (ucast (cy s) + of_nat y)"
  shows "pixel (tty_putc c s) (ucast (cx s) + of_nat x) (ucast (cy s) + of_nat y) =
    pixel_bytes (depth s) (if c \<noteq> CHR '' '' \<and> rows f ! y ! x = CHR ''#'' then 0xFFFFFFFF else 0)"
  using tty_putc_shows [OF assms] by (simp add: cell_pixel_def)

lemma glyph_one: "font_get (CHR ''1'') FONT_BASIC8X8 = Some (font_1 ! 8)"
  by (simp add: font_get_def basic8x8_def font_tables)

lemma tty_putc_draws_glyph_witness:
  "pixel (tty_putc (CHR ''1'') screen_state) 3 2 =
     pixel_bytes 4 (if rows (font_1 ! 8) ! 2 ! 3 = CHR ''#'' then 0xFFFFFFFF else 0)"
proof -
  have "on_screen screen_state (ucast (cx screen_state) + of_nat 3) (ucast (cy screen_state) + of_nat 2)"
    by (simp add: screen_state_def on_screen_def)
  from tty_putc_draws_glyph [OF screen_ok(1,2) glyph_one _ _ _ this] show ?thesis
    by (simp add: screen_ok) (simp add: screen_state_def)
qed

text \<open>
  \<open>fb_fill\<close> gives every pixel of the screen the colour, in the encoding of the depth, and
  changes no byte outside the framebuffer.
\<close>

lemma fb_fill_paints:
  assumes "fb_ok s"
  shows "(\<forall>x y. on_screen s x y \<longrightarrow> pixel (fb_fill c s) x y = pixel_bytes (depth s) c)
    \<and> (\<forall>a. a \<notin> fb_region s \<longrightarrow> mem (fb_fill c s) a = mem s a)"
  using fb_fill_pixel [OF assms] fb_fill_frame [OF assms] by blast

lemma fb_fill_paints_witness: "pixel (fb_fill 0x00FF00 screen_state) 3 2 = [0, 0xFF, 0, 0]"
  using fb_fill_paints [OF screen_ok(2), of "0x00FF00"] screen_ok(3,4)
  by (simp add: pixel_bytes_def byte_n_def)

text \<open>
  \<open>fb_putpixel\<close> sets the pixel it names when it is on the screen, no other pixel, and
  nothing when it is off the screen.
\<close>

lemma fb_putpixel_independent:
  assumes "fb_ok s" and "on_screen s x' y'"
  shows "pixel (fb_putpixel x y c s) x' y' =
      (if (x, y) = (x', y') then pixel_bytes (depth s) c else pixel s x' y')
    \<and> (\<not> on_screen s x y \<longrightarrow> fb_putpixel x y c s = s)"
  using pixel_putpixel [OF assms] by (simp add: fb_putpixel_eq)

lemma fb_putpixel_independent_witness:
  "pixel (fb_putpixel 3 2 0x0000FF screen_state) 3 2 = [0xFF, 0, 0, 0]"
  using fb_putpixel_independent [OF screen_ok(2,4), of 3 2 "0x0000FF"] screen_ok(3)
  by (simp add: pixel_bytes_def byte_n_def)

end
