(* ===== verification/Vga.thy ===== *)
theory Vga
  imports Console Lib_Base
begin

text \<open>
  \<open>kernel/drivers/vga.c\<close> and \<open>kernel/drivers/tty_vtm.c\<close>, the text-mode terminal, kept in the tree
  and left out of the default build: 80 by 25 cells of a character and an attribute byte at
  \<open>0xb8000\<close>, the hardware cursor behind two ports, and the line device above it.
\<close>

section \<open>vga.c\<close>

definition VGA_WIDTH :: nat where "VGA_WIDTH = 80"
definition VGA_HEIGHT :: nat where "VGA_HEIGHT = 25"
definition video :: u32 where "video = 0xb8000"

record vga_state = kernel +
  cursor_x :: nat
  cursor_y :: nat

definition ecursorsync :: "'a vga_state_scheme \<Rightarrow> 'a vga_state_scheme" where
  "ecursorsync s =
     (let pos = (of_nat (cursor_y s * VGA_WIDTH + cursor_x s) :: u16);
          s = outb 0x3D4 0x0F s;
          s = outb 0x3D5 (ucast (pos AND 0xFF)) s;
          s = outb 0x3D4 0x0E s
      in outb 0x3D5 (ucast (drop_bit 8 pos AND 0xFF)) s)"

definition set_cell :: "nat \<Rightarrow> char \<Rightarrow> 'a vga_state_scheme \<Rightarrow> 'a vga_state_scheme" where
  "set_cell pos c s =
     s\<lparr>mem := (mem s)(video + of_nat pos := byte_of_char c, video + of_nat (pos + 1) := 0x07)\<rparr>"

definition eclear :: "'a vga_state_scheme \<Rightarrow> 'a vga_state_scheme" where
  "eclear s =
     (let s = fold (\<lambda>i. set_cell (2 * i) (CHR '' '')) [0..<VGA_WIDTH * VGA_HEIGHT] s
      in ecursorsync (s\<lparr>cursor_x := 0, cursor_y := 0\<rparr>))"

definition eputchar :: "char \<Rightarrow> 'a vga_state_scheme \<Rightarrow> 'a vga_state_scheme" where
  "eputchar c s =
     (let s = (if c = NL then s\<lparr>cursor_x := 0, cursor_y := cursor_y s + 1\<rparr>
               else
                (let pos = (cursor_y s * VGA_WIDTH + cursor_x s) * 2;
                     s = set_cell pos c s;
                     s = s\<lparr>cursor_x := cursor_x s + 1\<rparr>
                 in if cursor_x s \<ge> VGA_WIDTH then s\<lparr>cursor_x := 0, cursor_y := cursor_y s + 1\<rparr> else s));
          s = (if cursor_y s \<ge> VGA_HEIGHT then eclear s else s)
      in ecursorsync s)"

definition eprintf :: "string \<Rightarrow> 'a vga_state_scheme \<Rightarrow> 'a vga_state_scheme" where
  "eprintf t s = fold eputchar t s"

definition vga_wf :: "'a vga_state_scheme \<Rightarrow> bool" where
  "vga_wf s \<longleftrightarrow> cursor_x s < 80 \<and> cursor_y s < 25"

definition vga_area :: "u32 set" where
  "vga_area = region video 4000"

text \<open>The character shown at a cell.\<close>

definition cell :: "'a vga_state_scheme \<Rightarrow> nat \<Rightarrow> nat \<Rightarrow> char" where
  "cell s x y = char_of_byte (mem s (video + of_nat ((y * 80 + x) * 2)))"

lemma ecursorsync_state [simp]:
  "mem (ecursorsync s) = mem s" "cursor_x (ecursorsync s) = cursor_x s" "cursor_y (ecursorsync s) = cursor_y s"
  by (simp_all add: ecursorsync_def outb_def Let_def)

lemma set_cell_state [simp]:
  "cursor_x (set_cell p c s) = cursor_x s" "cursor_y (set_cell p c s) = cursor_y s"
  by (simp_all add: set_cell_def)

lemma set_cell_outside: "p + 1 < 4000 \<Longrightarrow> a \<notin> vga_area \<Longrightarrow> mem (set_cell p c s) a = mem s a"
  using region_memberI [of p 4000 video] region_memberI [of "p + 1" 4000 video]
  by (auto simp: set_cell_def vga_area_def)

lemma clear_cells:
  "n \<le> 2000 \<Longrightarrow> a \<notin> vga_area \<Longrightarrow> mem (fold (\<lambda>i. set_cell (2 * i) c) [0..<n] s) a = mem s a"
  "cursor_x (fold (\<lambda>i. set_cell (2 * i) c) [0..<n] s) = cursor_x s"
  "cursor_y (fold (\<lambda>i. set_cell (2 * i) c) [0..<n] s) = cursor_y s"
  by (induction n) (auto simp: set_cell_outside fold_frame)

lemma set_cell_cell:
  assumes "i < 2000" and "y * 80 + x < 2000"
  shows "cell (set_cell (2 * i) c s) x y = (if y * 80 + x = i then c else cell s x y)"
proof -
  define k where "k = y * 80 + x"
  have neq: "video + of_nat p \<noteq> video + of_nat q" if "p \<noteq> q" "p < 4000" "q < 4000" for p q
    using that offset_eq_iff [of p q video] by simp
  have k: "k < 2000" using assms(2) by (simp add: k_def)
  have odd: "video + of_nat (k * 2) \<noteq> video + of_nat (2 * i + 1)"
    using k assms(1) by (intro neq) presburger+
  have even: "video + of_nat (k * 2) \<noteq> video + of_nat (2 * i)" if "k \<noteq> i"
    using k assms(1) that by (intro neq) presburger+
  have same: "k = i \<Longrightarrow> video + of_nat (k * 2) = video + of_nat (2 * i)" by (simp add: mult.commute)
  have mem: "mem (s\<lparr>mem := m\<rparr>) = m" for m by simp
  show ?thesis
    unfolding cell_def set_cell_def k_def [symmetric] mem fun_upd_apply using odd even same
    by (cases "k = i") (simp_all only: if_True if_False char_of_byte_of_char not_False_eq_True refl)
qed

lemma fold_clear_cell:
  "n \<le> 2000 \<Longrightarrow> y * 80 + x < 2000 \<Longrightarrow>
     cell (fold (\<lambda>i. set_cell (2 * i) c) [0..<n] s) x y = (if y * 80 + x < n then c else cell s x y)"
  by (induction n) (auto simp: set_cell_cell)

lemma eclear_state:
  "vga_wf (eclear s)" "a \<notin> vga_area \<Longrightarrow> mem (eclear s) a = mem s a"
  "x < 80 \<Longrightarrow> y < 25 \<Longrightarrow> cell (eclear s) x y = CHR '' ''"
proof -
  have cell_sync: "cell (ecursorsync t) x y = cell t x y" "cell (t\<lparr>cursor_x := 0, cursor_y := 0\<rparr>) x y = cell t x y"
    for t :: "'a vga_state_scheme" by (simp_all add: cell_def)
  show "vga_wf (eclear s)" by (simp add: vga_wf_def eclear_def Let_def)
  show "a \<notin> vga_area \<Longrightarrow> mem (eclear s) a = mem s a"
    by (simp add: eclear_def Let_def VGA_WIDTH_def VGA_HEIGHT_def clear_cells del: upt_rec_numeral)
  show "x < 80 \<Longrightarrow> y < 25 \<Longrightarrow> cell (eclear s) x y = CHR '' ''"
    by (simp add: eclear_def Let_def VGA_WIDTH_def VGA_HEIGHT_def cell_sync fold_clear_cell del: upt_rec_numeral)
qed

lemma eputchar_cases:
  "eputchar c s = ecursorsync
     (let s = (if c = NL then s\<lparr>cursor_x := 0, cursor_y := cursor_y s + 1\<rparr>
               else let s' = set_cell ((cursor_y s * 80 + cursor_x s) * 2) c s
                    in if cursor_x s + 1 \<ge> 80 then s'\<lparr>cursor_x := 0, cursor_y := cursor_y s + 1\<rparr>
                       else s'\<lparr>cursor_x := cursor_x s + 1\<rparr>)
      in if cursor_y s \<ge> 25 then eclear s else s)"
  by (simp add: eputchar_def Let_def VGA_WIDTH_def VGA_HEIGHT_def)

lemma ecursorsync_wf [simp]: "vga_wf (ecursorsync s) = vga_wf s"
  by (simp add: vga_wf_def)

lemma eputchar_wf: "vga_wf s \<Longrightarrow> vga_wf (eputchar c s)"
  by (auto simp: eputchar_cases Let_def eclear_state(1)) (auto simp: vga_wf_def)

lemma eputchar_outside:
  assumes "vga_wf s" and "a \<notin> vga_area"
  shows "mem (eputchar c s) a = mem s a"
proof -
  have "(cursor_y s * 80 + cursor_x s) * 2 + 1 < 4000" using assms(1) by (simp add: vga_wf_def)
  then show ?thesis
    using assms(2) by (auto simp: eputchar_cases Let_def eclear_state(2) set_cell_outside)
qed

text \<open>A visible character lands in the cell under the cursor, which moves on, unless the screen is full.\<close>

lemma cell_sync [simp]: "cell (ecursorsync t) x y = cell t x y"
  "cell (t\<lparr>cursor_x := n\<rparr>) x y = cell t x y" "cell (t\<lparr>cursor_x := n, cursor_y := k\<rparr>) x y = cell t x y"
  by (simp_all add: cell_def)

lemma eputchar_cell:
  assumes "vga_wf s" and "c \<noteq> NL" and "\<not> (cursor_x s = 79 \<and> cursor_y s = 24)" and "x < 80" and "y < 25"
  shows "cell (eputchar c s) x y = (if (x, y) = (cursor_x s, cursor_y s) then c else cell s x y)
    \<and> (cursor_x (eputchar c s), cursor_y (eputchar c s))
        = (if cursor_x s = 79 then (0, cursor_y s + 1) else (cursor_x s + 1, cursor_y s))"
proof -
  let ?i = "cursor_y s * 80 + cursor_x s"
  have i: "?i < 2000" "y * 80 + x < 2000" using assms by (simp_all add: vga_wf_def)
  have same: "y * 80 + x = ?i \<longleftrightarrow> (x, y) = (cursor_x s, cursor_y s)"
  proof
    assume "y * 80 + x = ?i"
    then have "(y * 80 + x) mod 80 = ?i mod 80" "(y * 80 + x) div 80 = ?i div 80" by simp_all
    then show "(x, y) = (cursor_x s, cursor_y s)" using assms by (simp add: vga_wf_def)
  qed simp
  have "cell (set_cell (?i * 2) c s) x y = (if (x, y) = (cursor_x s, cursor_y s) then c else cell s x y)"
    using set_cell_cell [OF i, of c s] unfolding same by (simp only: mult.commute)
  moreover have "cursor_x s < 80" "cursor_y s < 25" using assms(1) by (simp_all add: vga_wf_def)
  ultimately show ?thesis using assms(2,3) by (auto simp: eputchar_cases Let_def)
qed

text \<open>
  The screen as a list of 2000 characters and a position in it. \<open>screen_put\<close> is the reference:
  a character goes to the position, a newline to the next multiple of 80, and passing the end
  gives a blank screen.
\<close>

definition screen_put :: "char \<Rightarrow> string \<times> nat \<Rightarrow> string \<times> nat" where
  "screen_put c x =
     (let q = (if c = NL then (snd x div 80 + 1) * 80 else snd x + 1)
      in if q < 2000 then (if c = NL then fst x else (fst x)[snd x := c], q) else (replicate 2000 (CHR '' ''), 0))"

definition vga_pos :: "'a vga_state_scheme \<Rightarrow> nat" where
  "vga_pos s = cursor_y s * 80 + cursor_x s"

definition vga_screen :: "'a vga_state_scheme \<Rightarrow> string \<times> nat" where
  "vga_screen s = (map (\<lambda>k. cell s (k mod 80) (k div 80)) [0..<2000], vga_pos s)"

lemma vga_screen_eqI:
  assumes "length t = 2000" and "vga_pos s = p" and "\<And>k. k < 2000 \<Longrightarrow> cell s (k mod 80) (k div 80) = t ! k"
  shows "vga_screen s = (t, p)"
proof -
  have "map (\<lambda>k. cell s (k mod 80) (k div 80)) [0..<2000] = t"
    by (rule nth_equalityI) (simp_all add: assms(1,3) del: upt_rec_numeral)
  then show ?thesis by (simp add: vga_screen_def assms(2) del: upt_rec_numeral)
qed

lemma vga_screen_nth: "k < 2000 \<Longrightarrow> fst (vga_screen s) ! k = cell s (k mod 80) (k div 80)"
  and length_vga_screen: "length (fst (vga_screen s)) = 2000"
  and snd_vga_screen: "snd (vga_screen s) = vga_pos s"
  by (simp_all add: vga_screen_def del: upt_rec_numeral)

lemma eclear_screen: "vga_screen (ecursorsync (eclear s)) = (replicate 2000 (CHR '' ''), 0)"
proof (rule vga_screen_eqI)
  show "vga_pos (ecursorsync (eclear s)) = 0" by (simp add: vga_pos_def eclear_def Let_def)
  show "cell (ecursorsync (eclear s)) (k mod 80) (k div 80) = replicate 2000 (CHR '' '') ! k" if "k < 2000" for k
    using that by (simp add: eclear_state(3) less_mult_imp_div_less)
qed simp

lemma eputchar_full:
  assumes "vga_wf s" and "2000 \<le> (if c = NL then (vga_pos s div 80 + 1) * 80 else vga_pos s + 1)"
  shows "\<exists>t. eputchar c s = ecursorsync (eclear t)"
proof -
  have "vga_pos s div 80 = cursor_y s" "cursor_x s < 80" "cursor_y s < 25"
    using assms(1) by (simp_all add: vga_wf_def vga_pos_def)
  then have "if c = NL then cursor_y s = 24 else cursor_x s = 79 \<and> cursor_y s = 24"
    using assms(2) by (auto simp: vga_pos_def split: if_splits)
  then show ?thesis by (auto simp: eputchar_cases Let_def split: if_splits)
qed

lemma eputchar_screen:
  assumes "vga_wf s"
  shows "vga_screen (eputchar c s) = screen_put c (vga_screen s)"
proof -
  have bound: "cursor_x s < 80" "cursor_y s < 25" and line: "vga_pos s div 80 = cursor_y s" "vga_pos s mod 80 = cursor_x s"
    using assms by (simp_all add: vga_wf_def vga_pos_def)
  consider (full) "2000 \<le> (if c = NL then (vga_pos s div 80 + 1) * 80 else vga_pos s + 1)"
    | (newline) "c = NL" "cursor_y s + 1 < 25" | (visible) "c \<noteq> NL" "vga_pos s + 1 < 2000"
    by (cases "2000 \<le> (if c = NL then (vga_pos s div 80 + 1) * 80 else vga_pos s + 1)"; cases "c = NL") (simp_all add: line)
  then show ?thesis
  proof cases
    case full
    with eputchar_full [OF assms full] show ?thesis by (auto simp: eclear_screen screen_put_def Let_def snd_vga_screen)
  next
    case newline
    have "vga_screen (eputchar c s) = (fst (vga_screen s), (cursor_y s + 1) * 80)"
      by (rule vga_screen_eqI)
        (use newline in \<open>simp_all add: eputchar_cases vga_screen_nth length_vga_screen, simp add: vga_pos_def\<close>)
    then show ?thesis using newline by (simp add: screen_put_def Let_def snd_vga_screen line)
  next
    case visible
    then have last: "\<not> (cursor_x s = 79 \<and> cursor_y s = 24)" by (auto simp: vga_pos_def)
    note put = eputchar_cell [OF assms visible(1) last]
    have "vga_screen (eputchar c s) = ((fst (vga_screen s))[vga_pos s := c], vga_pos s + 1)"
    proof (rule vga_screen_eqI)
      show "vga_pos (eputchar c s) = vga_pos s + 1"
        using put [of 0 0] bound by (auto simp: vga_pos_def split: if_splits)
      fix k :: nat assume k: "k < 2000"
      have "(k mod 80, k div 80) = (cursor_x s, cursor_y s) \<longleftrightarrow> k = vga_pos s"
        using line div_mult_mod_eq [of k 80] by (metis prod.inject vga_pos_def)
      then show "cell (eputchar c s) (k mod 80) (k div 80) = (fst (vga_screen s))[vga_pos s := c] ! k"
        using put [of "k mod 80" "k div 80"] k
        by (simp add: nth_list_update vga_screen_nth length_vga_screen less_mult_imp_div_less eq_commute [of "vga_pos s"])
    qed (simp add: length_vga_screen)
    then show ?thesis using visible by (simp add: screen_put_def Let_def snd_vga_screen)
  qed
qed

interpretation vga: console eputchar eclear vga_wf "\<lambda>_. vga_area" mem
  by unfold_locales (auto simp: eputchar_wf eclear_state eputchar_outside)

lemma eprintf_shown: "eprintf t s = fold (show_event eputchar eclear) (map Out t) s"
  by (induction t arbitrary: s) (simp_all add: eprintf_def)

text \<open>
  C24: the text terminal against a plain screen. Whatever \<open>eprintf\<close> prints, from whatever
  state of the cursor, the 2000 cells and the cursor are those of the reference screen after the
  same characters, the wrap at column 80 and the wiped screen after the last line included; the
  cursor stays on the screen and no byte outside the video memory changes.
\<close>

theorem eprintf_refines_screen:
  assumes "vga_wf s"
  shows "vga_screen (eprintf t s) = fold screen_put t (vga_screen s) \<and> vga_wf (eprintf t s)
    \<and> {a. mem (eprintf t s) a \<noteq> mem s a} \<subseteq> vga_area"
proof (intro conjI)
  show "vga_screen (eprintf t s) = fold screen_put t (vga_screen s)"
    using assms by (induction t arbitrary: s) (simp_all add: eprintf_def eputchar_wf eputchar_screen)
  show "vga_wf (eprintf t s)" "{a. mem (eprintf t s) a \<noteq> mem s a} \<subseteq> vga_area"
    using vga.transcript [OF assms, of "map Out t"] unfolding eprintf_shown by auto
qed

lemma eprintf_refines_screen_witness:
  "\<exists>s :: vga_state. vga_wf s \<and> vga_screen (eprintf [CHR ''a'', NL, CHR ''b''] s)
    = fold screen_put [CHR ''a'', NL, CHR ''b''] (vga_screen s)"
proof -
  have "vga_wf \<lparr>mem = \<lambda>_. 0, con = [], ports = [], ticks = 0, halted = False, stuck = False, cursor_x = 79, cursor_y = 23\<rparr>"
    by (simp add: vga_wf_def)
  then show ?thesis using eprintf_refines_screen by blast
qed

section \<open>tty_vtm.c\<close>

definition TTY_MAX :: nat where "TTY_MAX = 128"

record tty_dev =
  l_open :: int
  input_buf :: "char list"
  output_buf :: "char list"
  input_pos :: nat
  output_pos :: nat

definition l_init :: "tty_dev \<Rightarrow> int \<times> tty_dev" where
  "l_init td =
     (0, td\<lparr>l_open := 1, input_pos := 0, output_pos := 0,
            input_buf := fold (\<lambda>i b. b[i := NUL]) [0..<TTY_MAX] (input_buf td),
            output_buf := fold (\<lambda>i b. b[i := NUL]) [0..<TTY_MAX] (output_buf td)\<rparr>)"

definition l_set_raw :: "nat \<Rightarrow> int \<times> nat" where
  "l_set_raw l_mode = (0, 1)"

definition l_restore :: "nat \<Rightarrow> int \<times> nat" where
  "l_restore l_mode = (0, 0)"

text \<open>The loop of \<open>l_write\<close> from \<open>rw\<close> on; \<open>c\<close> is the array the caller passes, of at least \<open>len\<close>.\<close>

function l_write_loop ::
    "tty_dev \<Rightarrow> string \<Rightarrow> nat \<Rightarrow> nat \<Rightarrow> 'a vga_state_scheme \<Rightarrow> nat \<times> tty_dev \<times> 'a vga_state_scheme" where
  "l_write_loop td c len rw s =
     (if rw < len \<and> output_pos td < TTY_MAX then
        (let h = c ! rw
         in l_write_loop (td\<lparr>output_buf := (output_buf td)[output_pos td := h], output_pos := output_pos td + 1\<rparr>)
              c len (rw + 1) (eputchar h s))
      else (rw, td, s))"
  by pat_completeness auto
termination
  by (relation "measure (\<lambda>(td, c, len, rw, s). len - rw)") auto

declare l_write_loop.simps [simp del]

definition l_write ::
    "tty_dev \<Rightarrow> string \<Rightarrow> nat \<Rightarrow> 'a vga_state_scheme \<Rightarrow> nat \<times> tty_dev \<times> 'a vga_state_scheme" where
  "l_write td c len s = l_write_loop td c len 0 s"

text \<open>\<open>l_read\<close> answers 1 when there is nothing, else the first character as an \<open>int\<close>.\<close>

definition l_read :: "tty_dev \<Rightarrow> int \<times> tty_dev" where
  "l_read td =
     (if input_pos td = 0 then (1, td)
      else
       (let dt = input_buf td ! 0;
            buf = fold (\<lambda>i b. b[i := b ! (i + 1)]) [0..<input_pos td - 1] (input_buf td)
        in (sint (byte_of_char dt), td\<lparr>input_buf := buf, input_pos := input_pos td - 1\<rparr>)))"

text \<open>\<open>l_wait\<close> halts the processor until an interrupt; \<open>intr\<close> is what its handler does to the device.\<close>

partial_function (option) l_wait :: "(tty_dev \<Rightarrow> tty_dev) \<Rightarrow> tty_dev \<Rightarrow> (int \<times> tty_dev) option" where
  "l_wait intr td = (if input_pos td = 0 then l_wait intr (intr td) else Some (0, td))"

definition l_close :: "tty_dev \<Rightarrow> tty_dev" where
  "l_close td = td\<lparr>l_open := - 1\<rparr>"

definition l_clear :: "'a vga_state_scheme \<Rightarrow> 'a vga_state_scheme" where
  "l_clear s = fold (\<lambda>i. set_cell (2 * i) (CHR '' '')) [0..<80 * 25] s"

definition l_set_cur_p :: "int \<Rightarrow> int \<Rightarrow> 'a vga_state_scheme \<Rightarrow> 'a vga_state_scheme" where
  "l_set_cur_p r d s =
     (let pos = (of_int (r * 80 + d) :: u16);
          s = outb 0x3D4 0x0F s;
          s = outb 0x3D5 (ucast (pos AND 0xFF)) s;
          s = outb 0x3D4 0x0E s
      in outb 0x3D5 (ucast (drop_bit 8 pos AND 0xFF)) s)"

definition l_hide_cur :: "'a vga_state_scheme \<Rightarrow> 'a vga_state_scheme" where
  "l_hide_cur s = outb 0x3D5 0x20 (outb 0x3D4 0x0A s)"

definition l_show_cur :: "'a vga_state_scheme \<Rightarrow> 'a vga_state_scheme" where
  "l_show_cur s = outb 0x3D5 0x0F (outb 0x3D4 0x0B (outb 0x3D5 0x0E (outb 0x3D4 0x0A s)))"

lemma shift_down:
  "n < length b \<Longrightarrow> fold (\<lambda>i b. b[i := b ! (i + 1)]) [0..<n] b = take n (tl b) @ drop n b"
proof (induction n)
  case (Suc n)
  then have tl: "take (Suc n) (tl b) = take n (tl b) @ [b ! Suc n]"
    by (simp add: take_Suc_conv_app_nth nth_tl)
  have len: "length (take n (tl b)) = n" using Suc.prems by simp
  have "(take n (tl b) @ drop n b) ! Suc n = b ! Suc n"
    using Suc.prems len by (simp add: nth_append)
  moreover have "drop n b = b ! n # drop (Suc n) b" using Suc.prems by (simp add: Cons_nth_drop_Suc)
  ultimately show ?case using Suc len by (simp add: list_update_append tl)
qed simp

text \<open>\<open>l_read\<close> takes the first of the characters waiting.\<close>

lemma l_read_first:
  assumes "input_pos td \<le> length (input_buf td)" and "0 < input_pos td"
  shows "fst (l_read td) = sint (byte_of_char (hd (take (input_pos td) (input_buf td))))
    \<and> take (input_pos (snd (l_read td))) (input_buf (snd (l_read td))) = tl (take (input_pos td) (input_buf td))"
proof -
  obtain n where n: "input_pos td = Suc n" using assms(2) by (cases "input_pos td") auto
  then have "fold (\<lambda>i b. b[i := b ! (i + 1)]) [0..<n] (input_buf td) = take n (tl (input_buf td)) @ drop n (input_buf td)"
    using assms(1) by (intro shift_down) simp
  then show ?thesis using n assms(1)
    by (cases "input_buf td") (simp_all add: l_read_def Let_def)
qed

text \<open>\<open>l_write\<close> takes what still fits the output buffer and echoes it.\<close>

lemma l_write_loop_eq:
  assumes "output_pos td \<le> 128" and "length (output_buf td) = 128" and "len \<le> length c" and "rw \<le> len"
  defines "n \<equiv> min (len - rw) (128 - output_pos td)"
  shows "l_write_loop td c len rw s =
    (rw + n, td\<lparr>output_buf := take (output_pos td) (output_buf td) @ take n (drop rw c) @ drop (output_pos td + n) (output_buf td),
       output_pos := output_pos td + n\<rparr>, eprintf (take n (drop rw c)) s)"
  using assms(1-4) unfolding n_def
proof (induction td c len rw s rule: l_write_loop.induct)
  case (1 td c len rw s)
  show ?case
  proof (cases "rw < len \<and> output_pos td < 128")
    case True
    let ?td = "td\<lparr>output_buf := (output_buf td)[output_pos td := c ! rw], output_pos := output_pos td + 1\<rparr>"
    let ?n = "min (len - rw) (128 - output_pos td)" and ?m = "min (len - (rw + 1)) (128 - output_pos ?td)"
    have n: "?n = Suc ?m" using True by auto
    have d: "drop rw c = c ! rw # drop (rw + 1) c" using True "1.prems" by (simp add: Cons_nth_drop_Suc)
    have t: "take (output_pos ?td) (output_buf ?td) = take (output_pos td) (output_buf td) @ [c ! rw]"
      using True "1.prems" by (simp add: take_Suc_conv_app_nth)
    have "l_write_loop td c len rw s = l_write_loop ?td c len (rw + 1) (eputchar (c ! rw) s)"
      using True by (subst l_write_loop.simps) (simp add: TTY_MAX_def Let_def)
    also have "\<dots> = (rw + 1 + ?m, ?td\<lparr>output_buf := take (output_pos ?td) (output_buf ?td) @ take ?m (drop (rw + 1) c)
          @ drop (output_pos ?td + ?m) (output_buf ?td), output_pos := output_pos ?td + ?m\<rparr>,
        eprintf (take ?m (drop (rw + 1) c)) (eputchar (c ! rw) s))"
      using True "1.prems" by (intro "1.IH") (simp_all add: TTY_MAX_def)
    finally show ?thesis unfolding n d t by (simp add: eprintf_def)
  next
    case False
    then show ?thesis using "1.prems" by (subst l_write_loop.simps) (auto simp: TTY_MAX_def eprintf_def)
  qed
qed

text \<open>Waiting on an empty device never ends unless a handler fills it; no handler of the kernel does.\<close>

lemma l_wait_hangs:
  assumes "\<forall>td. input_pos td = 0 \<longrightarrow> input_pos (intr td) = 0" and "input_pos td = 0"
  shows "l_wait intr td = None"
proof (rule ccontr)
  assume "l_wait intr td \<noteq> None"
  then obtain r where r: "l_wait intr td = Some r" by blast
  let ?P = "\<lambda>intr td (r :: int \<times> tty_dev). (\<forall>td. input_pos td = 0 \<longrightarrow> input_pos (intr td) = 0) \<longrightarrow> input_pos td \<noteq> 0"
  have "?P intr td r"
  proof (rule l_wait.raw_induct [where P = ?P, OF _ r])
    fix f intr td r
    assume "\<And>intr td r. f intr td = Some r \<Longrightarrow> ?P intr td r"
      and "(if input_pos td = 0 then f intr (intr td) else Some (0, td)) = Some r"
    then show "?P intr td r" by (metis (no_types, lifting))
  qed
  then show False using assms by blast
qed

end
