(* ===== verification/Machine.thy ===== *)
theory Machine
  imports Prelude
begin

text \<open>
  The i686 instructions the kernel's assembly uses, over a record of registers and the flat
  memory: enough to run the interrupt stubs and the context switch as they are written. \<open>call\<close>
  pushes its return address (an address the linker chose, \<open>link\<close>), the C function \<open>body\<close> runs on the
  stack as it then is, and its \<open>ret\<close> drops the address again.
\<close>

record machine_regs =
  eax :: u32
  ebx :: u32
  ecx :: u32
  edx :: u32
  esi :: u32
  edi :: u32
  ebp :: u32
  esp :: u32
  eip :: u32
  cs :: u32
  eflags :: u32

datatype reg = EAX | EBX | ECX | EDX | ESI | EDI | EBP | ESP

fun reg_get :: "reg \<Rightarrow> machine_regs \<Rightarrow> u32" where
  "reg_get EAX r = eax r"
| "reg_get EBX r = ebx r"
| "reg_get ECX r = ecx r"
| "reg_get EDX r = edx r"
| "reg_get ESI r = esi r"
| "reg_get EDI r = edi r"
| "reg_get EBP r = ebp r"
| "reg_get ESP r = esp r"

fun reg_set :: "reg \<Rightarrow> u32 \<Rightarrow> machine_regs \<Rightarrow> machine_regs" where
  "reg_set EAX v r = r\<lparr>eax := v\<rparr>"
| "reg_set EBX v r = r\<lparr>ebx := v\<rparr>"
| "reg_set ECX v r = r\<lparr>ecx := v\<rparr>"
| "reg_set EDX v r = r\<lparr>edx := v\<rparr>"
| "reg_set ESI v r = r\<lparr>esi := v\<rparr>"
| "reg_set EDI v r = r\<lparr>edi := v\<rparr>"
| "reg_set EBP v r = r\<lparr>ebp := v\<rparr>"
| "reg_set ESP v r = r\<lparr>esp := v\<rparr>"

datatype instr =
    Push reg
  | PushI u32
  | Pop reg
  | Load u32 reg reg       \<comment> \<open>\<open>movl off(base), dst\<close>\<close>
  | Store reg reg          \<comment> \<open>\<open>movl src, (base)\<close>\<close>
  | Mov reg reg            \<comment> \<open>\<open>movl src, dst\<close>\<close>
  | AddEsp u32
  | Pusha
  | Popa
  | Ret
  | Iret
  | Call string

type_synonym 'a machine = "machine_regs \<times> 'a kernel_scheme"

record 'a callee =
  link :: "string \<Rightarrow> u32"
  body :: "string \<Rightarrow> 'a machine \<Rightarrow> 'a machine"

definition push :: "u32 \<Rightarrow> 'a machine \<Rightarrow> 'a machine" where
  "push v = (\<lambda>(r, s). (r\<lparr>esp := esp r - 4\<rparr>, s\<lparr>mem := st32 (esp r - 4) v (mem s)\<rparr>))"

definition top :: "'a machine \<Rightarrow> u32" where
  "top = (\<lambda>(r, s). ld32 (mem s) (esp r))"

definition drop_top :: "'a machine \<Rightarrow> 'a machine" where
  "drop_top = (\<lambda>(r, s). (r\<lparr>esp := esp r + 4\<rparr>, s))"

definition pop_reg :: "reg \<Rightarrow> 'a machine \<Rightarrow> 'a machine" where
  "pop_reg d x = (let v = top x in case drop_top x of (r, s) \<Rightarrow> (reg_set d v r, s))"

definition push_reg :: "reg \<Rightarrow> 'a machine \<Rightarrow> 'a machine" where
  "push_reg a x = push (reg_get a (fst x)) x"

fun exec1 :: "'a callee \<Rightarrow> instr \<Rightarrow> 'a machine \<Rightarrow> 'a machine" where
  "exec1 f (Push a) x = push_reg a x"
| "exec1 f (PushI v) x = push v x"
| "exec1 f (Pop d) x = pop_reg d x"
| "exec1 f (Load off b d) x = (reg_set d (ld32 (mem (snd x)) (reg_get b (fst x) + off)) (fst x), snd x)"
| "exec1 f (Store a b) x = (fst x, (snd x)\<lparr>mem := st32 (reg_get b (fst x)) (reg_get a (fst x)) (mem (snd x))\<rparr>)"
| "exec1 f (Mov a d) x = (reg_set d (reg_get a (fst x)) (fst x), snd x)"
| "exec1 f (AddEsp n) x = ((fst x)\<lparr>esp := esp (fst x) + n\<rparr>, snd x)"
| "exec1 f Pusha x =
     (let e = esp (fst x)
      in push_reg EDI (push_reg ESI (push_reg EBP (push e (push_reg EBX (push_reg EDX (push_reg ECX (push_reg EAX x))))))))"
| "exec1 f Popa x =
     pop_reg EAX (pop_reg ECX (pop_reg EDX (pop_reg EBX (drop_top (pop_reg EBP (pop_reg ESI (pop_reg EDI x)))))))"
| "exec1 f Ret x = (let v = top x in case drop_top x of (r, s) \<Rightarrow> (r\<lparr>eip := v\<rparr>, s))"
| "exec1 f Iret x =
     (let ip = top x; x = drop_top x; c = top x; x = drop_top x; fl = top x; x = drop_top x
      in ((fst x)\<lparr>eip := ip, cs := c, eflags := fl\<rparr>, snd x))"
| "exec1 f (Call g) x = drop_top (body f g (push (link f g) x))"

definition exec :: "'a callee \<Rightarrow> instr list \<Rightarrow> 'a machine \<Rightarrow> 'a machine" where
  "exec f code x = fold (exec1 f) code x"

text \<open>
  What the processor does when it takes an interrupt in ring 0 through a gate: push the flags,
  the code segment and the address to return to, and go to the handler (with interrupts off;
  the flag itself is not modelled).
\<close>

definition interrupt :: "u32 \<Rightarrow> 'a machine \<Rightarrow> 'a machine" where
  "interrupt handler x =
     (case push (eip (fst x)) (push (cs (fst x)) (push (eflags (fst x)) x)) of
        (r, s) \<Rightarrow> (r\<lparr>eip := handler\<rparr>, s))"

lemma exec_simps [simp]:
  "exec f [] x = x" "exec f (i # is) x = exec f is (exec1 f i x)"
  by (simp_all add: exec_def)

lemma exec_append: "exec f (xs @ ys) x = exec f ys (exec f xs x)"
  by (simp add: exec_def)

section \<open>Frames a call leaves alone\<close>

lemma ld32_frame:
  assumes "\<forall>a \<in> region p n. m' a = m a" and "k + 4 \<le> n"
  shows "ld32 m' (p + of_nat k) = ld32 m (p + of_nat k)"
proof (rule ld32_cong, intro ballI)
  fix x assume "x \<in> region (p + of_nat k) 4"
  then have "x \<in> region p n"
    using region_offset [of p k 4] region_mono [OF assms(2), of p] by blast
  then show "m' x = m x" using assms(1) by blast
qed

lemma st32_in_region: "a \<notin> region p n \<Longrightarrow> k + 4 \<le> n \<Longrightarrow> st32 (p + of_nat k) v m a = m a"
  using region_offset [of p k 4] region_mono [of "k + 4" n p] by (intro st32_outside) blast

text \<open>
  The calling convention: a C function returns with \<open>ebx\<close>, \<open>esi\<close>, \<open>edi\<close>, \<open>ebp\<close> and \<open>esp\<close> as
  they were, and leaves the \<open>n\<close> bytes of its caller's frame from \<open>esp + off\<close> on as they were
  (below them lie its return address and its arguments, which are its own).
\<close>

definition cdecl :: "'a callee \<Rightarrow> string \<Rightarrow> u32 \<Rightarrow> nat \<Rightarrow> bool" where
  "cdecl f g off n \<longleftrightarrow> (\<forall>r s r' s'. body f g (r, s) = (r', s') \<longrightarrow>
     ebx r' = ebx r \<and> esi r' = esi r \<and> edi r' = edi r \<and> ebp r' = ebp r \<and> esp r' = esp r
     \<and> (\<forall>a \<in> region (esp r + off) n. mem s' a = mem s a))"

lemmas machine_run = push_def top_def drop_top_def pop_reg_def push_reg_def interrupt_def Let_def

end
