(* ===== verification/Fifo.thy ===== *)
theory Fifo
  imports Main
begin

text \<open>
  The contract of a bounded queue between a producer that drops what does not fit and a
  consumer that asks for one item: \<open>items\<close> is what the queue holds, oldest first. The client
  lemma says that whatever the order of the calls, the items delivered and the items still
  held are together exactly the items accepted, in order.
\<close>

datatype 'a fifo_op = Put 'a | Get

locale bounded_fifo =
  fixes put :: "'a \<Rightarrow> 's \<Rightarrow> 's"
    and get :: "'s \<Rightarrow> 'a option \<times> 's"
    and items :: "'s \<Rightarrow> 'a list"
    and room :: nat
    and wf :: "'s \<Rightarrow> bool"
  assumes put_wf: "wf s \<Longrightarrow> wf (put x s)"
    and get_wf: "wf s \<Longrightarrow> wf (snd (get s))"
    and items_room: "wf s \<Longrightarrow> length (items s) \<le> room"
    and put_items: "wf s \<Longrightarrow> items (put x s) = (if length (items s) < room then items s @ [x] else items s)"
    and get_empty: "wf s \<Longrightarrow> items s = [] \<Longrightarrow> get s = (None, s)"
    and get_items: "wf s \<Longrightarrow> items s = x # xs \<Longrightarrow> fst (get s) = Some x \<and> items (snd (get s)) = xs"
begin

text \<open>One call, with what has been accepted and what has been delivered so far.\<close>

definition accepts :: "'s \<Rightarrow> bool" where
  "accepts s \<longleftrightarrow> length (items s) < room"

fun call :: "'a fifo_op \<Rightarrow> 's \<times> 'a list \<times> 'a list \<Rightarrow> 's \<times> 'a list \<times> 'a list" where
  "call (Put x) (s, acc, del) = (put x s, if accepts s then acc @ [x] else acc, del)"
| "call Get (s, acc, del) = (case get s of (None, s') \<Rightarrow> (s', acc, del) | (Some x, s') \<Rightarrow> (s', acc, del @ [x]))"

lemma call_history:
  assumes "wf s" and "del @ items s = acc" and "call c (s, acc, del) = (s', acc', del')"
  shows "wf s' \<and> del' @ items s' = acc'"
proof (cases c)
  case (Put x)
  then show ?thesis using assms put_wf put_items by (auto simp: accepts_def)
next
  case Get
  show ?thesis
  proof (cases "items s")
    case Nil
    then have "get s = (None, s)" using get_empty assms(1) by blast
    then show ?thesis using assms Get Nil by auto
  next
    case (Cons x xs)
    then show ?thesis
      using assms Get get_items [OF assms(1) Cons] get_wf [OF assms(1)] by (cases "get s") auto
  qed
qed

lemma calls_history:
  assumes "wf s" and "del @ items s = acc" and "fold call cs (s, acc, del) = (s', acc', del')"
  shows "wf s' \<and> del' @ items s' = acc' \<and> length (items s') \<le> room"
  using assms
proof (induction cs arbitrary: s acc del)
  case Nil
  then show ?case using items_room by simp
next
  case (Cons c cs)
  obtain t acc1 del1 where c: "call c (s, acc, del) = (t, acc1, del1)" by (cases "call c (s, acc, del)") auto
  then have "wf t \<and> del1 @ items t = acc1" using call_history Cons.prems by blast
  moreover have "fold call cs (t, acc1, del1) = (s', acc', del')" using Cons.prems(3) c by simp
  ultimately show ?case using Cons.IH by blast
qed

end

end
