(* ===== verification/Keyboard.thy ===== *)
theory Keyboard
  imports Prelude Fifo
begin

text \<open>
  \<open>kernel/drivers/keyboard.c\<close>: the interrupt handler that turns scan codes into characters and
  the ring buffer of 256 it shares with \<open>get_key\<close>. What the two port reads of the handler
  return is its argument \<open>inb\<close>.
\<close>

definition KBDBUF :: nat where "KBDBUF = 256"

record kbd =
  kbd_buffer :: "char list"
  kbd_head :: nat
  kbd_tail :: nat
  shift :: bool

definition kbd_boot :: kbd where
  "kbd_boot = \<lparr>kbd_buffer = replicate KBDBUF NUL, kbd_head = 0, kbd_tail = 0, shift = False\<rparr>"

definition kbdus :: "char list" where
  "kbdus = [NUL, CHR 0x1B] @ ''1234567890-='' @ [BS, TAB]
     @ ''qwertyuiop[]'' @ [NL, NUL]
     @ ''asdfghjkl;'' @ [CHR 0x27, CHR 0x60, NUL, BSLASH]
     @ ''zxcvbnm,./'' @ [NUL, CHR ''*'', NUL, CHR '' '', NUL]
     @ replicate 69 NUL"

definition kbdus_shift :: "char list" where
  "kbdus_shift = [NUL, CHR 0x1B] @ ''!@#$%^&*()_+'' @ [BS, TAB]
     @ ''QWERTYUIOP{}'' @ [NL, NUL]
     @ ''ASDFGHJKL:'' @ [CHR 0x22, CHR ''~'', NUL, CHR ''|'']
     @ ''ZXCVBNM<>?'' @ [NUL, CHR ''*'', NUL, CHR '' '', NUL]
     @ replicate 69 NUL"

text \<open>The ring buffer's \<open>if (next != kbd_tail)\<close> block, then the handler around it.\<close>

definition kbd_put :: "char \<Rightarrow> 'a kbd_scheme \<Rightarrow> 'a kbd_scheme" where
  "kbd_put c s =
     (let next = (kbd_head s + 1) mod KBDBUF in
      if next \<noteq> kbd_tail s
      then s\<lparr>kbd_buffer := (kbd_buffer s)[kbd_head s := c], kbd_head := next\<rparr>
      else s)"

definition keyboardirqh :: "(u16 \<Rightarrow> u8) \<Rightarrow> 'a kbd_scheme \<Rightarrow> 'a kbd_scheme" where
  "keyboardirqh inb s =
     (let status = inb 0x64 in
      if status AND 1 = 0 then s
      else
       (let sc = inb 0x60 in
        if sc = 0x2A \<or> sc = 0x36 then s\<lparr>shift := True\<rparr>
        else if sc = 0xAA \<or> sc = 0xB6 then s\<lparr>shift := False\<rparr>
        else if sc AND 0x80 \<noteq> 0 then s
        else
         (let c = (if shift s then kbdus_shift ! unat sc else kbdus ! unat sc)
          in if c \<noteq> NUL then kbd_put c s else s)))"

definition get_key :: "'a kbd_scheme \<Rightarrow> char option \<times> 'a kbd_scheme" where
  "get_key s =
     (if kbd_head s = kbd_tail s then (None, s)
      else (Some (kbd_buffer s ! kbd_tail s), s\<lparr>kbd_tail := (kbd_tail s + 1) mod KBDBUF\<rparr>))"

section \<open>The ring buffer is a queue\<close>

definition kbd_wf :: "'a kbd_scheme \<Rightarrow> bool" where
  "kbd_wf s \<longleftrightarrow> length (kbd_buffer s) = KBDBUF \<and> kbd_head s < KBDBUF \<and> kbd_tail s < KBDBUF"

definition kbd_count :: "'a kbd_scheme \<Rightarrow> nat" where
  "kbd_count s = (kbd_head s + KBDBUF - kbd_tail s) mod KBDBUF"

definition kbd_items :: "'a kbd_scheme \<Rightarrow> char list" where
  "kbd_items s = map (\<lambda>i. kbd_buffer s ! ((kbd_tail s + i) mod KBDBUF)) [0..<kbd_count s]"

lemma tables_length: "length kbdus = 128" "length kbdus_shift = 128"
  by (simp_all add: kbdus_def kbdus_shift_def)

lemma kbd_count_less: "kbd_count s < 256"
  by (simp add: kbd_count_def KBDBUF_def)

lemma length_kbd_items [simp]: "length (kbd_items s) = kbd_count s"
  by (simp add: kbd_items_def)

text \<open>The modular positions, unfolded.\<close>

lemma slot: "t < 256 \<Longrightarrow> i \<le> 256 \<Longrightarrow> (t + i) mod 256 = (if t + i < 256 then t + i else t + i - 256)" for t :: nat
  by (simp add: mod_if)

lemma kbd_count_eq:
  "kbd_wf s \<Longrightarrow> kbd_count s =
     (if kbd_tail s \<le> kbd_head s then kbd_head s - kbd_tail s else kbd_head s + 256 - kbd_tail s)"
  by (auto simp: kbd_wf_def kbd_count_def KBDBUF_def mod_if)

lemma kbd_full_iff:
  "kbd_wf s \<Longrightarrow> (kbd_head s + 1) mod KBDBUF = kbd_tail s \<longleftrightarrow> kbd_count s = 255"
  using slot [of "kbd_head s" 1] by (auto simp: kbd_count_eq kbd_wf_def KBDBUF_def split: if_splits)

lemma kbd_empty_iff: "kbd_wf s \<Longrightarrow> kbd_head s = kbd_tail s \<longleftrightarrow> kbd_count s = 0"
  by (auto simp: kbd_count_eq kbd_wf_def KBDBUF_def)

lemma kbd_head_slot: "kbd_wf s \<Longrightarrow> (kbd_tail s + kbd_count s) mod KBDBUF = kbd_head s"
  by (auto simp: kbd_count_eq kbd_wf_def KBDBUF_def)

lemma slot_eq_iff:
  "t < 256 \<Longrightarrow> i < 256 \<Longrightarrow> j < 256 \<Longrightarrow> ((t + i) mod 256 = (t + j) mod 256) \<longleftrightarrow> i = (j :: nat)"
  by (auto simp: slot split: if_splits)

lemma kbd_put_wf: "kbd_wf s \<Longrightarrow> kbd_wf (kbd_put c s)"
  by (simp add: kbd_wf_def kbd_put_def Let_def KBDBUF_def)

lemma get_key_wf: "kbd_wf s \<Longrightarrow> kbd_wf (snd (get_key s))"
  by (simp add: kbd_wf_def get_key_def KBDBUF_def)

lemma kbd_put_items:
  assumes "kbd_wf s"
  shows "kbd_items (kbd_put c s)
    = (if length (kbd_items s) < 255 then kbd_items s @ [c] else kbd_items s)"
proof (cases "kbd_count s < 255")
  case False
  then have "kbd_count s = 255" using kbd_count_less [of s] by simp
  then have "kbd_put c s = s" using kbd_full_iff [OF assms] by (simp add: kbd_put_def Let_def)
  then show ?thesis using False by simp
next
  case True
  let ?s = "kbd_put c s"
  have s': "?s = s\<lparr>kbd_buffer := (kbd_buffer s)[kbd_head s := c], kbd_head := (kbd_head s + 1) mod KBDBUF\<rparr>"
    using kbd_full_iff [OF assms] True by (simp add: kbd_put_def Let_def)
  have count: "kbd_count ?s = Suc (kbd_count s)"
    using assms True kbd_put_wf [OF assms, of c] slot [of "kbd_head s" 1] kbd_count_eq [of ?s]
    by (auto simp: kbd_count_eq [OF assms] s' kbd_wf_def KBDBUF_def split: if_splits)
  have len: "length (kbd_buffer s) = 256" "kbd_head s < 256"
    using assms by (simp_all add: kbd_wf_def KBDBUF_def)
  have "kbd_buffer ?s ! ((kbd_tail s + i) mod 256) = kbd_buffer s ! ((kbd_tail s + i) mod 256)"
    if "i < kbd_count s" for i
  proof -
    have "(kbd_tail s + i) mod 256 \<noteq> kbd_head s"
      using kbd_head_slot [OF assms] slot_eq_iff [of "kbd_tail s" i "kbd_count s"] that True assms
      by (simp add: KBDBUF_def kbd_wf_def)
    then show ?thesis by (simp add: s')
  qed
  moreover have "kbd_buffer ?s ! ((kbd_tail s + kbd_count s) mod 256) = c"
    using kbd_head_slot [OF assms] len by (simp add: s' KBDBUF_def)
  moreover have "kbd_tail ?s = kbd_tail s" by (simp add: s')
  ultimately show ?thesis using True by (simp add: kbd_items_def count KBDBUF_def)
qed

lemma get_key_empty: "kbd_wf s \<Longrightarrow> kbd_items s = [] \<Longrightarrow> get_key s = (None, s)"
  using kbd_empty_iff [of s] by (simp add: get_key_def kbd_items_def)

lemma get_key_items:
  assumes "kbd_wf s" and "kbd_items s = x # xs"
  shows "fst (get_key s) = Some x \<and> kbd_items (snd (get_key s)) = xs"
proof -
  have n: "0 < kbd_count s" using assms(2) length_kbd_items [of s] by (simp del: length_kbd_items)
  then have get: "get_key s = (Some (kbd_buffer s ! kbd_tail s), s\<lparr>kbd_tail := (kbd_tail s + 1) mod KBDBUF\<rparr>)"
    (is "_ = (_, ?s)")
    using kbd_empty_iff [OF assms(1)] by (simp add: get_key_def)
  have bounds: "kbd_head s < 256" "kbd_tail s < 256" using assms(1) by (simp_all add: kbd_wf_def KBDBUF_def)
  have wf': "kbd_wf ?s" using get_key_wf [OF assms(1)] get by simp
  have tail': "kbd_tail ?s = (if kbd_tail s = 255 then 0 else kbd_tail s + 1)" "kbd_head ?s = kbd_head s"
    using bounds slot [of "kbd_tail s" 1] by (auto simp: KBDBUF_def)
  have count: "kbd_count ?s = kbd_count s - 1"
    using n bounds unfolding kbd_count_eq [OF wf'] kbd_count_eq [OF assms(1)] tail'
    by (cases "kbd_tail s \<le> kbd_head s"; cases "kbd_tail s = 255") auto
  have up: "[0..<kbd_count s] = 0 # map Suc [0..<kbd_count s - 1]"
    using n by (cases "kbd_count s") (simp_all add: upt_conv_Cons map_Suc_upt del: upt_Suc)
  have "kbd_items s = kbd_buffer s ! kbd_tail s # kbd_items ?s"
    using assms(1) unfolding kbd_items_def up count
    by (simp add: kbd_wf_def KBDBUF_def mod_Suc_eq comp_def) (simp add: mod_add_left_eq)
  then show ?thesis using assms(2) get by simp
qed

lemma kbd_items_room: "kbd_wf s \<Longrightarrow> length (kbd_items s) \<le> 255"
  using kbd_count_less [of s] by simp

interpretation kbd: bounded_fifo kbd_put get_key kbd_items 255 kbd_wf
  by (unfold_locales; fact kbd_put_wf get_key_wf kbd_items_room kbd_put_items get_key_empty get_key_items)

section \<open>get_key interrupted anywhere\<close>

text \<open>The character a call of the handler produces, if any.\<close>

definition key_of :: "(u16 \<Rightarrow> u8) \<Rightarrow> 'a kbd_scheme \<Rightarrow> char option" where
  "key_of inb s =
     (let sc = inb 0x60; c = (if shift s then kbdus_shift else kbdus) ! unat sc in
      if inb 0x64 AND 1 = 0 \<or> sc \<in> {0x2A, 0x36, 0xAA, 0xB6} \<or> sc AND 0x80 \<noteq> 0 \<or> c = NUL
      then None else Some c)"

lemma keyboardirqh_cases:
  obtains (key) c where "key_of inb s = Some c" "keyboardirqh inb s = kbd_put c s"
  | (none) b where "key_of inb s = None" "keyboardirqh inb s = s\<lparr>shift := b\<rparr>"
proof (cases "inb 0x64 AND 1 = 0")
  case True
  then show thesis using none [of "shift s"] by (simp add: keyboardirqh_def key_of_def)
next
  case ready: False
  let ?sc = "inb 0x60" and ?c = "(if shift s then kbdus_shift else kbdus) ! unat (inb 0x60)"
  consider (down) "?sc = 0x2A \<or> ?sc = 0x36" | (up) "?sc = 0xAA \<or> ?sc = 0xB6"
    | (release) "\<not> (?sc = 0x2A \<or> ?sc = 0x36)" "\<not> (?sc = 0xAA \<or> ?sc = 0xB6)" "?sc AND 0x80 \<noteq> 0 \<or> ?c = NUL"
    | (press) "\<not> (?sc = 0x2A \<or> ?sc = 0x36)" "\<not> (?sc = 0xAA \<or> ?sc = 0xB6)" "?sc AND 0x80 = 0" "?c \<noteq> NUL"
    by blast
  then show thesis
  proof cases
    case down
    then show thesis using none [of True] ready by (auto simp: keyboardirqh_def key_of_def Let_def)
  next
    case up
    then show thesis using none [of False] ready by (auto simp: keyboardirqh_def key_of_def Let_def)
  next
    case release
    then show thesis using none [of "shift s"] ready
      by (cases "shift s"; auto simp: keyboardirqh_def key_of_def Let_def)
  next
    case press
    then show thesis using key [of ?c] ready
      by (cases "shift s"; auto simp: keyboardirqh_def key_of_def Let_def)
  qed
qed

lemma kbd_shift_update [simp]: "kbd_items (s\<lparr>shift := b\<rparr>) = kbd_items s" "kbd_wf (s\<lparr>shift := b\<rparr>) = kbd_wf s"
  by (simp_all add: kbd_items_def kbd_count_def kbd_wf_def)

text \<open>
  \<open>get_key\<close> as the machine runs it: the test, the load from the buffer and the store to
  \<open>kbd_tail\<close> are three steps, and the handler, which runs with interrupts off, may come between
  any two. The rest of the state is what has been accepted into the buffer and what \<open>get_key\<close>
  has delivered.
\<close>

datatype getter = Idle | Seen | Loaded char

type_synonym kbd_run = "kbd \<times> getter \<times> char list \<times> char list"

inductive kbd_step :: "kbd_run \<Rightarrow> kbd_run \<Rightarrow> bool" where
  irq: "kbd_step (s, pc, acc, del)
    (keyboardirqh inb s, pc,
     acc @ (case key_of inb s of Some c \<Rightarrow> if length (kbd_items s) < 255 then [c] else [] | None \<Rightarrow> []), del)"
| test_empty: "kbd_head s = kbd_tail s \<Longrightarrow> kbd_step (s, Idle, acc, del) (s, Idle, acc, del)"
| test_seen: "kbd_head s \<noteq> kbd_tail s \<Longrightarrow> kbd_step (s, Idle, acc, del) (s, Seen, acc, del)"
| load: "kbd_step (s, Seen, acc, del) (s, Loaded (kbd_buffer s ! kbd_tail s), acc, del)"
| advance: "kbd_step (s, Loaded c, acc, del)
    (s\<lparr>kbd_tail := (kbd_tail s + 1) mod KBDBUF\<rparr>, Idle, acc, del @ [c])"

definition kbd_inv :: "kbd_run \<Rightarrow> bool" where
  "kbd_inv r = (case r of (s, pc, acc, del) \<Rightarrow> kbd_wf s \<and> del @ kbd_items s = acc
     \<and> (case pc of Idle \<Rightarrow> True | Seen \<Rightarrow> kbd_items s \<noteq> [] | Loaded c \<Rightarrow> \<exists>xs. kbd_items s = c # xs))"

lemma kbd_items_append:
  assumes "kbd_wf s"
  shows "kbd_wf (keyboardirqh inb s) \<and> kbd_items (keyboardirqh inb s) = kbd_items s
    @ (case key_of inb s of Some c \<Rightarrow> if length (kbd_items s) < 255 then [c] else [] | None \<Rightarrow> [])"
  by (rule keyboardirqh_cases [of inb s]) (auto simp: kbd_put_wf kbd_put_items assms)

lemma kbd_items_hd:
  assumes "kbd_wf s" and "kbd_items s \<noteq> []"
  shows "\<exists>xs. kbd_items s = kbd_buffer s ! kbd_tail s # xs \<and> kbd_head s \<noteq> kbd_tail s"
proof -
  obtain x xs where x: "kbd_items s = x # xs" using assms(2) by (cases "kbd_items s") auto
  then have ne: "kbd_head s \<noteq> kbd_tail s"
    using kbd_empty_iff [OF assms(1)] by (auto simp: kbd_items_def)
  with get_key_items [OF assms(1) x] x show ?thesis by (simp add: get_key_def)
qed

lemma kbd_step_inv: "kbd_step r r' \<Longrightarrow> kbd_inv r \<Longrightarrow> kbd_inv r'"
proof (induction rule: kbd_step.induct)
  case (irq s pc acc del inb)
  then show ?case using kbd_items_append [of s inb] by (auto simp: kbd_inv_def split: getter.splits)
next
  case (test_seen s acc del)
  then have "kbd_count s \<noteq> 0" using kbd_empty_iff by (auto simp: kbd_inv_def)
  then show ?case using test_seen by (auto simp: kbd_inv_def kbd_items_def)
next
  case (load s acc del)
  then show ?case using kbd_items_hd [of s] by (auto simp: kbd_inv_def)
next
  case (advance s c acc del)
  then obtain xs where c: "kbd_wf s" "del @ c # xs = acc" "kbd_items s = c # xs" by (auto simp: kbd_inv_def)
  then have "get_key s = (Some c, s\<lparr>kbd_tail := (kbd_tail s + 1) mod KBDBUF\<rparr>)"
    using kbd_items_hd [OF c(1)] by (auto simp: get_key_def)
  then show ?case using get_key_items [OF c(1,3)] get_key_wf [OF c(1)] c(2) by (simp add: kbd_inv_def)
qed (simp add: kbd_inv_def)

lemma kbd_boot_inv: "kbd_inv (kbd_boot, Idle, [], [])"
  by (simp add: kbd_inv_def kbd_boot_def kbd_wf_def kbd_items_def kbd_count_def KBDBUF_def)

lemma kbd_run_inv: "kbd_step\<^sup>*\<^sup>* (kbd_boot, Idle, [], []) r \<Longrightarrow> kbd_inv r"
  by (induction rule: rtranclp_induct) (auto intro: kbd_boot_inv kbd_step_inv)

section \<open>Properties\<close>

text \<open>
  C7: however the keyboard interrupt falls between the three memory accesses of \<open>get_key\<close>, the
  characters delivered followed by those still in the ring buffer are exactly the characters
  the handler accepted, in order: nothing is lost, repeated or reordered.
\<close>

theorem kbd_interleaving_safe:
  assumes "kbd_step\<^sup>*\<^sup>* (kbd_boot, Idle, [], []) (s, pc, acc, del)"
  shows "kbd_wf s \<and> del @ kbd_items s = acc"
  using kbd_run_inv [OF assms] by (simp add: kbd_inv_def)

definition press_a :: "u16 \<Rightarrow> u8" where
  "press_a p = (if p = 0x64 then 1 else 0x1E)"

lemma kbdus_a: "kbdus ! 30 = CHR ''a''"
  by code_simp

lemma press_a_state:
  "key_of press_a kbd_boot = Some (CHR ''a'')"
  "keyboardirqh press_a kbd_boot = kbd_put (CHR ''a'') kbd_boot"
  by (simp_all add: key_of_def keyboardirqh_def press_a_def kbd_boot_def kbdus_a Let_def)

lemma kbd_interleaving_safe_witness:
  "\<exists>s. kbd_step\<^sup>*\<^sup>* (kbd_boot, Idle, [], []) (s, Idle, ''a'', ''a'') \<and> kbd_items s = []"
proof -
  let ?s = "kbd_put (CHR ''a'') kbd_boot"
  let ?t = "?s\<lparr>kbd_tail := (kbd_tail ?s + 1) mod KBDBUF\<rparr>"
  have s: "kbd_head ?s \<noteq> kbd_tail ?s" "kbd_buffer ?s ! kbd_tail ?s = CHR ''a''"
    by (simp_all add: kbd_put_def kbd_boot_def KBDBUF_def)
  have room: "length (kbd_items kbd_boot) < 255"
    by (simp add: kbd_items_def kbd_count_def kbd_boot_def KBDBUF_def)
  have "kbd_step (kbd_boot, Idle, [], []) (?s, Idle, ''a'', [])"
    using kbd_step.irq [of kbd_boot Idle "[]" "[]" press_a] room by (simp add: press_a_state)
  moreover have "kbd_step (?s, Idle, ''a'', []) (?s, Seen, ''a'', [])"
    using s by (intro kbd_step.test_seen)
  moreover have "kbd_step (?s, Seen, ''a'', []) (?s, Loaded (CHR ''a''), ''a'', [])"
    using kbd_step.load [of ?s "''a''" "[]"] s by simp
  moreover have "kbd_step (?s, Loaded (CHR ''a''), ''a'', []) (?t, Idle, ''a'', ''a'')"
    using kbd_step.advance [of ?s "CHR ''a''" "''a''" "[]"] by simp
  ultimately have run: "kbd_step\<^sup>*\<^sup>* (kbd_boot, Idle, [], []) (?t, Idle, ''a'', ''a'')"
    by (meson converse_rtranclp_into_rtranclp rtranclp.rtrancl_refl)
  then show ?thesis using kbd_interleaving_safe [OF run] by auto
qed

lemma kbdus_codes:
  "map of_char kbdus = ([0, 27, 49, 50, 51, 52, 53, 54, 55, 56, 57, 48, 45, 61, 8, 9, 113, 119, 101, 114, 116,
    121, 117, 105, 111, 112, 91, 93, 10, 0, 97, 115, 100, 102, 103, 104, 106, 107, 108,
    59, 39, 96, 0, 92, 122, 120, 99, 118, 98, 110, 109, 44, 46, 47, 0, 42, 0, 32, 0] :: nat list) @ replicate 69 0"
  "map of_char kbdus_shift = ([0, 27, 33, 64, 35, 36, 37, 94, 38, 42, 40, 41, 95, 43, 8, 9, 81, 87, 69, 82, 84, 89,
    85, 73, 79, 80, 123, 125, 10, 0, 65, 83, 68, 70, 71, 72, 74, 75, 76, 58, 34, 126, 0,
    124, 90, 88, 67, 86, 66, 78, 77, 60, 62, 63, 0, 42, 0, 32, 0] :: nat list) @ replicate 69 0"
  by (simp_all add: kbdus_def kbdus_shift_def)

lemma kbd_code_set:
  "set (([0, 27, 49, 50, 51, 52, 53, 54, 55, 56, 57, 48, 45, 61, 8, 9, 113, 119, 101, 114, 116,
    121, 117, 105, 111, 112, 91, 93, 10, 0, 97, 115, 100, 102, 103, 104, 106, 107, 108,
    59, 39, 96, 0, 92, 122, 120, 99, 118, 98, 110, 109, 44, 46, 47, 0, 42, 0, 32, 0] :: nat list) @ replicate 69 0) \<union> set (([0, 27, 33, 64, 35, 36, 37, 94, 38, 42, 40, 41, 95, 43, 8, 9, 81, 87, 69, 82, 84, 89,
    85, 73, 79, 80, 123, 125, 10, 0, 65, 83, 68, 70, 71, 72, 74, 75, 76, 58, 34, 126, 0,
    124, 90, 88, 67, 86, 66, 78, 77, 60, 62, 63, 0, 42, 0, 32, 0] :: nat list) @ replicate 69 0)
    = {0, 27, 8, 9, 10} \<union> {32..<127}"
  by (simp only: set_eq_subset atLeastLessThan_upt) (simp add: upt_rec_numeral)

text \<open>
  The two scan code tables together produce every printable ASCII character, and besides
  them only escape, backspace, tab and newline (and NUL for \<open>no key\<close>).
\<close>

lemma kbd_tables_complete:
  "set kbdus \<union> set kbdus_shift = set (map char_of [32 ..< (127 :: nat)]) \<union> {NUL, CHR 0x1B, BS, TAB, NL}"
proof -
  let ?code = "of_char :: char \<Rightarrow> nat"
  have tables: "?code ` (set kbdus \<union> set kbdus_shift) = {0, 27, 8, 9, 10} \<union> {32..<127}"
    unfolding image_Un set_map [symmetric] kbdus_codes kbd_code_set ..
  have "map ?code (map char_of [32 ..< (127 :: nat)]) = [32 ..< (127 :: nat)]"
    unfolding map_map comp_def by (rule map_idI) (simp del: upt_rec_numeral)
  then have ascii: "?code ` set (map char_of [32 ..< (127 :: nat)]) = {32..<127}"
    by (metis list.set_map set_upt)
  have control: "?code ` {NUL, CHR 0x1B, BS, TAB, NL} = {0, 27, 8, 9, 10}" by simp
  have "?code ` (set (map char_of [32 ..< (127 :: nat)]) \<union> {NUL, CHR 0x1B, BS, TAB, NL}) = {0, 27, 8, 9, 10} \<union> {32..<127}"
    unfolding image_Un ascii control by (rule Un_commute)
  with tables show ?thesis
    by (subst inj_image_eq_iff [OF inj_of_char [where 'a = nat], symmetric]) (rule trans [OF _ sym])
qed

end
