(* ===== verification/Interrupts.thy ===== *)
theory Interrupts
  imports Keyboard Log
begin

text \<open>
  The C part of \<open>kernel/int/interrupts.c\<close>: the timer's divisor, the two interrupt controllers,
  the interrupt descriptor table and the handlers. What a port read returns is the argument
  \<open>inb\<close>; the addresses the linker gives the assembly stubs and the table are \<open>symbols\<close>.
\<close>

section \<open>State\<close>

record idt_entry =
  offset_low :: u16
  selector :: u16
  zero_byte :: u8
  type_attr :: u8
  offset_high :: u16

record int_state = kernel +
  keyboard :: kbd
  pic_master_mask :: u8
  pic_slave_mask :: u8
  idt :: "idt_entry list"
  idt_limit :: u16
  idt_base :: u32
  idtr :: "u16 \<times> u32"

record symbols =
  isr_default_stub :: u32
  isr0_stub :: u32
  irq0_stub :: u32
  irq1_stub :: u32
  syscall_stub :: u32
  idt_symbol :: u32

definition PIC1_CMD :: u16 where "PIC1_CMD = 0x20"
definition PIC1_DATA :: u16 where "PIC1_DATA = 0x21"
definition PIC2_CMD :: u16 where "PIC2_CMD = 0xA0"
definition PIC2_DATA :: u16 where "PIC2_DATA = 0xA1"
definition PIC_EOI :: u8 where "PIC_EOI = 0x20"
definition PIT_CMD :: u16 where "PIT_CMD = 0x43"
definition PIT_CH0 :: u16 where "PIT_CH0 = 0x40"
definition PIT_BASE :: u32 where "PIT_BASE = 1193182"
definition IDT_SIZE :: nat where "IDT_SIZE = 256"

section \<open>Timer and controllers\<close>

definition pitsetfreq :: "u32 \<Rightarrow> 'a kernel_scheme \<Rightarrow> 'a kernel_scheme" where
  "pitsetfreq hz s =
     (if hz = 0 then s
      else
       (let d = (ucast (PIT_BASE div hz) :: u16);
            s = outb PIT_CMD 0x36 s;
            s = outb PIT_CH0 (ucast (d AND 0xFF)) s
        in outb PIT_CH0 (ucast (drop_bit 8 d AND 0xFF)) s))"

definition pic_remap :: "(u16 \<Rightarrow> u8) \<Rightarrow> u8 \<Rightarrow> u8 \<Rightarrow> 'a int_state_scheme \<Rightarrow> 'a int_state_scheme" where
  "pic_remap inb offset1 offset2 s =
     (let a1 = inb PIC1_DATA;
          a2 = inb PIC2_DATA;
          s = outb PIC1_CMD 0x11 s;
          s = outb PIC2_CMD 0x11 s;
          s = outb PIC1_DATA offset1 s;
          s = outb PIC2_DATA offset2 s;
          s = outb PIC1_DATA 4 s;
          s = outb PIC2_DATA 2 s;
          s = outb PIC1_DATA 0x01 s;
          s = outb PIC2_DATA 0x01 s;
          s = outb PIC1_DATA a1 s;
          s = outb PIC2_DATA a2 s
      in s\<lparr>pic_master_mask := a1, pic_slave_mask := a2\<rparr>)"

definition pic_setm :: "u8 \<Rightarrow> u8 \<Rightarrow> 'a int_state_scheme \<Rightarrow> 'a int_state_scheme" where
  "pic_setm mask1 mask2 s =
     outb PIC2_DATA mask2 (outb PIC1_DATA mask1 (s\<lparr>pic_master_mask := mask1, pic_slave_mask := mask2\<rparr>))"

definition pic_unm :: "u8 \<Rightarrow> 'a int_state_scheme \<Rightarrow> 'a int_state_scheme" where
  "pic_unm irq s =
     (if irq < 8 then
        (let s = s\<lparr>pic_master_mask := pic_master_mask s AND NOT (push_bit (unat irq) 1)\<rparr>
         in outb PIC1_DATA (pic_master_mask s) s)
      else
       (let irq = irq - 8;
            s = s\<lparr>pic_slave_mask := pic_slave_mask s AND NOT (push_bit (unat irq) 1)\<rparr>
        in outb PIC2_DATA (pic_slave_mask s) s))"

definition pic_eoi :: "u8 \<Rightarrow> 'a kernel_scheme \<Rightarrow> 'a kernel_scheme" where
  "pic_eoi irq s =
     (let s = (if irq \<ge> 8 then outb PIC2_CMD PIC_EOI s else s)
      in outb PIC1_CMD PIC_EOI s)"

section \<open>The descriptor table\<close>

definition gate :: "u32 \<Rightarrow> idt_entry" where
  "gate handler =
     \<lparr>offset_low = ucast (handler AND 0xFFFF), selector = 0x08, zero_byte = 0, type_attr = 0x8E,
      offset_high = ucast (drop_bit 16 handler AND 0xFFFF)\<rparr>"

definition setgate :: "u8 \<Rightarrow> u32 \<Rightarrow> 'a int_state_scheme \<Rightarrow> 'a int_state_scheme" where
  "setgate n handler s = s\<lparr>idt := (idt s)[unat n := gate handler]\<rparr>"

text \<open>The loop index is an \<open>int\<close> below 256, passed as a \<open>uint8_t\<close>.\<close>

definition int_init :: "(u16 \<Rightarrow> u8) \<Rightarrow> symbols \<Rightarrow> 'a int_state_scheme \<Rightarrow> 'a int_state_scheme" where
  "int_init inb y s =
     (let s = fold (\<lambda>i. setgate (of_nat i) (isr_default_stub y)) [0..<IDT_SIZE] s;
          s = setgate 0x00 (isr0_stub y) s;
          s = pic_remap inb 0x20 0x28 s;
          s = setgate (0x20 + 0) (irq0_stub y) s;
          s = setgate (0x20 + 1) (irq1_stub y) s;
          s = setgate 0x80 (syscall_stub y) s;
          s = s\<lparr>idt_limit := of_nat (8 * IDT_SIZE - 1), idt_base := idt_symbol y\<rparr>;
          s = pic_setm 0xFC 0xFF s
      in s\<lparr>idtr := (idt_limit s, idt_base s)\<rparr>)"

section \<open>Handlers\<close>

definition isr0h :: "cpuid \<Rightarrow> cpu_regs \<Rightarrow> u32 \<Rightarrow> 'a kernel_scheme \<Rightarrow> 'a kernel_scheme" where
  "isr0h cpuid r num s = panic cpuid ''cpu exception 0'' r s"

definition irq0h :: "'a kernel_scheme \<Rightarrow> 'a kernel_scheme" where
  "irq0h s = pic_eoi 0 (s\<lparr>ticks := ticks s + 1\<rparr>)"

definition irq1h :: "(u16 \<Rightarrow> u8) \<Rightarrow> 'a int_state_scheme \<Rightarrow> 'a int_state_scheme" where
  "irq1h inb s = pic_eoi 1 (s\<lparr>keyboard := keyboardirqh inb (keyboard s)\<rparr>)"

text \<open>The cases have no \<open>break\<close>: 0 runs into 1 and 1 into the default.\<close>

definition syscallh :: "u32 \<Rightarrow> u32 \<Rightarrow> u32 \<Rightarrow> u32 \<Rightarrow> 'a kernel_scheme \<Rightarrow> u32 \<times> 'a kernel_scheme" where
  "syscallh num arg1 arg2 arg3 s =
     (let s = (if num = 0 then tty_out ''syscall 0 (just a test)'' s else s);
          s = (if num = 0 \<or> num = 1 then tty_out ''syscall 1 (another test)'' s else s)
      in (of_int (err_code ERR_FAILED), s))"

section \<open>Every vector has its stub\<close>

text \<open>The address the processor jumps to through an entry.\<close>

definition gate_target :: "idt_entry \<Rightarrow> u32" where
  "gate_target e = ucast (offset_low e) OR push_bit 16 (ucast (offset_high e))"

lemma gate_target_gate [simp]: "gate_target (gate h) = h"
  by (rule bit_word_eqI) (auto simp: gate_target_def gate_def bit_simps bit_low_mask not_less
      dest: bit_imp_le_length)

lemma outb_idt [simp]: "idt (outb p v s) = idt s" "idt_limit (outb p v s) = idt_limit s"
  "idt_base (outb p v s) = idt_base s" "keyboard (outb p v s) = keyboard s"
  "pic_master_mask (outb p v s) = pic_master_mask s" "pic_slave_mask (outb p v s) = pic_slave_mask s"
  by (simp_all add: outb_def)

lemma outb_kernel [simp]: "mem (outb p v s) = mem s" "con (outb p v s) = con s" "ticks (outb p v s) = ticks s"
  "halted (outb p v s) = halted s" "stuck (outb p v s) = stuck s" "ports (outb p v s) = ports s @ [Outb p v]"
  by (simp_all add: outb_def)

lemma fill_gates:
  "n \<le> 256 \<Longrightarrow> idt (fold (\<lambda>i. setgate (of_nat i) h) [0..<n] s) = map (\<lambda>i. if i < n then gate h else idt s ! i) [0..<length (idt s)]"
proof (induction n)
  case 0
  show ?case by (simp add: map_nth)
next
  case (Suc n)
  then have n: "unat (of_nat n :: u8) = n" by (simp add: unat_of_nat take_bit_nat_eq_self)
  show ?case using Suc by (intro nth_equalityI) (auto simp: setgate_def n nth_list_update less_Suc_eq)
qed

lemma int_init_idt:
  assumes "length (idt s) = 256" and "n < 256"
  shows "gate_target (idt (int_init inb y s) ! n) =
    (if n = 0 then isr0_stub y else if n = 0x20 then irq0_stub y else if n = 0x21 then irq1_stub y
     else if n = 0x80 then syscall_stub y else isr_default_stub y)"
  using assms
  by (simp add: int_init_def Let_def pic_setm_def pic_remap_def setgate_def [of _ _ "fold _ _ _"] IDT_SIZE_def
      fill_gates nth_list_update setgate_def del: upt_rec_numeral)

end
