(* ===== verification/Stubs.thy ===== *)
theory Stubs
  imports Machine Interrupts
begin

text \<open>
  The assembly of \<open>kernel/int/interrupts.c\<close>, run on the machine: what an interrupted program
  sees of a timer or keyboard interrupt, and what a program that makes a system call gets back.
\<close>

definition isr_default_code :: "instr list" where
  "isr_default_code = [Pusha, Popa, Iret]"

definition isr0_code :: "instr list" where
  "isr0_code = [Pusha, PushI 0, Call ''isr0h'', AddEsp 4, Popa, Iret]"

definition irq0_code :: "instr list" where
  "irq0_code = [Pusha, Call ''irq0h'', Popa, Iret]"

definition irq1_code :: "instr list" where
  "irq1_code = [Pusha, Call ''irq1h'', Popa, Iret]"

definition syscall_code :: "instr list" where
  "syscall_code = [Push EBP, Push EDI, Push ESI, Push EDX, Push ECX, Push EBX, Push EAX,
     Call ''syscallh'', AddEsp 16, Pop ESI, Pop EDI, Pop EBP, Iret]"

text \<open>
  The C functions the stubs call, as compiled. What they do to the kernel's variables is the model
  of the C code; what the compiler adds is the parameter \<open>compiled\<close>: where the calls return to
  (\<open>ret_to\<close>), what a function and those it calls leave on the stack (\<open>frame\<close>, given the function and
  its stack pointer), and what the terminal draws for the events it is asked to show (\<open>draw\<close>; the
  model of the drawing is \<open>render\<close> of the terminal's theory). \<open>arg_bytes\<close> are the bytes of its
  arguments, which a C function may use as its own variables.
\<close>

record compiled =
  ret_to :: "string \<Rightarrow> u32"
  frame :: "string \<Rightarrow> u32 \<Rightarrow> memory \<Rightarrow> memory"
  draw :: "con_event list \<Rightarrow> memory \<Rightarrow> memory"

definition arg_bytes :: "string \<Rightarrow> nat" where
  "arg_bytes g = (if g = ''isr0h'' then 4 else if g = ''syscallh'' then 16 else 0)"

text \<open>
  What is known of compiled code: it needs at most \<open>depth\<close> bytes of stack, below its return
  address; the terminal writes to the screen, and nothing if there is nothing to show.
\<close>

definition compiled_ok :: "compiled \<Rightarrow> nat \<Rightarrow> u32 set \<Rightarrow> bool" where
  "compiled_ok C depth screen \<longleftrightarrow> depth \<le> 2 ^ 20
     \<and> (\<forall>g p m x. x \<notin> region (p - of_nat depth) (depth + 4 + arg_bytes g) \<longrightarrow> frame C g p m x = m x)
     \<and> (\<forall>es m x. x \<notin> screen \<longrightarrow> draw C es m x = m x) \<and> (\<forall>m. draw C [] m = m)"

definition clobber :: "u32 \<times> u32 \<times> u32 \<Rightarrow> machine_regs \<Rightarrow> machine_regs" where
  "clobber k r = (case k of (a, c, d) \<Rightarrow> r\<lparr>eax := a, ecx := c, edx := d\<rparr>)"

definition memory_effect :: "compiled \<Rightarrow> string \<Rightarrow> u32 \<Rightarrow> 'a kernel_scheme \<Rightarrow> 'a kernel_scheme \<Rightarrow> 'a kernel_scheme" where
  "memory_effect C g p s s' = s'\<lparr>mem := frame C g p (draw C (drop (length (con s)) (con s')) (mem s'))\<rparr>"

definition handlers ::
    "compiled \<Rightarrow> cpuid \<Rightarrow> cpu_regs \<Rightarrow> (u16 \<Rightarrow> u8) \<Rightarrow> u32 \<times> u32 \<times> u32 \<Rightarrow> ('a int_state_ext) callee" where
  "handlers C cpuid p inb k =
     \<lparr>link = ret_to C,
      body = \<lambda>g (r, s).
        let arg = (\<lambda>i. ld32 (mem s) (esp r + 4 + of_nat (4 * i)));
            (r', s') =
              (if g = ''isr0h'' then (clobber k r, isr0h cpuid p (arg 0) s)
               else if g = ''irq0h'' then (clobber k r, irq0h s)
               else if g = ''irq1h'' then (clobber k r, irq1h inb s)
               else if g = ''syscallh'' then
                 (case syscallh (arg 0) (arg 1) (arg 2) (arg 3) s of (v, s) \<Rightarrow> ((clobber k r)\<lparr>eax := v\<rparr>, s))
               else (r, s))
        in (r', memory_effect C g (esp r) s s')\<rparr>"

section \<open>Interrupts are transparent\<close>

lemma default_stub_transparent:
  "fst (exec f isr_default_code (interrupt h (r, s))) = r"
  by (simp add: isr_default_code_def machine_run ld32_st32_apart)

lemma irq_stub:
  assumes "cdecl f g 4 44"
  shows "fst (exec f [Pusha, Call g, Popa, Iret] (interrupt h (r, s))) = r"
proof -
  let ?p = "esp r - 44"
  obtain r1 s1 where entry: "push (link f g) (exec f [Pusha] (interrupt h (r, s))) = (r1, s1)" by fastforce
  obtain r2 s2 where call: "body f g (r1, s1) = (r2, s2)" by fastforce
  have r1: "esp r1 = ?p - 4" "r1 = r\<lparr>esp := ?p - 4, eip := h\<rparr>"
    using entry by (auto simp: machine_run)
  have "\<forall>a \<in> region (esp r1 + 4) 44. mem s2 a = mem s1 a" "esp r2 = esp r1"
    using assms call unfolding cdecl_def by blast+
  then have frame: "\<forall>a \<in> region ?p 44. mem s2 a = mem s1 a" and esp: "esp r2 = ?p - 4"
    using r1(1) by simp_all
  have mem1: "mem s1 = mem (snd (push (link f g) (exec f [Pusha] (interrupt h (r, s)))))" by (simp only: entry snd_conv)
  have slot: "ld32 (mem s2) (?p + of_nat k) = ld32 (mem s1) (?p + of_nat k)" if "k + 4 \<le> 44" for k
    using ld32_frame [OF frame that] .
  have slots: "ld32 (mem s2) ?p = edi r" "ld32 (mem s2) (esp r - 40) = esi r"
    "ld32 (mem s2) (esp r - 36) = ebp r" "ld32 (mem s2) (esp r - 28) = ebx r"
    "ld32 (mem s2) (esp r - 24) = edx r" "ld32 (mem s2) (esp r - 20) = ecx r"
    "ld32 (mem s2) (esp r - 16) = eax r" "ld32 (mem s2) (esp r - 12) = eip r"
    "ld32 (mem s2) (esp r - 8) = cs r" "ld32 (mem s2) (esp r - 4) = eflags r"
    using slot [of 0] slot [of 4] slot [of 8] slot [of 16] slot [of 20] slot [of 24]
      slot [of 28] slot [of 32] slot [of 36] slot [of 40]
    by (simp_all add: mem1 machine_run ld32_st32_apart)
  have "exec f [Pusha, Call g, Popa, Iret] (interrupt h (r, s)) = exec f [Popa, Iret] (drop_top (r2, s2))"
    using entry call by simp
  then show ?thesis
    by (simp add: machine_run esp slots)
qed

section \<open>The handlers obey the convention\<close>

lemma handlers_link: "link (handlers C cpuid p inb k) = ret_to C"
  by (simp add: handlers_def)

lemma handlers_regs:
  "body (handlers C cpuid p inb k) g (r, s) = (r', s') \<Longrightarrow>
     ebx r' = ebx r \<and> esi r' = esi r \<and> edi r' = edi r \<and> ebp r' = ebp r \<and> esp r' = esp r"
  by (cases k) (auto simp: handlers_def clobber_def syscallh_def Let_def split: if_splits)

text \<open>The C code itself writes no memory but its variables, its stack and the screen.\<close>

lemma memory_effect_frame:
  assumes "compiled_ok C depth screen" and "x \<notin> region (p - of_nat depth) (depth + 4 + arg_bytes g)"
    and "x \<notin> screen \<or> con s' = con s" and "mem s' = mem s"
  shows "mem (memory_effect C g p s s') x = mem s x"
  using assms by (auto simp: compiled_ok_def memory_effect_def)

lemma handlers_frame:
  assumes "compiled_ok C depth screen" and "g \<in> {''irq0h'', ''irq1h''}" and "body (handlers C cpuid p inb k) g (r, s) = (r', s')"
    and "x \<notin> region (esp r - of_nat depth) (depth + 4)"
  shows "mem s' x = mem s x"
proof -
  have args: "arg_bytes g = 0" using assms(2) by (auto simp: arg_bytes_def)
  obtain t where "s' = memory_effect C g (esp r) s t" "con t = con s" "mem t = mem s"
    using assms(2,3) by (cases k) (auto simp: handlers_def irq0h_def irq1h_def pic_eoi_def Let_def)
  then show ?thesis using memory_effect_frame [OF assms(1), of x "esp r" g t s] assms(4) args by simp
qed

lemma syscallh_eq:
  "syscallh num a b c s = (- 1, tty_out (if num = 0 then ''syscall 0 (just a test)'' @ ''syscall 1 (another test)''
     else if num = 1 then ''syscall 1 (another test)'' else []) s)"
  by (simp add: syscallh_def Let_def)

text \<open>What lies above the part a function may use.\<close>

lemma above_frame:
  assumes "depth \<le> 2 ^ 20" and "k \<le> i" and "i \<le> 2 ^ 20"
  shows "p + of_nat i \<notin> region (p - of_nat depth) (depth + k)"
proof -
  have "p + of_nat i = (p - of_nat depth) + of_nat (depth + i)" by simp
  then show ?thesis using assms not_in_region [of "depth + k" "depth + i" "p - of_nat depth"] by simp
qed

lemma stack_below:
  assumes "a \<le> k"
  shows "region (p - of_nat k - of_nat depth) (depth + a) \<union> region (p - of_nat k) k \<subseteq> region (p - of_nat (k + depth)) (k + depth)"
proof -
  let ?b = "p - of_nat (k + depth) :: u32"
  have "p - of_nat k - of_nat depth = ?b" "p - of_nat k = ?b + of_nat depth" by simp_all
  moreover have "region ?b (depth + a) \<subseteq> region ?b (k + depth)" using assms by (intro region_mono) simp
  moreover have "region (?b + of_nat depth) k \<subseteq> region ?b (k + depth)"
    using region_offset [of ?b depth k] by (simp only: add.commute [of k])
  ultimately show ?thesis by (simp only: Un_least)
qed

lemma handlers_cdecl:
  assumes "compiled_ok C depth screen" and "g \<in> {''irq0h'', ''irq1h''}"
  shows "cdecl (handlers C cpuid p inb k) g 4 44"
proof -
  have depth: "depth \<le> 2 ^ 20" using assms(1) by (simp add: compiled_ok_def)
  have "mem s' a = mem s a" if call: "body (handlers C cpuid p inb k) g (r, s) = (r', s')" and a: "a \<in> region (esp r + 4) 44"
    for r s r' s' a
  proof -
    obtain j where j: "j < 44" "a = esp r + of_nat (4 + j)" using a by (auto simp: region_def add.assoc)
    have "a \<notin> region (esp r - of_nat depth) (depth + 4)" unfolding j(2) using j(1) depth by (intro above_frame) simp_all
    then show ?thesis by (rule handlers_frame [OF assms call])
  qed
  then show ?thesis unfolding cdecl_def using handlers_regs by blast
qed

lemma snd_pop [simp]: "snd (pop_reg d x) = snd x" "snd (drop_top x) = snd x"
  by (cases x; simp add: machine_run)+

lemma snd_returns [simp]: "snd (exec1 f Popa x) = snd x" "snd (exec1 f Iret x) = snd x"
  by (simp_all add: Let_def)

text \<open>Entering a stub and calling its handler writes the 48 bytes below the stack pointer and nothing else.\<close>

lemma entry_state:
  "\<exists>m. push v (exec f [Pusha] (interrupt h (r, s))) = (r\<lparr>esp := esp r - 48, eip := h\<rparr>, s\<lparr>mem := m\<rparr>)
     \<and> (\<forall>a. a \<notin> region (esp r - 48) 48 \<longrightarrow> m a = mem s a)"
proof -
  have "mem (snd (push v (exec f [Pusha] (interrupt h (r, s))))) a = mem s a" if a: "a \<notin> region (esp r - 48) 48" for a
    using st32_in_region [OF a, of 0] st32_in_region [OF a, of 4] st32_in_region [OF a, of 8]
      st32_in_region [OF a, of 12] st32_in_region [OF a, of 16] st32_in_region [OF a, of 20]
      st32_in_region [OF a, of 24] st32_in_region [OF a, of 28] st32_in_region [OF a, of 32]
      st32_in_region [OF a, of 36] st32_in_region [OF a, of 40] st32_in_region [OF a, of 44]
    by (simp add: machine_run)
  moreover have "push v (exec f [Pusha] (interrupt h (r, s)))
      = (r\<lparr>esp := esp r - 48, eip := h\<rparr>, s\<lparr>mem := mem (snd (push v (exec f [Pusha] (interrupt h (r, s)))))\<rparr>)"
    by (simp add: machine_run)
  ultimately show ?thesis by blast
qed

text \<open>The registers after an interrupt stub do not depend on the state; memory changes on the stack only.\<close>

lemma irq_run:
  assumes "compiled_ok C depth screen" and "g \<in> {''irq0h'', ''irq1h''}"
  shows "\<exists>m t. exec (handlers C cpuid p inb k) [Pusha, Call g, Popa, Iret] (interrupt h (r, s)) = (r, t)
    \<and> (\<exists>m'. t = (if g = ''irq0h'' then irq0h (s\<lparr>mem := m\<rparr>) else irq1h inb (s\<lparr>mem := m\<rparr>))\<lparr>mem := m'\<rparr>)
    \<and> {a. mem t a \<noteq> mem s a} \<subseteq> region (esp r - of_nat (48 + depth)) (48 + depth)"
proof -
  let ?f = "handlers C cpuid p inb k"
  obtain m where m: "push (ret_to C g) (exec ?f [Pusha] (interrupt h (r, s))) = (r\<lparr>esp := esp r - 48, eip := h\<rparr>, s\<lparr>mem := m\<rparr>)"
    "\<forall>a. a \<notin> region (esp r - 48) 48 \<longrightarrow> m a = mem s a"
    using entry_state by blast
  obtain r' t where call: "body ?f g (r\<lparr>esp := esp r - 48, eip := h\<rparr>, s\<lparr>mem := m\<rparr>) = (r', t)" by fastforce
  have "exec ?f [Pusha, Call g, Popa, Iret] (interrupt h (r, s))
      = exec ?f [Popa, Iret] (drop_top (body ?f g (push (ret_to C g) (exec ?f [Pusha] (interrupt h (r, s))))))"
    by (simp add: handlers_link del: exec1.simps(1-11))
  also have "\<dots> = exec ?f [Popa, Iret] (drop_top (r', t))" unfolding m(1) call by (rule refl)
  finally have "snd (exec ?f [Pusha, Call g, Popa, Iret] (interrupt h (r, s))) = t"
    by (simp del: exec1.simps(8,9,11))
  then have "exec ?f [Pusha, Call g, Popa, Iret] (interrupt h (r, s)) = (r, t)"
    by (intro prod_eqI) (simp_all only: fst_conv snd_conv irq_stub [OF handlers_cdecl [OF assms]])
  moreover have "\<exists>m'. t = (if g = ''irq0h'' then irq0h (s\<lparr>mem := m\<rparr>) else irq1h inb (s\<lparr>mem := m\<rparr>))\<lparr>mem := m'\<rparr>"
    using call assms(2) by (cases k) (auto simp: handlers_def memory_effect_def Let_def)
  moreover have sub: "region (esp r - 48 - of_nat depth) (depth + 4) \<union> region (esp r - 48) 48 \<subseteq> region (esp r - of_nat (48 + depth)) (48 + depth)"
    using stack_below [of 4 48 "esp r" depth] by (simp only: of_nat_numeral)
  moreover have "{a. mem t a \<noteq> mem s a} \<subseteq> region (esp r - of_nat (48 + depth)) (48 + depth)"
  proof
    fix a assume "a \<in> {a. mem t a \<noteq> mem s a}"
    then have "a \<in> region (esp r - 48 - of_nat depth) (depth + 4) \<or> a \<in> region (esp r - 48) 48"
      using handlers_frame [OF assms call, of a] m(2) by fastforce
    then show "a \<in> region (esp r - of_nat (48 + depth)) (48 + depth)"
      using sub by blast
  qed
  ultimately show ?thesis by blast
qed

text \<open>A system call: six words for the registers and the return to the caller stay, whatever the handler does.\<close>

lemma syscall_entry:
  "\<exists>m. push v (exec f (take 7 syscall_code) (interrupt h (r, s))) = (r\<lparr>esp := esp r - 44, eip := h\<rparr>, s\<lparr>mem := m\<rparr>)
     \<and> (\<forall>a. a \<notin> region (esp r - 44) 44 \<longrightarrow> m a = mem s a)
     \<and> map (\<lambda>i. ld32 m (esp r - 44 + of_nat (4 * i))) [1..<11] = [eax r, ebx r, ecx r, edx r, esi r, edi r, ebp r, eip r, cs r, eflags r]"
proof -
  let ?m = "mem (snd (push v (exec f (take 7 syscall_code) (interrupt h (r, s)))))"
  have "?m a = mem s a" if a: "a \<notin> region (esp r - 44) 44" for a
    using st32_in_region [OF a, of 0] st32_in_region [OF a, of 4] st32_in_region [OF a, of 8]
      st32_in_region [OF a, of 12] st32_in_region [OF a, of 16] st32_in_region [OF a, of 20]
      st32_in_region [OF a, of 24] st32_in_region [OF a, of 28] st32_in_region [OF a, of 32]
      st32_in_region [OF a, of 36] st32_in_region [OF a, of 40]
    by (simp add: machine_run syscall_code_def)
  moreover have "push v (exec f (take 7 syscall_code) (interrupt h (r, s))) = (r\<lparr>esp := esp r - 44, eip := h\<rparr>, s\<lparr>mem := ?m\<rparr>)"
    by (simp add: machine_run syscall_code_def)
  moreover have "[1..<11] = [1, 2, 3, 4, 5, 6, 7, 8, 9, 10 :: nat]" by (simp add: upt_rec)
  then have "map (\<lambda>i. ld32 ?m (esp r - 44 + of_nat (4 * i))) [1..<11] = [eax r, ebx r, ecx r, edx r, esi r, edi r, ebp r, eip r, cs r, eflags r]"
    by (simp add: machine_run syscall_code_def ld32_st32_apart)
  ultimately show ?thesis by (intro exI [of _ ?m]) blast
qed

lemma syscall_run:
  assumes "compiled_ok C depth screen" and "screen \<inter> region (esp r - 24) 24 = {}"
  shows "\<exists>m. exec (handlers C cpuid p inb (a, c, d)) syscall_code (interrupt h (r, s))
      = (r\<lparr>eax := - 1, ecx := c, edx := d\<rparr>, (snd (syscallh (eax r) (ebx r) (ecx r) (edx r) s))\<lparr>mem := m\<rparr>)
    \<and> {x. m x \<noteq> mem s x} \<subseteq> region (esp r - of_nat (44 + depth)) (44 + depth) \<union> screen"
proof -
  let ?f = "handlers C cpuid p inb (a, c, d)" and ?q = "esp r - 44"
  obtain m where m: "push (ret_to C ''syscallh'') (exec ?f (take 7 syscall_code) (interrupt h (r, s))) = (r\<lparr>esp := ?q, eip := h\<rparr>, s\<lparr>mem := m\<rparr>)"
    "\<forall>a. a \<notin> region ?q 44 \<longrightarrow> m a = mem s a"
    "map (\<lambda>i. ld32 m (?q + of_nat (4 * i))) [1..<11] = [eax r, ebx r, ecx r, edx r, esi r, edi r, ebp r, eip r, cs r, eflags r]"
    using syscall_entry [of "ret_to C ''syscallh''" ?f h r s] by (elim exE conjE)
  have ten: "[1..<11] = [1, 2, 3, 4, 5, 6, 7, 8, 9, 10 :: nat]" by (simp add: upt_rec)
  let ?t = "snd (syscallh (eax r) (ebx r) (ecx r) (edx r) (s\<lparr>mem := m\<rparr>))"
  define e where "e = memory_effect C ''syscallh'' ?q (s\<lparr>mem := m\<rparr>) ?t"
  have call: "body ?f ''syscallh'' (r\<lparr>esp := ?q, eip := h\<rparr>, s\<lparr>mem := m\<rparr>) = (r\<lparr>esp := ?q, eip := h, eax := - 1, ecx := c, edx := d\<rparr>, e)"
    using m(3) unfolding ten by (simp add: handlers_def Let_def clobber_def syscallh_eq e_def)
  have depth: "depth \<le> 2 ^ 20" using assms(1) by (simp add: compiled_ok_def)
  have same: "mem e x = m x" if "x \<notin> region (?q - of_nat depth) (depth + 20)" "x \<notin> screen" for x
  proof -
    have "depth + 4 + arg_bytes ''syscallh'' = depth + 20" by (simp add: arg_bytes_def)
    moreover have "mem ?t = mem (s\<lparr>mem := m\<rparr>)" by (simp only: syscallh_eq snd_conv tty_out_simps)
    ultimately have "mem e x = mem (s\<lparr>mem := m\<rparr>) x"
      using that memory_effect_frame [OF assms(1), of x ?q "''syscallh''" ?t "s\<lparr>mem := m\<rparr>"] by (simp only: e_def) simp
    then show ?thesis by simp
  qed
  have "\<forall>x \<in> region (esp r - 24) 24. mem e x = m x"
  proof
    fix x assume x: "x \<in> region (esp r - 24) 24"
    then obtain j where j: "j < 24" "x = ?q + of_nat (20 + j)" by (auto simp: region_def algebra_simps)
    have "x \<notin> region (?q - of_nat depth) (depth + 20)" unfolding j(2) using j(1) depth by (intro above_frame) simp_all
    then show "mem e x = m x" using same x assms(2) by blast
  qed
  note keep = ld32_frame [OF this]
  have saved: "ld32 (mem e) (esp r - 24) = esi r" "ld32 (mem e) (esp r - 20) = edi r" "ld32 (mem e) (esp r - 16) = ebp r"
    "ld32 (mem e) (esp r - 12) = eip r" "ld32 (mem e) (esp r - 8) = cs r" "ld32 (mem e) (esp r - 4) = eflags r"
    using keep [of 0] keep [of 4] keep [of 8] keep [of 12] keep [of 16] keep [of 20] m(3) unfolding ten by simp_all
  have "exec ?f syscall_code (interrupt h (r, s)) = exec ?f (drop 8 syscall_code)
      (drop_top (body ?f ''syscallh'' (push (ret_to C ''syscallh'') (exec ?f (take 7 syscall_code) (interrupt h (r, s))))))"
    by (simp add: syscall_code_def handlers_link del: exec1.simps(1-11))
  also have "\<dots> = (r\<lparr>eax := - 1, ecx := c, edx := d\<rparr>, e)"
    unfolding m(1) call by (simp add: syscall_code_def machine_run saved)
  also have "e = (snd (syscallh (eax r) (ebx r) (ecx r) (edx r) s))\<lparr>mem := mem e\<rparr>"
    by (simp add: e_def memory_effect_def syscallh_eq tty_out_def)
  finally have run: "exec ?f syscall_code (interrupt h (r, s)) = (r\<lparr>eax := - 1, ecx := c, edx := d\<rparr>, (snd (syscallh (eax r) (ebx r) (ecx r) (edx r) s))\<lparr>mem := mem e\<rparr>)" .
  have "{x. mem e x \<noteq> mem s x} \<subseteq> region (?q - of_nat depth) (depth + 20) \<union> region ?q 44 \<union> screen"
  proof
    fix x assume "x \<in> {x. mem e x \<noteq> mem s x}"
    then show "x \<in> region (?q - of_nat depth) (depth + 20) \<union> region ?q 44 \<union> screen"
      using same [of x] m(2) [rule_format, of x] by simp metis
  qed
  also have "\<dots> \<subseteq> region (esp r - of_nat (44 + depth)) (44 + depth) \<union> screen"
    using stack_below [of 20 44 "esp r" depth] by (intro Un_mono) (simp_all only: of_nat_numeral order_refl)
  finally have "{x. mem e x \<noteq> mem s x} \<subseteq> region (esp r - of_nat (44 + depth)) (44 + depth) \<union> screen" .
  with run show ?thesis by blast
qed

section \<open>An instance\<close>

definition boot_symbols :: symbols where
  "boot_symbols = \<lparr>isr_default_stub = 0x11000, isr0_stub = 0x11010, irq0_stub = 0x11020, irq1_stub = 0x11030,
     syscall_stub = 0x11040, idt_symbol = 0x20160\<rparr>"

definition boot_int :: int_state where
  "boot_int = \<lparr>mem = (\<lambda>_. 0), con = [], ports = [], ticks = 0, halted = False, stuck = False,
     keyboard = kbd_boot, pic_master_mask = 0xFF, pic_slave_mask = 0xFF, idt = replicate 256 (gate 0),
     idt_limit = 0, idt_base = 0, idtr = (0, 0)\<rparr>"

text \<open>A compiler that leaves the return address and one word of each function on the stack.\<close>

definition plain_code :: compiled where
  "plain_code = \<lparr>ret_to = \<lambda>_. 0x11025, frame = \<lambda>g p m. st32 (p - 4) 0x5A m, draw = \<lambda>_ m. m\<rparr>"

lemma plain_code_ok: "compiled_ok plain_code 4 screen"
proof -
  have "st32 (p - 4) v m x = m x" if "x \<notin> region (p - 4) (8 + n)" for p v m x n
    using st32_in_region [OF that, of 0] by simp
  then show ?thesis by (simp add: compiled_ok_def plain_code_def)
qed

section \<open>Properties\<close>

text \<open>
  C19: a timer interrupt is invisible to the program it interrupts: through the processor's
  entry, the stub \<open>irq0_stub\<close>, the call and the C handler, every register including the stack
  pointer, the flags and the return address is as before, memory (the kernel's tick counter apart)
  is changed only below the stack pointer, by at most 48 bytes more than the handler's own stack,
  one tick is counted and the controller is acknowledged once.
\<close>

theorem timer_interrupt_transparent:
  assumes "compiled_ok C depth screen"
  shows "\<exists>s'. exec (handlers C cpuid p inb k) irq0_code (interrupt h (r, s)) = (r, s')
     \<and> ticks s' = ticks s + 1 \<and> ports s' = ports s @ [Outb 0x20 0x20] \<and> con s' = con s
     \<and> keyboard s' = keyboard s \<and> {a. mem s' a \<noteq> mem s a} \<subseteq> region (esp r - of_nat (48 + depth)) (48 + depth)"
proof -
  obtain t m m' where "exec (handlers C cpuid p inb k) irq0_code (interrupt h (r, s)) = (r, t)" "t = (irq0h (s\<lparr>mem := m\<rparr>))\<lparr>mem := m'\<rparr>"
    "{a. mem t a \<noteq> mem s a} \<subseteq> region (esp r - of_nat (48 + depth)) (48 + depth)"
    using irq_run [OF assms, of "''irq0h''" cpuid p inb k h r s] unfolding irq0_code_def by (auto simp del: exec_simps)
  then show ?thesis by (simp add: irq0h_def pic_eoi_def PIC1_CMD_def PIC_EOI_def)
qed

lemma timer_interrupt_transparent_witness:
  "\<forall>p r. \<exists>s'. exec (handlers plain_code (\<lambda>_. (0, 0, 0, 0)) p (\<lambda>_. 0) (1, 2, 3)) irq0_code (interrupt 0x11020 (r, boot_int)) = (r, s')
     \<and> ticks s' = 1 \<and> {a. mem s' a \<noteq> 0} \<subseteq> region (esp r - 52) 52"
proof (intro allI)
  fix p and r :: machine_regs
  show "\<exists>s'. exec (handlers plain_code (\<lambda>_. (0, 0, 0, 0)) p (\<lambda>_. 0) (1, 2, 3)) irq0_code (interrupt 0x11020 (r, boot_int)) = (r, s')
     \<and> ticks s' = 1 \<and> {a. mem s' a \<noteq> 0} \<subseteq> region (esp r - 52) 52"
    using timer_interrupt_transparent [OF plain_code_ok, of "\<lambda>_. (0, 0, 0, 0)" p "\<lambda>_. 0" "(1, 2, 3)" "0x11020" r boot_int]
    by (elim exE conjE, intro exI conjI) (assumption, simp_all add: boot_int_def)
qed

text \<open>
  A keyboard interrupt likewise: nothing of the interrupted program changes, the scan code
  goes through \<open>keyboardirqh\<close>, the controller is acknowledged once.
\<close>

lemma keyboard_interrupt_transparent:
  assumes "compiled_ok C depth screen"
  shows "\<exists>s'. exec (handlers C cpuid p inb k) irq1_code (interrupt h (r, s)) = (r, s')
     \<and> keyboard s' = keyboardirqh inb (keyboard s) \<and> ports s' = ports s @ [Outb 0x20 0x20]
     \<and> ticks s' = ticks s \<and> con s' = con s
     \<and> {a. mem s' a \<noteq> mem s a} \<subseteq> region (esp r - of_nat (48 + depth)) (48 + depth)"
proof -
  obtain t m m' where "exec (handlers C cpuid p inb k) irq1_code (interrupt h (r, s)) = (r, t)" "t = (irq1h inb (s\<lparr>mem := m\<rparr>))\<lparr>mem := m'\<rparr>"
    "{a. mem t a \<noteq> mem s a} \<subseteq> region (esp r - of_nat (48 + depth)) (48 + depth)"
    using irq_run [OF assms, of "''irq1h''" cpuid p inb k h r s] unfolding irq1_code_def by (auto simp del: exec_simps)
  then show ?thesis by (simp add: irq1h_def pic_eoi_def PIC1_CMD_def PIC_EOI_def word_le_nat_alt)
qed

text \<open>
  A system call through \<open>syscall_stub\<close> returns to the caller with its stack pointer,
  callee-saved registers and flags intact and -1 in \<open>eax\<close>, whatever the call number; the
  handler sees \<open>eax\<close> as the number, and since its cases lack \<open>break\<close>, call 0 prints the
  messages of both calls.
\<close>

lemma syscall_returns:
  assumes "compiled_ok C depth screen" and "screen \<inter> region (esp r - 24) 24 = {}"
  shows "\<exists>s'. exec (handlers C cpuid p inb (a, c, d)) syscall_code (interrupt h (r, s)) = (r\<lparr>eax := - 1, ecx := c, edx := d\<rparr>, s')
     \<and> con s' = con s @ map Out (if eax r = 0 then ''syscall 0 (just a test)'' @ ''syscall 1 (another test)''
          else if eax r = 1 then ''syscall 1 (another test)'' else [])"
  using syscall_run [OF assms, of cpuid p inb a c d h s] by (auto simp: syscallh_eq)

text \<open>
  After \<open>int_init\<close> every one of the 256 vectors leads to the stub meant for it, the loaded
  table register covers the table, and the controllers let through only the timer and the
  keyboard.
\<close>

lemma int_init_dispatch:
  assumes "length (idt s) = 256" and "n < 256"
  shows "gate_target (idt (int_init inb y s) ! n) =
      (if n = 0 then isr0_stub y else if n = 0x20 then irq0_stub y else if n = 0x21 then irq1_stub y
       else if n = 0x80 then syscall_stub y else isr_default_stub y)
    \<and> idtr (int_init inb y s) = (2047, idt_symbol y)
    \<and> pic_master_mask (int_init inb y s) = 0xFC \<and> pic_slave_mask (int_init inb y s) = 0xFF"
  using int_init_idt [OF assms]
  by (simp add: int_init_def Let_def pic_setm_def pic_remap_def setgate_def IDT_SIZE_def del: upt_rec_numeral)

lemma int_init_dispatch_witness:
  "gate_target (idt (int_init (\<lambda>_. 0) boot_symbols boot_int) ! 0x80) = 0x11040"
proof -
  have "length (idt boot_int) = 256" by (simp add: boot_int_def)
  from int_init_dispatch [OF this, where n = "0x80"] show ?thesis by (simp add: boot_symbols_def)
qed

text \<open>
  \<open>pitsetfreq\<close> programs channel 0 of the timer, low byte first, with the low 16 bits of
  1193182 divided by the frequency; for 19 Hz and more that is the whole quotient, below it the
  quotient does not fit and the timer runs at another rate.
\<close>

lemma pitsetfreq_divisor:
  assumes "hz \<noteq> 0"
  shows "\<exists>lo hi. ports (pitsetfreq hz s) = ports s @ [Outb 0x43 0x36, Outb 0x40 lo, Outb 0x40 hi]
    \<and> unat lo + 256 * unat hi = 1193182 div unat hz mod 65536
    \<and> (19 \<le> unat hz \<longrightarrow> unat lo + 256 * unat hi = 1193182 div unat hz)"
proof -
  define d where "d = (ucast (PIT_BASE div hz) :: u16)"
  have d: "unat d = 1193182 div unat hz mod 65536"
    by (simp add: d_def unsigned_ucast_eq take_bit_eq_mod unat_div PIT_BASE_def)
  have "d AND 0xFF = take_bit 8 d" by (simp add: take_bit_eq_mask mask_eq_exp_minus_1)
  then have lo: "unat (ucast (d AND 0xFF) :: u8) = unat d mod 256"
    by (simp add: unsigned_ucast_eq take_bit_eq_mod unat_mod)
  have "unat (drop_bit 8 d) = unat d div 256" by (simp add: drop_bit_eq_div unat_div)
  moreover have "unat d < 65536" using unsigned_less [of d, where ?'a = nat] by simp
  moreover have "drop_bit 8 d AND 0xFF = take_bit 8 (drop_bit 8 d)" by (simp add: take_bit_eq_mask mask_eq_exp_minus_1)
  ultimately have hi: "unat (ucast (drop_bit 8 d AND 0xFF) :: u8) = unat d div 256"
    by (simp add: unsigned_ucast_eq take_bit_eq_mod unat_mod less_mult_imp_div_less)
  have "19 \<le> unat hz \<Longrightarrow> 1193182 div unat hz < 65536"
    using div_le_mono2 [of 19 "unat hz" 1193182] by simp
  moreover have "ports (pitsetfreq hz s) = ports s @ [Outb 0x43 0x36, Outb 0x40 (ucast (d AND 0xFF)), Outb 0x40 (ucast (drop_bit 8 d AND 0xFF))]"
    using assms by (simp add: pitsetfreq_def Let_def d_def PIT_CMD_def PIT_CH0_def)
  ultimately show ?thesis using lo hi d by (intro exI conjI) auto
qed

lemma pitsetfreq_divisor_witness:
  "\<exists>lo hi. ports (pitsetfreq 1000 boot_int) = [Outb 0x43 0x36, Outb 0x40 lo, Outb 0x40 hi]
    \<and> unat lo + 256 * unat hi = 1193"
  using pitsetfreq_divisor [of 1000 boot_int] by (simp add: boot_int_def)

end
