(* ===== verification/Sched.thy ===== *)
theory Sched
  imports Machine Log
begin

text \<open>
  \<open>kernel/sched/sched.c\<close> and \<open>kernel/core/switch.s\<close>: the process table, the round-robin loop and
  the context switch. The table \<open>ptable\<close> is an array of 32-bit cells of flat memory from \<open>pt\<close> on
  (the address the linker gives it), because the switch saves the stack pointer into it through
  a pointer: process \<open>i\<close> has its state in cell \<open>1026 * i\<close>, its context pointer in the next one and
  its 1024-cell stack after that; \<open>current\<close> and \<open>sched_context\<close> follow the 8 processes.
\<close>

section \<open>The process table\<close>

datatype proc_state = UNUSED | RUNNABLE | RUNNING

fun state_code :: "proc_state \<Rightarrow> u32" where
  "state_code UNUSED = 0"
| "state_code RUNNABLE = 1"
| "state_code RUNNING = 2"

definition NPROC :: nat where "NPROC = 8"

definition cell_at :: "u32 \<Rightarrow> nat \<Rightarrow> u32" where
  "cell_at pt c = pt + of_nat (4 * c)"

definition cget :: "u32 \<Rightarrow> nat \<Rightarrow> 'a kernel_scheme \<Rightarrow> u32" where
  "cget pt c s = ld32 (mem s) (cell_at pt c)"

definition cset :: "u32 \<Rightarrow> nat \<Rightarrow> u32 \<Rightarrow> 'a kernel_scheme \<Rightarrow> 'a kernel_scheme" where
  "cset pt c v s = s\<lparr>mem := st32 (cell_at pt c) v (mem s)\<rparr>"

definition state_cell :: "nat \<Rightarrow> nat" where "state_cell i = 1026 * i"
definition context_cell :: "nat \<Rightarrow> nat" where "context_cell i = 1026 * i + 1"
definition stack_cell :: "nat \<Rightarrow> nat \<Rightarrow> nat" where "stack_cell i j = 1026 * i + 2 + j"
definition current_cell :: nat where "current_cell = 8208"
definition sched_context_cell :: nat where "sched_context_cell = 8209"

definition sched_init :: "u32 \<Rightarrow> 'a kernel_scheme \<Rightarrow> 'a kernel_scheme" where
  "sched_init pt s =
     (let s = klog (''low budget scheduler (v1.00)'' @ [NL]) s;
          s = fold (\<lambda>i. cset pt (state_cell i) (state_code UNUSED)) [0..<NPROC] s;
          s = cset pt current_cell (- 1) s
      in cset pt sched_context_cell 0 s)"

text \<open>
  \<open>sp\<close> starts at \<open>stack[1023]\<close>; the two pushes use cells 1022 and 1021; \<open>sp -= sizeof(struct
  context)\<close> moves a pointer to 32-bit cells by 20, so the context, five cells, starts at 1001.
\<close>

definition task_l_spawn :: "u32 \<Rightarrow> u32 \<Rightarrow> 'a kernel_scheme \<Rightarrow> int \<times> 'a kernel_scheme" where
  "task_l_spawn pt fn s =
     (case List.find (\<lambda>i. cget pt (state_cell i) s = state_code UNUSED) [0..<NPROC] of
        None \<Rightarrow> (- 1, s)
      | Some i \<Rightarrow>
         (let s = cset pt (stack_cell i 1022) fn s;
              s = cset pt (stack_cell i 1021) 0 s;
              s = cset pt (context_cell i) (cell_at pt (stack_cell i 1001)) s;
              s = cset pt (stack_cell i 1004) 0 s;
              s = cset pt (stack_cell i 1003) 0 s;
              s = cset pt (stack_cell i 1002) 0 s;
              s = cset pt (stack_cell i 1001) 0 s;
              s = cset pt (stack_cell i 1005) fn s;
              s = cset pt (state_cell i) (state_code RUNNABLE) s
          in (int i, s)))"

text \<open>
  What \<open>m_scheduler\<close> does to the table before and after it runs process \<open>i\<close>, and \<open>yield\<close>
  before it switches back; \<open>yield\<close> outside a task (\<open>current\<close> negative) does nothing, \<open>None\<close>.
\<close>

definition sched_enter :: "u32 \<Rightarrow> nat \<Rightarrow> 'a kernel_scheme \<Rightarrow> 'a kernel_scheme" where
  "sched_enter pt i s = cset pt (state_cell i) (state_code RUNNING) (cset pt current_cell (of_nat i) s)"

definition sched_leave :: "u32 \<Rightarrow> nat \<Rightarrow> 'a kernel_scheme \<Rightarrow> 'a kernel_scheme" where
  "sched_leave pt i s = cset pt current_cell (- 1) (cset pt (state_cell i) (state_code RUNNABLE) s)"

definition yield_enter :: "u32 \<Rightarrow> 'a kernel_scheme \<Rightarrow> (nat \<times> 'a kernel_scheme) option" where
  "yield_enter pt s =
     (if sint (cget pt current_cell s) < 0 then None
      else (let i = unat (cget pt current_cell s)
            in Some (i, cset pt (state_cell i) (state_code RUNNABLE) s)))"

lemmas cells = state_cell_def context_cell_def stack_cell_def current_cell_def sched_context_cell_def

lemma cget_cset [simp]:
  "c < 2 ^ 30 \<Longrightarrow> d < 2 ^ 30 \<Longrightarrow> cget pt d (cset pt c v s) = (if c = d then v else cget pt d s)"
  unfolding cget_def cset_def cell_at_def using ld32_st32_cell [of c d pt v "mem s"] by simp

lemma cget_tty_out [simp]: "cget pt c (tty_out t s) = cget pt c s"
  by (simp add: cget_def)

text \<open>A store to cell \<open>c\<close> leaves every byte outside that cell alone.\<close>

lemma cset_frame: "a \<notin> region (cell_at pt c) 4 \<Longrightarrow> mem (cset pt c v s) a = mem s a"
  by (simp add: cset_def st32_outside)

definition pstate :: "u32 \<Rightarrow> 'a kernel_scheme \<Rightarrow> nat \<Rightarrow> u32" where
  "pstate pt s i = cget pt (state_cell i) s"

lemma sched_init_cells:
  assumes "i < 8"
  shows "pstate pt (sched_init pt s) i = state_code UNUSED" "cget pt current_cell (sched_init pt s) = - 1"
proof -
  have "n \<le> 8 \<Longrightarrow> i < n \<Longrightarrow> cget pt (state_cell i) (fold (\<lambda>i. cset pt (state_cell i) (state_code UNUSED)) [0..<n] t) = 0"
    for n and t :: "'a kernel_scheme"
    using assms by (induction n) (auto simp: state_cell_def)
  then show "pstate pt (sched_init pt s) i = state_code UNUSED" "cget pt current_cell (sched_init pt s) = - 1"
    using assms by (simp_all add: sched_init_def Let_def pstate_def cells NPROC_def klog_eq del: upt_rec_numeral)
qed

lemma task_l_spawn_cases:
  assumes "task_l_spawn pt fn s = (v, s')"
  obtains (full) "v = - 1" "s' = s" "\<forall>i < 8. pstate pt s i \<noteq> state_code UNUSED"
  | (slot) i where "v = int i" "i < 8" "pstate pt s i = state_code UNUSED" "\<forall>j < i. pstate pt s j \<noteq> state_code UNUSED"
      "pstate pt s' i = state_code RUNNABLE"
      "cget pt (context_cell i) s' = cell_at pt (stack_cell i 1001)"
      "cget pt (stack_cell i 1001) s' = 0" "cget pt (stack_cell i 1002) s' = 0"
      "cget pt (stack_cell i 1003) s' = 0" "cget pt (stack_cell i 1004) s' = 0"
      "cget pt (stack_cell i 1005) s' = fn"
      "\<forall>j < 8. j \<noteq> i \<longrightarrow> pstate pt s' j = pstate pt s j"
      "cget pt current_cell s' = cget pt current_cell s"
proof (cases "List.find (\<lambda>i. cget pt (state_cell i) s = state_code UNUSED) [0..<NPROC]")
  case None
  then have "v = - 1 \<and> s' = s" using assms by (simp add: task_l_spawn_def)
  moreover have "\<forall>i < 8. pstate pt s i \<noteq> state_code UNUSED"
    using None unfolding find_upt_None by (simp add: pstate_def NPROC_def)
  ultimately show thesis using full by blast
next
  case (Some i)
  then have i: "i < 8" "pstate pt s i = state_code UNUSED" "\<forall>j < i. pstate pt s j \<noteq> state_code UNUSED"
    by (auto simp: find_upt_Some pstate_def NPROC_def)
  show thesis
  proof (rule slot [of i])
    show "v = int i" "pstate pt s' i = state_code RUNNABLE"
      "cget pt (context_cell i) s' = cell_at pt (stack_cell i 1001)"
      "cget pt (stack_cell i 1001) s' = 0" "cget pt (stack_cell i 1002) s' = 0"
      "cget pt (stack_cell i 1003) s' = 0" "cget pt (stack_cell i 1004) s' = 0"
      "cget pt (stack_cell i 1005) s' = fn" "cget pt current_cell s' = cget pt current_cell s"
      using assms Some i(1) by (auto simp: task_l_spawn_def Let_def pstate_def cells)
    show "\<forall>j < 8. j \<noteq> i \<longrightarrow> pstate pt s' j = pstate pt s j"
    proof (intro allI impI)
      fix j :: nat assume "j < 8" "j \<noteq> i"
      moreover from this have "1026 * j \<noteq> 1026 * i + k" if "k < 1026" for k
        using that by (cases "j < i") auto
      ultimately show "pstate pt s' j = pstate pt s j"
        using assms Some i(1) by (auto simp: task_l_spawn_def Let_def pstate_def cells)
    qed
  qed (fact i)+
qed

section \<open>The context switch\<close>

definition swtch_code :: "instr list" where
  "swtch_code = [Load 4 ESP EAX, Load 8 ESP EDX, Push EBP, Push EBX, Push ESI, Push EDI,
     Store ESP EAX, Mov EDX ESP, Pop EDI, Pop ESI, Pop EBX, Pop EBP, Ret]"

text \<open>
  \<open>swtch (old, new)\<close> as its caller sees it: the two arguments and the return address pushed,
  then the code. What it does: the five cells below the arguments hold the context of the
  caller (\<open>struct context\<close>: \<open>edi\<close>, \<open>esi\<close>, \<open>ebx\<close>, \<open>ebp\<close>, \<open>eip\<close>), their address goes to \<open>*old\<close>, and
  the registers come from the context at \<open>new\<close>.
\<close>

definition swtch_call :: "'a callee \<Rightarrow> u32 \<Rightarrow> u32 \<Rightarrow> u32 \<Rightarrow> 'a machine \<Rightarrow> 'a machine" where
  "swtch_call f old new ret x = exec f swtch_code (push ret (push old (push new x)))"

definition saved_context :: "memory \<Rightarrow> u32 \<Rightarrow> u32 list" where
  "saved_context m a = map (\<lambda>i. ld32 m (a + of_nat (4 * i))) [0..<5]"

lemma swtch_call_regs:
  fixes r :: machine_regs and s :: "'a kernel_scheme" and old new ret :: u32
  defines "m \<equiv> st32 old (esp r - 28) (st32 (esp r - 28) (edi r) (st32 (esp r - 24) (esi r)
      (st32 (esp r - 20) (ebx r) (st32 (esp r - 16) (ebp r) (st32 (esp r - 12) ret (st32 (esp r - 8) old (st32 (esp r - 4) new (mem s))))))))"
  shows "swtch_call f old new ret (r, s) =
    (r\<lparr>eax := old, edx := new, edi := ld32 m new, esi := ld32 m (new + 4), ebx := ld32 m (new + 8),
        ebp := ld32 m (new + 12), eip := ld32 m (new + 16), esp := new + 20\<rparr>, s\<lparr>mem := m\<rparr>)"
  unfolding m_def
  by (simp add: swtch_call_def swtch_code_def machine_run ld32_st32_apart) (simp add: add.commute)

lemma swtch_frame:
  assumes "a \<notin> region (esp r - 28) 28" and "a \<notin> region old 4"
  shows "mem (snd (swtch_call f old new ret (r, s))) a = mem s a"
  using st32_in_region [OF assms(1), of 0] st32_in_region [OF assms(1), of 4] st32_in_region [OF assms(1), of 8]
    st32_in_region [OF assms(1), of 12] st32_in_region [OF assms(1), of 16] st32_in_region [OF assms(1), of 20]
    st32_in_region [OF assms(1), of 24] st32_outside [OF assms(2)]
  by (simp add: swtch_call_regs)

text \<open>What the switch leaves in the frame of its caller.\<close>

lemma swtch_saves:
  assumes "region old 4 \<inter> region (esp r - 28) 28 = {}"
  shows "ld32 (mem (snd (swtch_call f old new ret (r, s)))) old = esp r - 28"
    "ld32 (mem (snd (swtch_call f old new ret (r, s)))) (esp r - 28) = edi r"
    "ld32 (mem (snd (swtch_call f old new ret (r, s)))) (esp r - 24) = esi r"
    "ld32 (mem (snd (swtch_call f old new ret (r, s)))) (esp r - 20) = ebx r"
    "ld32 (mem (snd (swtch_call f old new ret (r, s)))) (esp r - 16) = ebp r"
    "ld32 (mem (snd (swtch_call f old new ret (r, s)))) (esp r - 12) = ret"
proof -
  have old: "ld32 (st32 old v m) (esp r - 28 + of_nat k) = ld32 m (esp r - 28 + of_nat k)" if "k + 4 \<le> 28" for v m k
  proof (rule ld32_frame [OF _ that], intro ballI)
    fix a assume "a \<in> region (esp r - 28) 28"
    then show "st32 old v m a = m a" using assms by (intro st32_outside) auto
  qed
  show "ld32 (mem (snd (swtch_call f old new ret (r, s)))) old = esp r - 28"
    by (simp add: swtch_call_regs)
  show "ld32 (mem (snd (swtch_call f old new ret (r, s)))) (esp r - 28) = edi r"
    "ld32 (mem (snd (swtch_call f old new ret (r, s)))) (esp r - 24) = esi r"
    "ld32 (mem (snd (swtch_call f old new ret (r, s)))) (esp r - 20) = ebx r"
    "ld32 (mem (snd (swtch_call f old new ret (r, s)))) (esp r - 16) = ebp r"
    "ld32 (mem (snd (swtch_call f old new ret (r, s)))) (esp r - 12) = ret"
    using old [of 0] old [of 4] old [of 8] old [of 12] old [of 16]
    by (simp_all add: swtch_call_regs ld32_st32_apart)
qed

text \<open>
  A process that switched away resumes as it was: the next switch to the context it saved
  gives it back its callee-saved registers and its stack pointer and returns to its return
  address, as long as its frame and the saved pointer have not been written in between.
\<close>

lemma swtch_resumes_at:
  fixes rA rB :: machine_regs and sA sB :: "'a kernel_scheme" and f :: "'a callee"
    and oldA newA retA oldB retB :: u32
  defines "s1 \<equiv> snd (swtch_call f oldA newA retA (rA, sA))"
  defines "r2 \<equiv> fst (swtch_call f oldB (ld32 (mem sB) oldA) retB (rB, sB))"
  assumes sepA: "region oldA 4 \<inter> region (esp rA - 28) 28 = {}"
    and kept: "\<forall>a \<in> region (esp rA - 28) 20 \<union> region oldA 4. mem sB a = mem s1 a"
    and sepB: "(region (esp rB - 28) 28 \<union> region oldB 4) \<inter> region (esp rA - 28) 20 = {}"
  shows "edi r2 = edi rA \<and> esi r2 = esi rA \<and> ebx r2 = ebx rA \<and> ebp r2 = ebp rA \<and> eip r2 = retA \<and> esp r2 = esp rA - 8"
proof -
  let ?p = "esp rA - 28"
  let ?mB = "mem (snd (swtch_call f oldB (ld32 (mem sB) oldA) retB (rB, sB)))"
  have p: "ld32 (mem sB) oldA = ?p"
    using ld32_cong [of oldA "mem sB" "mem s1"] kept swtch_saves(1) [OF sepA] by (simp add: s1_def)
  have "\<forall>a \<in> region ?p 20. ?mB a = mem s1 a"
  proof
    fix a assume a: "a \<in> region ?p 20"
    then have "a \<notin> region (esp rB - 28) 28" "a \<notin> region oldB 4" using sepB by auto
    then show "?mB a = mem s1 a" using kept a by (simp add: swtch_frame)
  qed
  note frame = ld32_frame [OF this]
  have slots: "ld32 ?mB ?p = edi rA" "ld32 ?mB (?p + 4) = esi rA" "ld32 ?mB (?p + 8) = ebx rA"
    "ld32 ?mB (?p + 12) = ebp rA" "ld32 ?mB (?p + 16) = retA"
    using frame [of 0] frame [of 4] frame [of 8] frame [of 12] frame [of 16] swtch_saves(2-6) [OF sepA, of f newA retA sA]
    by (simp_all add: s1_def)
  have "r2 = rB\<lparr>eax := oldB, edx := ?p, edi := ld32 ?mB ?p, esi := ld32 ?mB (?p + 4), ebx := ld32 ?mB (?p + 8),
        ebp := ld32 ?mB (?p + 12), eip := ld32 ?mB (?p + 16), esp := ?p + 20\<rparr>"
    unfolding r2_def p by (simp add: swtch_call_regs)
  then show ?thesis unfolding slots by simp
qed

section \<open>The scheduler as a state machine\<close>

text \<open>
  \<open>m_scheduler\<close> is at process \<open>p\<close> of its inner loop (\<open>Scan p\<close>), or has switched to process \<open>i\<close>
  (\<open>In_task i\<close>). A task may spawn, yield, and change anything outside the states and
  \<open>current\<close>; the switches themselves, which write saved contexts and stacks, are such changes.
\<close>

datatype phase = Scan nat | In_task nat

datatype label = Skip | Turn nat | Quiet

inductive sched_step ::
    "u32 \<Rightarrow> phase \<times> 'a kernel_scheme \<Rightarrow> label \<Rightarrow> phase \<times> 'a kernel_scheme \<Rightarrow> bool" for pt where
  skip: "pstate pt s p \<noteq> state_code RUNNABLE \<Longrightarrow>
    sched_step pt (Scan p, s) Skip (Scan ((p + 1) mod NPROC), s)"
| turn: "pstate pt s p = state_code RUNNABLE \<Longrightarrow>
    sched_step pt (Scan p, s) (Turn p) (In_task p, sched_enter pt p s)"
| yield: "yield_enter pt s = Some (j, s') \<Longrightarrow>
    sched_step pt (In_task i, s) Quiet (Scan ((i + 1) mod NPROC), sched_leave pt i s')"
| spawn: "task_l_spawn pt fn s = (v, s') \<Longrightarrow> sched_step pt (In_task i, s) Quiet (In_task i, s')"
| other: "\<forall>i < 8. pstate pt s' i = pstate pt s i \<Longrightarrow> cget pt current_cell s' = cget pt current_cell s \<Longrightarrow>
    sched_step pt (ph, s) Quiet (ph, s')"

inductive sched_run ::
    "u32 \<Rightarrow> phase \<times> 'a kernel_scheme \<Rightarrow> label list \<Rightarrow> phase \<times> 'a kernel_scheme \<Rightarrow> bool" for pt x where
  start: "sched_run pt x [] x"
| step: "sched_run pt x ls y \<Longrightarrow> sched_step pt y l z \<Longrightarrow> sched_run pt x (ls @ [l]) z"

text \<open>At most one process runs, and it is \<open>current\<close>; between turns none does.\<close>

definition resting :: "u32 \<Rightarrow> 'a kernel_scheme \<Rightarrow> nat \<Rightarrow> bool" where
  "resting pt s i \<longleftrightarrow> pstate pt s i = state_code UNUSED \<or> pstate pt s i = state_code RUNNABLE"

definition sched_inv :: "u32 \<Rightarrow> phase \<times> 'a kernel_scheme \<Rightarrow> bool" where
  "sched_inv pt x = (case x of
     (Scan p, s) \<Rightarrow> p < 8 \<and> cget pt current_cell s = - 1 \<and> (\<forall>i < 8. resting pt s i)
   | (In_task p, s) \<Rightarrow> p < 8 \<and> cget pt current_cell s = of_nat p \<and> pstate pt s p = state_code RUNNING
       \<and> (\<forall>i < 8. i \<noteq> p \<longrightarrow> resting pt s i))"

lemma state_cells [simp]:
  "i < 8 \<Longrightarrow> j < 8 \<Longrightarrow> pstate pt (cset pt (state_cell i) v s) j = (if i = j then v else pstate pt s j)"
  "j < 8 \<Longrightarrow> pstate pt (cset pt current_cell v s) j = pstate pt s j"
  "i < 8 \<Longrightarrow> cget pt current_cell (cset pt (state_cell i) v s) = cget pt current_cell s"
  "cget pt current_cell (cset pt current_cell v s) = v"
  by (simp_all add: pstate_def cells)

lemma small_current: "i < 8 \<Longrightarrow> sint (of_nat i :: u32) = int i \<and> unat (of_nat i :: u32) = i"
proof -
  assume "i < 8"
  then have u: "unat (of_nat i :: u32) = i" by (simp add: unat_of_nat_u32)
  then have "uint (of_nat i :: u32) = int i" using int_unat_u32 [of "of_nat i"] by simp
  then show ?thesis using u \<open>i < 8\<close> by (simp add: sint_u32_eq)
qed

lemma yield_in_task:
  assumes "sched_inv pt (In_task i, s)" and "yield_enter pt s = Some (j, s')"
  shows "j = i \<and> s' = cset pt (state_cell i) (state_code RUNNABLE) s"
proof -
  have "i < 8" "cget pt current_cell s = of_nat i" using assms(1) by (simp_all add: sched_inv_def)
  then show ?thesis using assms(2) small_current [of i] by (auto simp: yield_enter_def Let_def)
qed

lemma task_l_spawn_states:
  assumes "task_l_spawn pt fn s = (v, s')" and "i < 8"
  shows "pstate pt s' i = pstate pt s i \<or> pstate pt s i = state_code UNUSED \<and> pstate pt s' i = state_code RUNNABLE"
    "cget pt current_cell s' = cget pt current_cell s"
proof -
  from assms(1) have "(pstate pt s' i = pstate pt s i \<or> pstate pt s i = state_code UNUSED \<and> pstate pt s' i = state_code RUNNABLE)
    \<and> cget pt current_cell s' = cget pt current_cell s"
  proof (cases rule: task_l_spawn_cases)
    case full
    then show ?thesis by simp
  next
    case (slot k)
    then show ?thesis using assms(2) by (cases "i = k") auto
  qed
  then show "pstate pt s' i = pstate pt s i \<or> pstate pt s i = state_code UNUSED \<and> pstate pt s' i = state_code RUNNABLE"
    "cget pt current_cell s' = cget pt current_cell s" by blast+
qed

lemma sched_step_inv: "sched_step pt x l y \<Longrightarrow> sched_inv pt x \<Longrightarrow> sched_inv pt y"
proof (induction rule: sched_step.induct)
  case (skip s p)
  then show ?case by (simp add: sched_inv_def NPROC_def)
next
  case (turn s p)
  then show ?case by (auto simp: sched_inv_def sched_enter_def resting_def)
next
  case (yield s j s' i)
  then show ?case using yield_in_task [OF yield.prems yield.hyps]
    by (auto simp: sched_inv_def sched_leave_def resting_def NPROC_def)
next
  case (spawn fn s v s' i)
  have "pstate pt s' i = state_code RUNNING \<and> (\<forall>k < 8. k \<noteq> i \<longrightarrow> resting pt s' k)
    \<and> cget pt current_cell s' = cget pt current_cell s"
    using spawn.prems task_l_spawn_states [OF spawn.hyps] unfolding sched_inv_def resting_def
    by (fastforce simp: less_Suc_eq)
  then show ?case using spawn.prems by (simp add: sched_inv_def)
next
  case (other s' s ph)
  then show ?case by (cases ph) (simp_all add: sched_inv_def resting_def)
qed

lemma sched_run_inv: "sched_run pt x ls y \<Longrightarrow> sched_inv pt x \<Longrightarrow> sched_inv pt y"
  by (induction rule: sched_run.induct) (auto intro: sched_step_inv)

lemma sched_step_used:
  assumes "sched_step pt x l y" and "sched_inv pt x" and "j < 8" and "pstate pt (snd x) j \<noteq> state_code UNUSED"
  shows "pstate pt (snd y) j \<noteq> state_code UNUSED"
  using assms
proof (induction rule: sched_step.induct)
  case (turn s p)
  then show ?case by (simp add: sched_enter_def sched_inv_def)
next
  case (yield s k s' i)
  then show ?case using yield_in_task [OF yield.prems(1) yield.hyps]
    by (simp add: sched_leave_def sched_inv_def)
next
  case (spawn fn s v s' i)
  then show ?case using task_l_spawn_states(1) [OF spawn.hyps spawn.prems(2)] by auto
qed simp_all

section \<open>Round robin\<close>

text \<open>How far the loop still has to go to process \<open>j\<close>.\<close>

definition distance :: "nat \<Rightarrow> phase \<Rightarrow> nat" where
  "distance j ph = (case ph of Scan p \<Rightarrow> (j + 8 - p) mod 8 | In_task p \<Rightarrow> (j + 7 - p) mod 8)"

definition counts :: "label \<Rightarrow> nat" where
  "counts l = (if l = Quiet then 0 else 1)"

lemma mod8_dec: "p < 8 \<Longrightarrow> j < 8 \<Longrightarrow> p \<noteq> j \<Longrightarrow> Suc ((j + 7 - p) mod 8) = (j + 8 - p) mod 8"
  and mod8_next: "p < 8 \<Longrightarrow> j < 8 \<Longrightarrow> (j + 8 - (p + 1) mod 8) mod 8 = (j + 7 - p) mod (8 :: nat)"
  by (auto simp: mod_if)

lemma sched_step_distance:
  assumes "sched_step pt x l y" and "sched_inv pt x" and "j < 8" and "pstate pt (snd x) j \<noteq> state_code UNUSED"
    and "l \<noteq> Turn j"
  shows "counts l + distance j (fst y) = distance j (fst x)"
  using assms
proof (induction rule: sched_step.induct)
  case (skip s p)
  then have "p < 8" "p \<noteq> j" by (auto simp: sched_inv_def resting_def)
  then show ?case using skip.prems(2) mod8_dec [of p j] mod8_next [of p j] by (simp add: distance_def counts_def NPROC_def)
next
  case (turn s p)
  then have "p < 8" "p \<noteq> j" by (auto simp: sched_inv_def)
  then show ?case using turn.prems(2) mod8_dec [of p j] by (simp add: distance_def counts_def)
next
  case (yield s k s' i)
  then have "i < 8" by (simp add: sched_inv_def)
  then show ?case using yield.prems(2) mod8_next [of i j] by (simp add: distance_def counts_def NPROC_def)
qed (simp_all add: counts_def distance_def)

lemma sched_run_distance:
  assumes "sched_run pt x ls y" and "sched_inv pt x" and "j < 8" and "pstate pt (snd x) j \<noteq> state_code UNUSED"
    and "Turn j \<notin> set ls"
  shows "sum_list (map counts ls) + distance j (fst y) = distance j (fst x)
    \<and> pstate pt (snd y) j \<noteq> state_code UNUSED"
  using assms
proof (induction rule: sched_run.induct)
  case (step ls y l z)
  then have inv: "sched_inv pt y" using sched_run_inv by blast
  have IH: "sum_list (map counts ls) + distance j (fst y) = distance j (fst x)" "pstate pt (snd y) j \<noteq> state_code UNUSED"
    using step by simp_all
  then show ?case
    using sched_step_distance [OF step.hyps(2) inv step.prems(2) IH(2)] sched_step_used [OF step.hyps(2) inv step.prems(2) IH(2)] step.prems(4)
    by (auto simp: eq_commute [of l])
qed simp

lemma distance_less: "distance j ph < 8"
  by (simp add: distance_def split: phase.split)

lemma sched_init_inv: "sched_inv pt (Scan 0, sched_init pt s)"
  using sched_init_cells(1) [of _ pt s] sched_init_cells(2) [of 0 pt s] by (simp add: sched_inv_def resting_def)

lemma sched_spawn_inv: "sched_inv pt (Scan p, s) \<Longrightarrow> sched_inv pt (Scan p, snd (task_l_spawn pt fn s))"
proof -
  assume inv: "sched_inv pt (Scan p, s)"
  obtain v s' where s': "task_l_spawn pt fn s = (v, s')" by fastforce
  show ?thesis
    using inv task_l_spawn_states [OF s'] s' unfolding sched_inv_def resting_def by auto metis+
qed

definition spawn_all :: "u32 \<Rightarrow> u32 list \<Rightarrow> 'a kernel_scheme \<Rightarrow> 'a kernel_scheme" where
  "spawn_all pt fns s = fold (\<lambda>fn s. snd (task_l_spawn pt fn s)) fns s"

lemma spawn_all_inv: "sched_inv pt (Scan p, s) \<Longrightarrow> sched_inv pt (Scan p, spawn_all pt fns s)"
  unfolding spawn_all_def by (induction fns arbitrary: s) (simp_all add: sched_spawn_inv)

section \<open>The loop goes on\<close>

text \<open>
  Between turns the loop has exactly one step of its own, and a task can always yield: fairness
  does not speak of runs that cannot exist, and every process does get its turn in some run.
\<close>

inductive_simps scan_skip: "sched_step pt (Scan p, s) Skip y"
inductive_simps scan_turn: "sched_step pt (Scan p, s) (Turn i) y"

lemma scan_deterministic:
  "\<exists>!ly. fst ly \<noteq> Quiet \<and> sched_step pt (Scan p, s) (fst ly) (snd ly)"
proof (cases "pstate pt s p = state_code RUNNABLE")
  case True
  show ?thesis
  proof (rule ex1I [of _ "(Turn p, In_task p, sched_enter pt p s)"])
    show "ly = (Turn p, In_task p, sched_enter pt p s)"
      if "fst ly \<noteq> Quiet \<and> sched_step pt (Scan p, s) (fst ly) (snd ly)" for ly
      using that True by (cases ly; cases "fst ly") (auto simp: scan_skip scan_turn)
  qed (use True in \<open>simp add: scan_turn\<close>)
next
  case False
  show ?thesis
  proof (rule ex1I [of _ "(Skip, Scan ((p + 1) mod NPROC), s)"])
    show "ly = (Skip, Scan ((p + 1) mod NPROC), s)"
      if "fst ly \<noteq> Quiet \<and> sched_step pt (Scan p, s) (fst ly) (snd ly)" for ly
      using that False by (cases ly; cases "fst ly") (auto simp: scan_skip scan_turn)
  qed (use False in \<open>simp add: scan_skip\<close>)
qed

lemma task_can_yield:
  assumes "sched_inv pt (In_task i, s)"
  shows "\<exists>s'. sched_step pt (In_task i, s) Quiet (Scan ((i + 1) mod NPROC), s')"
proof -
  have "i < 8" "cget pt current_cell s = of_nat i" using assms by (simp_all add: sched_inv_def)
  then have "yield_enter pt s = Some (i, cset pt (state_cell i) (state_code RUNNABLE) s)"
    using small_current [of i] by (simp add: yield_enter_def Let_def)
  then show ?thesis by (blast intro: sched_step.yield)
qed

text \<open>So the loop never gets stuck: from every state it can go on for any number of steps.\<close>

lemma sched_goes_on:
  assumes "sched_inv pt x"
  shows "\<exists>ls y. sched_run pt x ls y \<and> n \<le> sum_list (map counts ls)"
proof (induction n)
  case 0
  show ?case using sched_run.start by fastforce
next
  case (Suc n)
  then obtain ls ph s where run: "sched_run pt x ls (ph, s)" and n: "n \<le> sum_list (map counts ls)" by auto
  have "\<exists>ls p s. sched_run pt x ls (Scan p, s) \<and> n \<le> sum_list (map counts ls)"
  proof (cases ph)
    case (In_task i)
    then obtain t where "sched_step pt (In_task i, s) Quiet (Scan ((i + 1) mod NPROC), t)"
      using task_can_yield sched_run_inv [OF run assms] by blast
    with run In_task have "sched_run pt x (ls @ [Quiet]) (Scan ((i + 1) mod NPROC), t)" by (auto intro: sched_run.step)
    moreover have "n \<le> sum_list (map counts (ls @ [Quiet]))" using n by simp
    ultimately show ?thesis by blast
  qed (use run n in blast)
  then obtain ls p s where scan: "sched_run pt x ls (Scan p, s)" "n \<le> sum_list (map counts ls)" by blast
  obtain l z where "l \<noteq> Quiet" "sched_step pt (Scan p, s) l z" using scan_deterministic [of pt p s] by auto
  with scan have "sched_run pt x (ls @ [l]) z" "Suc n \<le> sum_list (map counts (ls @ [l]))"
    by (auto intro: sched_run.step simp: counts_def)
  then show ?case by blast
qed

lemma every_process_runs:
  assumes "sched_inv pt x" and "j < 8" and "pstate pt (snd x) j \<noteq> state_code UNUSED"
  shows "\<exists>ls y. sched_run pt x ls y \<and> Turn j \<in> set ls"
proof -
  obtain ls y where run: "sched_run pt x ls y" "8 \<le> sum_list (map counts ls)" using sched_goes_on [OF assms(1)] by blast
  then have "Turn j \<in> set ls"
    using sched_run_distance [OF run(1) assms] distance_less [of j "fst x"] by linarith
  with run(1) show ?thesis by blast
qed

section \<open>Properties\<close>

text \<open>
  C9: a process that called \<open>swtch\<close> resumes exactly: the next switch to the context it saved
  restores its callee-saved registers and stack pointer and returns to its return address,
  provided nobody wrote its five-cell frame or the pointer to it meanwhile and the stack of the
  process that switches back lies elsewhere.
\<close>

theorem swtch_resumes:
  assumes "region oldA 4 \<inter> region (esp rA - 28) 28 = {}"
    and "\<forall>a \<in> region (esp rA - 28) 20 \<union> region oldA 4. mem sB a = mem (snd (swtch_call f oldA newA retA (rA, sA))) a"
    and "(region (esp rB - 28) 28 \<union> region oldB 4) \<inter> region (esp rA - 28) 20 = {}"
    and "r2 = fst (swtch_call f oldB (ld32 (mem sB) oldA) retB (rB, sB))"
  shows "edi r2 = edi rA \<and> esi r2 = esi rA \<and> ebx r2 = ebx rA \<and> ebp r2 = ebp rA \<and> eip r2 = retA \<and> esp r2 = esp rA - 8"
  unfolding assms(4) by (rule swtch_resumes_at [OF assms(1-3)])

definition task_regs :: "u32 \<Rightarrow> machine_regs" where
  "task_regs sp = \<lparr>eax = 1, ebx = 2, ecx = 3, edx = 4, esi = 5, edi = 6, ebp = 7, esp = sp, eip = 0, cs = 8, eflags = 0\<rparr>"

definition idle_state :: kernel where
  "idle_state = \<lparr>mem = (\<lambda>_. 0), con = [], ports = [], ticks = 0, halted = False, stuck = False\<rparr>"

lemma swtch_resumes_witness:
  "\<exists>r2 :: machine_regs. ebx r2 = 2 \<and> ebp r2 = 7 \<and> eip r2 = 0x1234 \<and> esp r2 = 0x7FFF8"
proof -
  let ?f = "\<lparr>link = \<lambda>_. 0, body = \<lambda>_ x. x\<rparr> :: unit callee"
  let ?sB = "snd (swtch_call ?f 0x30000 0x40000 0x1234 (task_regs 0x80000, idle_state))"
  let ?r2 = "fst (swtch_call ?f 0x30010 (ld32 (mem ?sB) 0x30000) 0 (task_regs 0x70000, ?sB))"
  have regs: "ebx (task_regs 0x80000) = 2" "ebp (task_regs 0x80000) = 7" "esp (task_regs 0x80000) - 8 = 0x7FFF8"
    by (simp_all add: task_regs_def)
  have sep: "region 0x30000 4 \<inter> region (esp (task_regs 0x80000) - 28) 28 = {}"
    by (rule regions_disjoint) (simp_all add: task_regs_def)
  have "region (esp (task_regs 0x70000) - 28) 28 \<inter> region (esp (task_regs 0x80000) - 28) 20 = {}"
    "region 0x30010 4 \<inter> region (esp (task_regs 0x80000) - 28) 20 = {}"
    by (rule regions_disjoint; simp add: task_regs_def)+
  then have "(region (esp (task_regs 0x70000) - 28) 28 \<union> region 0x30010 4) \<inter> region (esp (task_regs 0x80000) - 28) 20 = {}"
    by blast
  then have "ebx ?r2 = ebx (task_regs 0x80000) \<and> ebp ?r2 = ebp (task_regs 0x80000) \<and> eip ?r2 = 0x1234
      \<and> esp ?r2 = esp (task_regs 0x80000) - 8"
    using swtch_resumes [OF sep _ _ refl, where sB = ?sB and f = ?f and newA = "0x40000" and retA = "0x1234" and sA = idle_state
      and rB = "task_regs 0x70000" and oldB = "0x30010" and retB = 0]
    by blast
  then have "ebx ?r2 = 2 \<and> ebp ?r2 = 7 \<and> eip ?r2 = 0x1234 \<and> esp ?r2 = 0x7FFF8"
    by (simp only: regs)
  then show ?thesis by blast
qed

text \<open>
  The first switch to a process \<open>task_l_spawn\<close> made starts its function, on its own stack,
  with zero in the callee-saved registers.
\<close>

lemma spawned_task_starts:
  assumes "task_l_spawn pt fn s = (int i, s')" and "new = cget pt (context_cell i) s'"
    and "(region (esp r - 28) 28 \<union> region old 4) \<inter> region (cell_at pt (stack_cell i 1001)) 20 = {}"
    and "r2 = fst (swtch_call f old new ret (r, s'))"
  shows "eip r2 = fn \<and> ebx r2 = 0 \<and> esi r2 = 0 \<and> edi r2 = 0 \<and> ebp r2 = 0 \<and> esp r2 = cell_at pt (stack_cell i 1006)"
  using assms(1)
proof (cases rule: task_l_spawn_cases)
  case full
  then show ?thesis by simp
next
  case (slot k)
  then have k: "k = i" and new: "new = cell_at pt (stack_cell i 1001)" using assms(2) by simp_all
  let ?m = "mem (snd (swtch_call f old new ret (r, s')))"
  have "\<forall>a \<in> region new 20. ?m a = mem s' a"
    using assms(3) new by (auto intro!: swtch_frame)
  note frame = ld32_frame [OF this]
  have at: "new + of_nat (4 * n) = cell_at pt (stack_cell i (1001 + n))" for n
    by (simp add: new cell_at_def stack_cell_def)
  have "ld32 ?m new = 0" "ld32 ?m (new + 4) = 0" "ld32 ?m (new + 8) = 0" "ld32 ?m (new + 12) = 0" "ld32 ?m (new + 16) = fn"
    using frame [of 0] frame [of 4] frame [of 8] frame [of 12] frame [of 16] slot(7-11)
      at [of 0] at [of 1] at [of 2] at [of 3] at [of 4] unfolding k cget_def by simp_all
  moreover have "new + 20 = cell_at pt (stack_cell i 1006)" using at [of 5] by simp
  moreover have "r2 = r\<lparr>eax := old, edx := new, edi := ld32 ?m new, esi := ld32 ?m (new + 4), ebx := ld32 ?m (new + 8),
        ebp := ld32 ?m (new + 12), eip := ld32 ?m (new + 16), esp := new + 20\<rparr>"
    unfolding assms(4) by (simp add: swtch_call_regs)
  ultimately show ?thesis by simp
qed

lemma boot_spawn: "task_l_spawn pt fn (sched_init pt idle_state) = (int 0, snd (task_l_spawn pt fn (sched_init pt idle_state)))"
proof -
  have "pstate pt (sched_init pt idle_state) 0 = state_code UNUSED" by (rule sched_init_cells) simp
  then have "List.find (\<lambda>i. cget pt (state_cell i) (sched_init pt idle_state) = state_code UNUSED) [0..<NPROC] = Some 0"
    by (auto simp: NPROC_def pstate_def find_upt_Some)
  then show ?thesis by (simp add: task_l_spawn_def Let_def)
qed

lemma spawned_task_starts_witness:
  "\<exists>r2 :: machine_regs. eip r2 = 0x11000 \<and> esp r2 = cell_at 0x20000 (stack_cell 0 1006) \<and> ebp r2 = 0"
proof -
  let ?f = "\<lparr>link = \<lambda>_. 0, body = \<lambda>_ x. x\<rparr> :: unit callee"
  have "region (cell_at 0x20000 (stack_cell 0 1001)) 20 \<inter> region (esp (task_regs 0x80000) - 28) 28 = {}"
    "region (cell_at 0x20000 (stack_cell 0 1001)) 20 \<inter> region 0x28044 4 = {}"
    by (rule regions_disjoint; simp add: task_regs_def cell_at_def stack_cell_def)+
  then have "(region (esp (task_regs 0x80000) - 28) 28 \<union> region 0x28044 4) \<inter> region (cell_at 0x20000 (stack_cell 0 1001)) 20 = {}"
    by blast
  from spawned_task_starts [OF boot_spawn [of "0x20000" "0x11000"] refl this, OF refl, of ?f "0x55"] show ?thesis by blast
qed

text \<open>
  C10: from an initialised table and any spawns before the loop starts (as in \<open>kmain\<close>), through
  any spawns, yields and turns, a process is in state
  RUNNING exactly while the scheduler is in its turn, and \<open>current\<close> names it (-1 between turns).
\<close>

theorem one_running:
  assumes "sched_run pt (Scan 0, spawn_all pt fns (sched_init pt s)) ls (ph, t)" and "i < 8"
  shows "(pstate pt t i = state_code RUNNING \<longleftrightarrow> ph = In_task i)
    \<and> cget pt current_cell t = (case ph of Scan p \<Rightarrow> - 1 | In_task p \<Rightarrow> of_nat p)"
  using sched_run_inv [OF assms(1) spawn_all_inv [OF sched_init_inv]] assms(2)
  by (cases ph) (auto simp: sched_inv_def resting_def)

text \<open>
  C11: round robin: once a process exists, among any 8 steps of the scheduler's loop (turns
  and skipped slots) one is its turn, whatever the other processes do, as long as each turn
  ends in \<open>yield\<close>.
\<close>

theorem round_robin_fair:
  assumes "sched_inv pt x" and "sched_run pt x ls y" and "j < 8" and "pstate pt (snd x) j \<noteq> state_code UNUSED"
    and "8 \<le> sum_list (map counts ls)"
  shows "Turn j \<in> set ls"
  using sched_run_distance [OF assms(2,1,3,4)] assms(5) distance_less [of j "fst x"] by linarith

lemma one_task_run:
  fixes pt fn :: u32
  defines "s0 \<equiv> snd (task_l_spawn pt fn (sched_init pt idle_state))"
  shows "\<exists>t. sched_run pt (Scan 0, s0) ([Turn 0, Quiet] @ replicate 7 Skip) (Scan 0, t)"
    "pstate pt s0 0 = state_code RUNNABLE" "sched_inv pt (Scan 0, s0)"
proof -
  show inv: "sched_inv pt (Scan 0, s0)" unfolding s0_def by (intro sched_spawn_inv sched_init_inv)
  from boot_spawn [of pt fn] have states: "pstate pt s0 0 = state_code RUNNABLE \<and> (\<forall>j < 8. j \<noteq> 0 \<longrightarrow> pstate pt s0 j = state_code UNUSED)"
  proof (cases rule: task_l_spawn_cases)
    case full
    then show ?thesis by simp
  next
    case (slot i)
    then show ?thesis using sched_init_cells(1) [of _ pt idle_state] by (simp add: s0_def)
  qed
  then show "pstate pt s0 0 = state_code RUNNABLE" by blast
  let ?s1 = "sched_enter pt 0 s0"
  have turn: "sched_step pt (Scan 0, s0) (Turn 0) (In_task 0, ?s1)" using states by (intro sched_step.turn) simp
  define s2 where "s2 = sched_leave pt 0 (cset pt (state_cell 0) (state_code RUNNABLE) ?s1)"
  have "yield_enter pt ?s1 = Some (0, cset pt (state_cell 0) (state_code RUNNABLE) ?s1)"
    by (simp add: yield_enter_def sched_enter_def cells Let_def)
  then have yield: "sched_step pt (In_task 0, ?s1) Quiet (Scan 1, s2)"
    using sched_step.yield [of pt ?s1 0 _ 0] by (simp add: NPROC_def s2_def)
  have unused: "\<forall>j < 8. j \<noteq> 0 \<longrightarrow> pstate pt s2 j \<noteq> state_code RUNNABLE"
    using states by (simp add: s2_def sched_leave_def sched_enter_def)
  have skips: "n \<le> 7 \<Longrightarrow> sched_run pt (Scan 0, s0) ([Turn 0, Quiet] @ replicate n Skip) (Scan ((n + 1) mod 8), s2)" for n
  proof (induction n)
    case 0
    show ?case using sched_run.step [OF sched_run.step [OF sched_run.start turn] yield] by simp
  next
    case (Suc n)
    then have "sched_step pt (Scan ((n + 1) mod 8), s2) Skip (Scan (((n + 1) mod 8 + 1) mod NPROC), s2)"
      using unused by (intro sched_step.skip) simp
    then have "sched_run pt (Scan 0, s0) (([Turn 0, Quiet] @ replicate n Skip) @ [Skip]) (Scan (((n + 1) mod 8 + 1) mod NPROC), s2)"
      using Suc by (intro sched_run.step) simp_all
    then show ?case using Suc.prems by (simp add: NPROC_def replicate_append_same)
  qed
  show "\<exists>t. sched_run pt (Scan 0, s0) ([Turn 0, Quiet] @ replicate 7 Skip) (Scan 0, t)"
    using skips [of 7] by auto
qed

lemma one_running_witness:
  "\<exists>t :: kernel. pstate 0x20000 t 0 = state_code RUNNING \<and> pstate 0x20000 t 3 \<noteq> state_code RUNNING \<and> cget 0x20000 current_cell t = 0"
proof -
  let ?s = "spawn_all 0x20000 [0x11000] (sched_init 0x20000 idle_state)"
  have "sched_step 0x20000 (Scan 0, ?s) (Turn 0) (In_task 0, sched_enter 0x20000 0 ?s)"
    using one_task_run(2) [of "0x20000" "0x11000"] by (intro sched_step.turn) (simp add: spawn_all_def)
  from sched_run.step [OF sched_run.start this]
  have run: "sched_run 0x20000 (Scan 0, ?s) [Turn 0] (In_task 0, sched_enter 0x20000 0 ?s)" by simp
  show ?thesis using one_running [OF run, of 0] one_running [OF run, of 3] by auto
qed

lemma round_robin_fair_witness: "Turn 0 \<in> set ([Turn 0, Quiet] @ replicate 7 Skip)"
proof -
  obtain t where "sched_run 0x20000 (Scan 0, snd (task_l_spawn 0x20000 0x11000 (sched_init 0x20000 idle_state)))
      ([Turn 0, Quiet] @ replicate 7 Skip) (Scan 0, t)"
    using one_task_run(1) by blast
  from round_robin_fair [OF one_task_run(3) this] one_task_run(2) [of "0x20000" "0x11000"] show ?thesis
    by (simp add: counts_def)
qed

end
