(* ===== verification/Ata.thy ===== *)
theory Ata
  imports Pmm "HOL-Library.Monad_Syntax"
begin

text \<open>
  \<open>kernel/drivers/ata.c\<close>: the PIO disk driver. The device on the other side of the ports is not
  in the repository: it is a parameter \<open>D\<close>, four functions on a device state, and \<open>ata_drive\<close>
  states what the ATA standard documents of it (an abstract drive behind a busy flag that
  clears after finitely many status reads). A busy wait that does not end is \<open>None\<close>. The
  driver is shown to be a block device (the locale's laws), and what it does on a drive that
  reports an error.
\<close>

section \<open>Port-mapped devices\<close>

record 'd port_dev =
  in8 :: "u16 \<Rightarrow> 'd \<Rightarrow> u8 \<times> 'd"
  out8 :: "u16 \<Rightarrow> u8 \<Rightarrow> 'd \<Rightarrow> 'd"
  in16 :: "u16 \<Rightarrow> 'd \<Rightarrow> u16 \<times> 'd"
  out16 :: "u16 \<Rightarrow> u16 \<Rightarrow> 'd \<Rightarrow> 'd"

text \<open>The kernel state with the disk attached.\<close>

record 'd storage = pmm_state +
  dev :: 'd

section \<open>The registers\<close>

definition ATA_PRIMARY_DATA :: u16 where "ATA_PRIMARY_DATA = 0x1F0"
definition ATA_PRIMARY_SECCOUNT :: u16 where "ATA_PRIMARY_SECCOUNT = 0x1F2"
definition ATA_PRIMARY_LBA_LO :: u16 where "ATA_PRIMARY_LBA_LO = 0x1F3"
definition ATA_PRIMARY_LBA_MID :: u16 where "ATA_PRIMARY_LBA_MID = 0x1F4"
definition ATA_PRIMARY_LBA_HI :: u16 where "ATA_PRIMARY_LBA_HI = 0x1F5"
definition ATA_PRIMARY_DRIVE :: u16 where "ATA_PRIMARY_DRIVE = 0x1F6"
definition ATA_PRIMARY_COMMAND :: u16 where "ATA_PRIMARY_COMMAND = 0x1F7"
definition ATA_PRIMARY_STATUS :: u16 where "ATA_PRIMARY_STATUS = 0x1F7"
definition ATA_CMD_READ_SECTORS :: u8 where "ATA_CMD_READ_SECTORS = 0x20"
definition ATA_CMD_WRITE_SECTORS :: u8 where "ATA_CMD_WRITE_SECTORS = 0x30"
definition ATA_STATUS_BSY :: u8 where "ATA_STATUS_BSY = 0x80"
definition ATA_STATUS_DRQ :: u8 where "ATA_STATUS_DRQ = 0x08"
definition ATA_STATUS_ERR :: u8 where "ATA_STATUS_ERR = 0x01"

lemmas ata_regs = ATA_PRIMARY_DATA_def ATA_PRIMARY_SECCOUNT_def ATA_PRIMARY_LBA_LO_def ATA_PRIMARY_LBA_MID_def
  ATA_PRIMARY_LBA_HI_def ATA_PRIMARY_DRIVE_def ATA_PRIMARY_COMMAND_def ATA_PRIMARY_STATUS_def
  ATA_CMD_READ_SECTORS_def ATA_CMD_WRITE_SECTORS_def

section \<open>The driver\<close>

partial_function (option) ata_wait_busy :: "'d port_dev \<Rightarrow> 'd \<Rightarrow> 'd option" where
  "ata_wait_busy D d =
     (if fst (in8 D ATA_PRIMARY_STATUS d) AND ATA_STATUS_BSY \<noteq> 0
      then ata_wait_busy D (snd (in8 D ATA_PRIMARY_STATUS d))
      else Some (snd (in8 D ATA_PRIMARY_STATUS d)))"

partial_function (option) ata_wait_drq :: "'d port_dev \<Rightarrow> 'd \<Rightarrow> 'd option" where
  "ata_wait_drq D d =
     (if fst (in8 D ATA_PRIMARY_STATUS d) AND ATA_STATUS_DRQ = 0
      then ata_wait_drq D (snd (in8 D ATA_PRIMARY_STATUS d))
      else Some (snd (in8 D ATA_PRIMARY_STATUS d)))"

definition ata_init :: "'d port_dev \<Rightarrow> 'd \<Rightarrow> 'd" where
  "ata_init D d = ((\<lambda>d. snd (in8 D ATA_PRIMARY_STATUS d)) ^^ 4) (out8 D ATA_PRIMARY_DRIVE 0xA0 d)"

text \<open>\<open>rep insw\<close> and \<open>rep outsw\<close>.\<close>

primrec insw :: "'d port_dev \<Rightarrow> u16 \<Rightarrow> u32 \<Rightarrow> nat \<Rightarrow> memory \<times> 'd \<Rightarrow> memory \<times> 'd" where
  "insw D port buf 0 x = x"
| "insw D port buf (Suc n) x =
     (let (w, d) = in16 D port (snd x) in insw D port (buf + 2) n (st16 buf w (fst x), d))"

primrec outsw :: "'d port_dev \<Rightarrow> u16 \<Rightarrow> memory \<Rightarrow> u32 \<Rightarrow> nat \<Rightarrow> 'd \<Rightarrow> 'd" where
  "outsw D port m buf 0 d = d"
| "outsw D port m buf (Suc n) d = outsw D port m (buf + 2) n (out16 D port (ld16 m buf) d)"

definition ata_command :: "'d port_dev \<Rightarrow> u32 \<Rightarrow> u8 \<Rightarrow> u8 \<Rightarrow> 'd \<Rightarrow> 'd" where
  "ata_command D lba count cmd d =
     (let d = out8 D ATA_PRIMARY_DRIVE (0xE0 OR (ucast (drop_bit 24 lba) AND 0x0F)) d;
          d = out8 D ATA_PRIMARY_SECCOUNT count d;
          d = out8 D ATA_PRIMARY_LBA_LO (ucast (lba AND 0xFF)) d;
          d = out8 D ATA_PRIMARY_LBA_MID (ucast (drop_bit 8 lba AND 0xFF)) d;
          d = out8 D ATA_PRIMARY_LBA_HI (ucast (drop_bit 16 lba AND 0xFF)) d
      in out8 D ATA_PRIMARY_COMMAND cmd d)"

text \<open>The loops over the sectors; the flag says whether they ran to their end.\<close>

primrec ata_read_loop :: "'d port_dev \<Rightarrow> nat \<Rightarrow> u32 \<Rightarrow> memory \<times> 'd \<Rightarrow> (bool \<times> memory \<times> 'd) option" where
  "ata_read_loop D 0 buf x = Some (True, x)"
| "ata_read_loop D (Suc n) buf x =
     do { d \<leftarrow> ata_wait_busy D (snd x);
          d \<leftarrow> ata_wait_drq D d;
          (let (st, d) = in8 D ATA_PRIMARY_STATUS d in
           if st AND ATA_STATUS_ERR \<noteq> 0 then Some (False, fst x, d)
           else ata_read_loop D n (buf + 512) (insw D ATA_PRIMARY_DATA buf 256 (fst x, d))) }"

primrec ata_write_loop :: "'d port_dev \<Rightarrow> memory \<Rightarrow> nat \<Rightarrow> u32 \<Rightarrow> 'd \<Rightarrow> (bool \<times> 'd) option" where
  "ata_write_loop D m 0 buf d = Some (True, d)"
| "ata_write_loop D m (Suc n) buf d =
     do { d \<leftarrow> ata_wait_busy D d;
          d \<leftarrow> ata_wait_drq D d;
          (let (st, d) = in8 D ATA_PRIMARY_STATUS d in
           if st AND ATA_STATUS_ERR \<noteq> 0 then Some (False, d)
           else ata_write_loop D m n (buf + 512) (outsw D ATA_PRIMARY_DATA m buf 256 d)) }"

definition ata_read_sectors ::
    "'d port_dev \<Rightarrow> u32 \<Rightarrow> u8 \<Rightarrow> u32 \<Rightarrow> ('d, 'a) storage_scheme \<Rightarrow> (int \<times> ('d, 'a) storage_scheme) option" where
  "ata_read_sectors D lba count buffer s =
     (if count = 0 then Some (err_code ERR_FAILED, s)
      else do { d \<leftarrow> ata_wait_busy D (dev s);
                (ok, m, d) \<leftarrow> ata_read_loop D (unat count) buffer (mem s, ata_command D lba count ATA_CMD_READ_SECTORS d);
                Some (if ok then int (unat count) else err_code ERR_FAILED, s\<lparr>mem := m, dev := d\<rparr>) })"

definition ata_write_sectors ::
    "'d port_dev \<Rightarrow> u32 \<Rightarrow> u8 \<Rightarrow> u32 \<Rightarrow> ('d, 'a) storage_scheme \<Rightarrow> (int \<times> ('d, 'a) storage_scheme) option" where
  "ata_write_sectors D lba count buffer s =
     (if count = 0 then Some (err_code ERR_FAILED, s)
      else do { d \<leftarrow> ata_wait_busy D (dev s);
                (ok, d) \<leftarrow> ata_write_loop D (mem s) (unat count) buffer (ata_command D lba count ATA_CMD_WRITE_SECTORS d);
                Some (if ok then int (unat count) else err_code ERR_FAILED, s\<lparr>dev := d\<rparr>) })"

section \<open>The device\<close>

text \<open>
  What the driver relies on. Behind the ports is a drive: its sectors (256 words each), the
  command block registers and the transfer in progress. A read command queues the words of
  the sectors addressed; a write command collects words and stores each full sector. \<open>lag\<close>
  bounds the status reads for which the drive still reports busy.
\<close>

datatype transfer = Ready | To_host "u16 list" | To_disk nat nat "u16 list"

record drive =
  image :: "nat \<Rightarrow> u16 list"
  block_regs :: "u16 \<Rightarrow> u8"
  transfer :: transfer

definition lba28 :: "(u16 \<Rightarrow> u8) \<Rightarrow> nat" where
  "lba28 r = unat (r 0x1F3) + 2 ^ 8 * unat (r 0x1F4) + 2 ^ 16 * unat (r 0x1F5) + 2 ^ 24 * (unat (r 0x1F6) mod 16)"

text \<open>The drive register selects the first drive (bit 4 clear) and addressing by sector number (bit 6 set).\<close>

definition lba_mode :: "(u16 \<Rightarrow> u8) \<Rightarrow> bool" where
  "lba_mode r \<longleftrightarrow> r 0x1F6 AND 0x50 = 0x40"

definition start_read :: "drive \<Rightarrow> drive" where
  "start_read v = (let l = lba28 (block_regs v); n = unat (block_regs v 0x1F2)
     in v\<lparr>transfer := To_host (concat (map (image v) [l..<l + n]))\<rparr>)"

definition start_write :: "drive \<Rightarrow> drive" where
  "start_write v = v\<lparr>transfer := To_disk (lba28 (block_regs v)) (unat (block_regs v 0x1F2)) []\<rparr>"

fun take_word :: "u16 \<Rightarrow> drive \<Rightarrow> drive" where
  "take_word w v = (case transfer v of
     To_disk l k acc \<Rightarrow>
       if length acc < 255 then v\<lparr>transfer := To_disk l k (acc @ [w])\<rparr>
       else v\<lparr>image := (image v)(l := acc @ [w]), transfer := (if k \<le> 1 then Ready else To_disk (l + 1) (k - 1) [])\<rparr>
   | _ \<Rightarrow> v)"

definition ata_status :: "'d port_dev \<Rightarrow> ('d \<Rightarrow> drive) \<Rightarrow> ('d \<Rightarrow> nat) \<Rightarrow> bool" where
  "ata_status D view lag \<longleftrightarrow> (\<forall>d. let (st, d') = in8 D 0x1F7 d in
     view d' = view d \<and>
     (if lag d = 0
      then lag d' = 0 \<and> st AND 0x80 = 0 \<and> st AND 0x01 = 0 \<and> (st AND 0x08 \<noteq> 0 \<longleftrightarrow> transfer (view d) \<noteq> Ready)
      else st AND 0x80 \<noteq> 0 \<and> lag d' < lag d))"

definition ata_registers :: "'d port_dev \<Rightarrow> ('d \<Rightarrow> drive) \<Rightarrow> ('d \<Rightarrow> nat) \<Rightarrow> bool" where
  "ata_registers D view lag \<longleftrightarrow> (\<forall>d port v. lag d = 0 \<and> transfer (view d) = Ready \<longrightarrow>
     (port \<in> {0x1F2, 0x1F3, 0x1F4, 0x1F5, 0x1F6} \<longrightarrow>
        lag (out8 D port v d) = 0 \<and> view (out8 D port v d) = (view d)\<lparr>block_regs := (block_regs (view d))(port := v)\<rparr>))"

definition ata_commands :: "'d port_dev \<Rightarrow> ('d \<Rightarrow> drive) \<Rightarrow> ('d \<Rightarrow> nat) \<Rightarrow> nat \<Rightarrow> bool" where
  "ata_commands D view lag cap \<longleftrightarrow> (\<forall>d. lag d = 0 \<and> transfer (view d) = Ready \<and> block_regs (view d) 0x1F2 \<noteq> 0 \<and>
     lba_mode (block_regs (view d)) \<and> lba28 (block_regs (view d)) + unat (block_regs (view d) 0x1F2) \<le> cap \<longrightarrow>
     view (out8 D 0x1F7 0x20 d) = start_read (view d) \<and> view (out8 D 0x1F7 0x30 d) = start_write (view d))"

definition ata_data :: "'d port_dev \<Rightarrow> ('d \<Rightarrow> drive) \<Rightarrow> ('d \<Rightarrow> nat) \<Rightarrow> bool" where
  "ata_data D view lag \<longleftrightarrow>
     (\<forall>d w ws. lag d = 0 \<and> transfer (view d) = To_host (w # ws) \<longrightarrow>
        (let (w', d') = in16 D 0x1F0 d in
         w' = w \<and> view d' = (view d)\<lparr>transfer := (if ws = [] then Ready else To_host ws)\<rparr>
         \<and> (length ws mod 256 \<noteq> 0 \<longrightarrow> lag d' = 0))) \<and>
     (\<forall>d w l k acc. lag d = 0 \<and> transfer (view d) = To_disk l k acc \<longrightarrow>
        view (out16 D 0x1F0 w d) = take_word w (view d) \<and> (length acc < 255 \<longrightarrow> lag (out16 D 0x1F0 w d) = 0))"

definition ata_drive :: "'d port_dev \<Rightarrow> ('d \<Rightarrow> drive) \<Rightarrow> ('d \<Rightarrow> nat) \<Rightarrow> nat \<Rightarrow> bool" where
  "ata_drive D view lag cap \<longleftrightarrow>
     ata_status D view lag \<and> ata_registers D view lag \<and> ata_commands D view lag cap \<and> ata_data D view lag"

text \<open>The bytes of a sector as the host sees them, and a drive at rest.\<close>

definition word_bytes :: "u16 list \<Rightarrow> u8 list" where
  "word_bytes ws = concat (map (\<lambda>w. [byte_n w 0, byte_n w 1]) ws)"

definition sector_of :: "('d \<Rightarrow> drive) \<Rightarrow> 'd \<Rightarrow> nat \<Rightarrow> u8 list" where
  "sector_of view d l = word_bytes (image (view d) l)"

definition ata_ready :: "'d port_dev \<Rightarrow> ('d \<Rightarrow> drive) \<Rightarrow> ('d \<Rightarrow> nat) \<Rightarrow> nat \<Rightarrow> 'd \<Rightarrow> bool" where
  "ata_ready D view lag cap d \<longleftrightarrow>
     ata_drive D view lag cap \<and> cap \<le> 2 ^ 28 \<and> transfer (view d) = Ready \<and> (\<forall>l < cap. length (image (view d) l) = 256)"

section \<open>The driver against a working drive\<close>

lemma wait_busy_ready:
  assumes "ata_status D view lag"
  shows "\<exists>d'. ata_wait_busy D d = Some d' \<and> view d' = view d \<and> lag d' = 0"
proof (induction "lag d" arbitrary: d rule: less_induct)
  case less
  obtain st d' where st: "in8 D 0x1F7 d = (st, d')" by fastforce
  with assms have *: "view d' = view d" "lag d = 0 \<Longrightarrow> lag d' = 0 \<and> st AND 0x80 = 0"
    "lag d \<noteq> 0 \<Longrightarrow> st AND 0x80 \<noteq> 0 \<and> lag d' < lag d"
    unfolding ata_status_def by (auto dest!: spec [of _ d])
  show ?case
  proof (cases "lag d = 0")
    case True
    then show ?thesis using * st
      by (subst ata_wait_busy.simps) (simp add: ata_regs ATA_STATUS_BSY_def)
  next
    case False
    then obtain d'' where "ata_wait_busy D d' = Some d''" "view d'' = view d'" "lag d'' = 0"
      using * less [of d'] by auto
    then show ?thesis using * False st
      by (subst ata_wait_busy.simps) (simp add: ata_regs ATA_STATUS_BSY_def)
  qed
qed

lemma status_ready:
  assumes "ata_status D view lag" and "lag d = 0"
  shows "\<exists>st d'. in8 D 0x1F7 d = (st, d') \<and> view d' = view d \<and> lag d' = 0 \<and> st AND 0x01 = 0
    \<and> (st AND 0x08 \<noteq> 0 \<longleftrightarrow> transfer (view d) \<noteq> Ready)"
  using assms by (cases "in8 D 0x1F7 d") (auto simp: ata_status_def Let_def dest!: spec [of _ d])

lemma wait_drq_ready:
  assumes "ata_status D view lag" and "lag d = 0" and "transfer (view d) \<noteq> Ready"
  shows "\<exists>d'. ata_wait_drq D d = Some d' \<and> view d' = view d \<and> lag d' = 0"
  using status_ready [OF assms(1,2)] assms(3)
  by (subst ata_wait_drq.simps) (auto simp: ata_regs ATA_STATUS_DRQ_def)

text \<open>Before each sector the driver finds the drive ready to transfer.\<close>

lemma sector_turn:
  assumes "ata_status D view lag" and "transfer (view d) \<noteq> Ready"
  obtains d1 d2 st d' where "ata_wait_busy D d = Some d1" "ata_wait_drq D d1 = Some d2"
    "in8 D ATA_PRIMARY_STATUS d2 = (st, d')" "st AND ATA_STATUS_ERR = 0" "view d' = view d" "lag d' = 0"
proof -
  obtain d1 where 1: "ata_wait_busy D d = Some d1" "view d1 = view d" "lag d1 = 0"
    using wait_busy_ready [OF assms(1)] by blast
  obtain d2 where 2: "ata_wait_drq D d1 = Some d2" "view d2 = view d1" "lag d2 = 0"
    using wait_drq_ready [OF assms(1) 1(3)] 1(2) assms(2) by auto
  obtain st d' where 3: "in8 D 0x1F7 d2 = (st, d')" "view d' = view d2" "lag d' = 0" "st AND 0x01 = 0"
    using status_ready [OF assms(1) 2(3)] by blast
  show thesis by (rule that [of d1 d2 st d']) (use 1 2 3 in \<open>simp_all add: ata_regs ATA_STATUS_ERR_def\<close>)
qed

lemma word_bytes_simps [simp]:
  "word_bytes [] = []" "word_bytes (w # ws) = byte_n w 0 # byte_n w 1 # word_bytes ws"
  "word_bytes (xs @ ys) = word_bytes xs @ word_bytes ys" "length (word_bytes ws) = 2 * length ws"
  by (simp_all add: word_bytes_def) (induction ws; simp)

lemma insw_words:
  assumes "ata_data D view lag"
  shows "lag d = 0 \<Longrightarrow> transfer (view d) = To_host (ws @ rest) \<Longrightarrow> ws \<noteq> [] \<Longrightarrow> length ws \<le> 256 \<Longrightarrow> length rest mod 256 = 0 \<Longrightarrow>
    \<exists>d'. insw D 0x1F0 buf (length ws) (m, d) = (poke buf (word_bytes ws) m, d')
      \<and> view d' = (view d)\<lparr>transfer := (if rest = [] then Ready else To_host rest)\<rparr>"
proof (induction ws arbitrary: d m buf)
  case (Cons w ws)
  obtain w' d' where in16: "in16 D 0x1F0 d = (w', d')" by fastforce
  with assms Cons.prems have *: "w' = w"
    "view d' = (view d)\<lparr>transfer := (if ws @ rest = [] then Ready else To_host (ws @ rest))\<rparr>"
    "length (ws @ rest) mod 256 \<noteq> 0 \<longrightarrow> lag d' = 0"
    unfolding ata_data_def by (auto dest!: spec [of _ d])
  have step: "insw D 0x1F0 buf (length (w # ws)) (m, d) = insw D 0x1F0 (buf + 2) (length ws) (st16 buf w m, d')"
    using in16 * by simp
  have st: "poke buf (word_bytes (w # ws)) m = poke (buf + 2) (word_bytes ws) (st16 buf w m)"
    by (simp add: poke_Cons st16_def add.commute [of 2])
  show ?case
  proof (cases "ws = []")
    case True
    then show ?thesis using step st * by simp
  next
    case False
    have "length (ws @ rest) mod 256 \<noteq> 0"
      using False Cons.prems(4,5) by (simp add: mod_add_right_eq [symmetric, of "length ws" "length rest"])
    then have "lag d' = 0" "transfer (view d') = To_host (ws @ rest)" using * False by simp_all
    then obtain d'' where "insw D 0x1F0 (buf + 2) (length ws) (st16 buf w m, d') = (poke (buf + 2) (word_bytes ws) (st16 buf w m), d'')"
      "view d'' = (view d')\<lparr>transfer := (if rest = [] then Ready else To_host rest)\<rparr>"
      using Cons.IH [of d' "buf + 2" "st16 buf w m"] False Cons.prems by auto
    then show ?thesis using step st * by simp
  qed
qed simp

lemma read_loop_words:
  assumes "ata_status D view lag" and "ata_data D view lag"
  shows "transfer (view d) = (if secs = [] then Ready else To_host (concat secs)) \<Longrightarrow> \<forall>ws \<in> set secs. length ws = 256 \<Longrightarrow>
    \<exists>d'. ata_read_loop D (length secs) buf (m, d) = Some (True, poke buf (word_bytes (concat secs)) m, d')
      \<and> view d' = (view d)\<lparr>transfer := Ready\<rparr>"
proof (induction secs arbitrary: d m buf)
  case (Cons ws secs)
  have "transfer (view d) \<noteq> Ready" using Cons.prems by simp
  from sector_turn [OF assms(1) this] obtain d1 d2 st d3 where turn:
    "ata_wait_busy D d = Some d1" "ata_wait_drq D d1 = Some d2" "in8 D ATA_PRIMARY_STATUS d2 = (st, d3)"
    "st AND ATA_STATUS_ERR = 0" "view d3 = view d" "lag d3 = 0" .
  have rest: "length (concat secs) mod 256 = 0"
    using Cons.prems(2) by (induction secs) (simp_all add: mod_add_eq [symmetric])
  have len: "length ws = 256" using Cons.prems(2) by simp
  then have "ws \<noteq> []" by auto
  then obtain d4 where in256: "insw D 0x1F0 buf 256 (m, d3) = (poke buf (word_bytes ws) m, d4)"
    "view d4 = (view d3)\<lparr>transfer := (if concat secs = [] then Ready else To_host (concat secs))\<rparr>"
    using insw_words [OF assms(2) turn(6), of ws "concat secs" buf m] turn(5) len rest Cons.prems by auto
  have "concat secs = [] \<longleftrightarrow> secs = []" using Cons.prems(2) by (cases secs) auto
  then have "transfer (view d4) = (if secs = [] then Ready else To_host (concat secs))" using in256 by simp
  from Cons.IH [OF this, of "buf + 512" "poke buf (word_bytes ws) m"] Cons.prems(2)
  obtain d5 where "ata_read_loop D (length secs) (buf + 512) (poke buf (word_bytes ws) m, d4)
      = Some (True, poke (buf + 512) (word_bytes (concat secs)) (poke buf (word_bytes ws) m), d5)"
    "view d5 = (view d4)\<lparr>transfer := Ready\<rparr>" by auto
  then show ?case
    using turn in256 len by (simp add: poke_append ATA_PRIMARY_DATA_def)
qed simp

text \<open>The command block: the address registers hold the low 28 bits of the sector number.\<close>

lemma unat_low_byte:
  fixes x :: u32
  shows "unat (ucast (x AND 0xFF) :: u8) = unat x mod 256"
proof -
  have "(ucast (x AND 0xFF) :: u8) = ucast x"
    by (rule bit_word_eqI) (auto simp: bit_simps bit_low_mask)
  then show ?thesis by (simp add: unsigned_ucast_eq take_bit_eq_mod)
qed

lemma unat_drop_bit: "unat (drop_bit n (x :: u32)) = unat x div 2 ^ n"
  unfolding unat_drop_bit_eq by (rule drop_bit_eq_div)

lemma unat_mod_16: "unat (w :: u8) mod 16 = unat (take_bit 4 w)"
  unfolding unsigned_take_bit_eq by (simp add: take_bit_eq_mod)

lemma unat_drive_byte:
  fixes x :: u32
  shows "unat (0xE0 OR (ucast (drop_bit 24 x) AND 0x0F) :: u8) mod 16 = unat x div 2 ^ 24 mod 16"
proof -
  have nibble: "(0x0F :: u8) = mask 4" "(0xE0 :: u8) = push_bit 5 7"
    by (simp_all add: mask_eq_exp_minus_1 push_bit_eq_mult)
  have "take_bit 4 (0xE0 OR (ucast (drop_bit 24 x) AND 0x0F) :: u8) = take_bit 4 (ucast (drop_bit 24 x))"
    unfolding nibble by (rule bit_word_eqI) (auto simp: bit_simps)
  then have "unat (0xE0 OR (ucast (drop_bit 24 x) AND 0x0F) :: u8) mod 16 = unat (ucast (drop_bit 24 x) :: u8) mod 16"
    by (simp only: unat_mod_16)
  moreover have "unat (ucast y :: u8) = unat y mod 256" for y :: u32
    by (simp add: unsigned_ucast_eq take_bit_eq_mod)
  ultimately show ?thesis by (simp only: unat_drop_bit) (simp add: mod_mod_cancel)
qed

lemma drive_byte_mode: "(0xE0 OR (ucast (drop_bit 24 (x :: u32)) AND 0x0F) :: u8) AND 0x50 = 0x40"
proof -
  have bits: "(0xE0 :: u8) AND 0x50 = 0x40" "(0x0F :: u8) AND 0x50 = 0" by simp_all
  have "((ucast (drop_bit 24 x) AND 0x0F) AND 0x50 :: u8) = 0" by (simp only: and.assoc bits) simp
  then show ?thesis by (simp only: bit.conj_disj_distrib2 bits) simp
qed

lemma lba28_split:
  assumes "n < 2 ^ 28"
  shows "n mod 256 + 2 ^ 8 * (n div 2 ^ 8 mod 256) + 2 ^ 16 * (n div 2 ^ 16 mod 256) + 2 ^ 24 * (n div 2 ^ 24 mod 16) = (n :: nat)"
proof -
  have "n = n mod 268435456" using assms by simp
  moreover have "n mod 268435456 = 16777216 * (n div 16777216 mod 16) + n mod 16777216"
    using mod_mult2_eq [of n 16777216 16] by simp
  moreover have "n mod 16777216 = 65536 * (n div 65536 mod 256) + n mod 65536"
    using mod_mult2_eq [of n 65536 256] by simp
  moreover have "n mod 65536 = 256 * (n div 256 mod 256) + n mod 256"
    using mod_mult2_eq [of n 256 256] by simp
  ultimately have "n mod 256 + 256 * (n div 256 mod 256) + 65536 * (n div 65536 mod 256) + 16777216 * (n div 16777216 mod 16) = n"
    by linarith
  moreover have "(2 :: nat) ^ 8 = 256" "(2 :: nat) ^ 16 = 65536" "(2 :: nat) ^ 24 = 16777216" by simp_all
  ultimately show ?thesis by (simp only:)
qed

lemma command_regs:
  fixes d :: 'd and D :: "'d port_dev"
  assumes "ata_drive D view lag cap" and "lag d = 0" and "transfer (view d) = Ready"
    and "count \<noteq> 0" and "unat lba + unat count \<le> cap" and "cap \<le> 2 ^ 28"
  shows "\<exists>r. view (ata_command D lba count 0x20 d) = (view d)\<lparr>block_regs := r,
        transfer := To_host (concat (map (image (view d)) [unat lba..<unat lba + unat count]))\<rparr>
    \<and> view (ata_command D lba count 0x30 d) = (view d)\<lparr>block_regs := r, transfer := To_disk (unat lba) (unat count) []\<rparr>"
proof -
  have out: "lag (out8 D port v d) = 0 \<and> view (out8 D port v d) = (view d)\<lparr>block_regs := (block_regs (view d))(port := v)\<rparr>"
    if "lag d = 0" "transfer (view d) = Ready" "port \<in> {0x1F2, 0x1F3, 0x1F4, 0x1F5, 0x1F6}" for d port v
  proof -
    have "ata_registers D view lag" using assms(1) by (simp add: ata_drive_def)
    from this [unfolded ata_registers_def, rule_format, of d port v] that show ?thesis by blast
  qed
  define d5 where "d5 = out8 D 0x1F5 (ucast (drop_bit 16 lba AND 0xFF)) (out8 D 0x1F4 (ucast (drop_bit 8 lba AND 0xFF))
    (out8 D 0x1F3 (ucast (lba AND 0xFF)) (out8 D 0x1F2 count (out8 D 0x1F6 (0xE0 OR (ucast (drop_bit 24 lba) AND 0x0F)) d))))"
  define r where "r = block_regs (view d5)"
  have d5: "lag d5 = 0" "view d5 = (view d)\<lparr>block_regs := r\<rparr>" "r 0x1F2 = count" "r 0x1F3 = ucast (lba AND 0xFF)"
    "r 0x1F4 = ucast (drop_bit 8 lba AND 0xFF)" "r 0x1F5 = ucast (drop_bit 16 lba AND 0xFF)"
    "r 0x1F6 = 0xE0 OR (ucast (drop_bit 24 lba) AND 0x0F)"
    using out assms(2,3) by (simp_all add: d5_def r_def)
  have "0 < unat count" using assms(4) by (simp add: unat_gt_0)
  then have "unat lba < 2 ^ 28" using assms(5,6) by linarith
  then have "lba28 r = unat lba"
    using lba28_split [of "unat lba"] unfolding lba28_def d5 by (simp only: unat_low_byte unat_drive_byte unat_drop_bit)
  moreover have "lba_mode r" unfolding lba_mode_def d5 by (rule drive_byte_mode)
  moreover have "ata_command D lba count cmd d = out8 D 0x1F7 cmd d5" for cmd
    by (simp add: ata_command_def d5_def ata_regs)
  moreover have "ata_commands D view lag cap" using assms(1) by (simp add: ata_drive_def)
  ultimately show ?thesis
    using d5 assms(3-5) unfolding ata_commands_def
    by (intro exI [of _ r]) (auto simp: start_read_def start_write_def Let_def dest!: spec [of _ d5])
qed

definition words_at :: "memory \<Rightarrow> u32 \<Rightarrow> nat \<Rightarrow> u16 list" where
  "words_at m buf n = map (\<lambda>i. ld16 m (buf + of_nat (2 * i))) [0..<n]"

lemma words_at_simps [simp]: "words_at m buf 0 = []" "length (words_at m buf n) = n"
  "words_at m buf (Suc n) = ld16 m buf # words_at m (buf + 2) n"
  by (simp_all add: words_at_def del: upt_Suc) (simp add: upt_conv_Cons map_Suc_upt [symmetric] comp_def add.assoc del: upt_Suc map_Suc_upt)

lemma word_bytes_words_at: "word_bytes (words_at m buf n) = peek m buf (2 * n)"
proof (induction n arbitrary: buf)
  case (Suc n)
  have "peek m buf (2 + 2 * n) = peek m buf 2 @ peek m (buf + 2) (2 * n)"
    using peek_append [of m buf 2 "2 * n"] by simp
  moreover have "peek m buf 2 = [m buf, m (buf + 1)]" by (simp add: peek_def numeral_2_eq_2)
  ultimately show ?case using Suc by (simp add: ld16_def)
qed (simp add: peek_def)

lemma outsw_words:
  assumes "ata_data D view lag"
  shows "lag d = 0 \<Longrightarrow> transfer (view d) = To_disk l k acc \<Longrightarrow> length acc + n = 256 \<Longrightarrow> 0 < n \<Longrightarrow>
    view (outsw D 0x1F0 m buf n d) = (view d)\<lparr>image := (image (view d))(l := acc @ words_at m buf n),
      transfer := (if k \<le> 1 then Ready else To_disk (l + 1) (k - 1) [])\<rparr>"
proof (induction n arbitrary: d acc buf)
  case (Suc n)
  define d' where "d' = out16 D 0x1F0 (ld16 m buf) d"
  have d': "view d' = take_word (ld16 m buf) (view d)" "length acc < 255 \<longrightarrow> lag d' = 0"
    using assms Suc.prems unfolding ata_data_def d'_def by blast+
  show ?case
  proof (cases "n = 0")
    case True
    then show ?thesis using d' Suc.prems by (simp add: d'_def [symmetric] fun_upd_def)
  next
    case False
    then have "lag d' = 0" "transfer (view d') = To_disk l k (acc @ [ld16 m buf])" using d' Suc.prems by simp_all
    from Suc.IH [OF this] show ?thesis using False d' Suc.prems by (simp add: d'_def [symmetric])
  qed
qed simp

lemma write_loop_words:
  assumes "ata_status D view lag" and "ata_data D view lag"
  shows "transfer (view d) = (if n = 0 then Ready else To_disk l n []) \<Longrightarrow>
    \<exists>d'. ata_write_loop D m n buf d = Some (True, d')
      \<and> view d' = (view d)\<lparr>image := (\<lambda>x. if l \<le> x \<and> x < l + n then words_at m (buf + of_nat (512 * (x - l))) 256 else image (view d) x),
          transfer := Ready\<rparr>"
proof (induction n arbitrary: d l buf)
  case (Suc n)
  have "transfer (view d) \<noteq> Ready" using Suc.prems by simp
  from sector_turn [OF assms(1) this] obtain d1 d2 st d3 where turn:
    "ata_wait_busy D d = Some d1" "ata_wait_drq D d1 = Some d2" "in8 D ATA_PRIMARY_STATUS d2 = (st, d3)"
    "st AND ATA_STATUS_ERR = 0" "view d3 = view d" "lag d3 = 0" .
  define d4 where "d4 = outsw D 0x1F0 m buf 256 d3"
  have d4: "view d4 = (view d)\<lparr>image := (image (view d))(l := words_at m buf 256),
      transfer := (if Suc n \<le> 1 then Ready else To_disk (l + 1) n [])\<rparr>"
    using outsw_words [OF assms(2) turn(6), of l "Suc n" "[]" 256 m buf] turn(5) Suc.prems by (simp add: d4_def)
  then have "transfer (view d4) = (if n = 0 then Ready else To_disk (l + 1) n [])" by simp
  from Suc.IH [OF this, of "buf + 512"] obtain d5 where d5:
    "ata_write_loop D m n (buf + 512) d4 = Some (True, d5)"
    "view d5 = (view d4)\<lparr>image := (\<lambda>x. if l + 1 \<le> x \<and> x < l + 1 + n then words_at m (buf + 512 + of_nat (512 * (x - (l + 1)))) 256
        else image (view d4) x), transfer := Ready\<rparr>" by blast
  have "(\<lambda>x. if l + 1 \<le> x \<and> x < l + 1 + n then words_at m (buf + 512 + of_nat (512 * (x - (l + 1)))) 256 else image (view d4) x)
    = (\<lambda>x. if l \<le> x \<and> x < l + Suc n then words_at m (buf + of_nat (512 * (x - l))) 256 else image (view d) x)"
    (is "?f = ?g")
  proof
    fix x
    show "?f x = ?g x"
    proof (cases "l + 1 \<le> x \<and> x < l + 1 + n")
      case True
      then have "512 * (x - l) = 512 + 512 * (x - (l + 1))" by arith
      then have "buf + of_nat (512 * (x - l)) = buf + 512 + of_nat (512 * (x - (l + 1)))"
        by (simp only: of_nat_add add.assoc) simp
      then show ?thesis using True by simp
    next
      case False
      then show ?thesis using d4 by (cases "x = l") auto
    qed
  qed
  then show ?case using turn d4 d5 by (simp add: ATA_PRIMARY_DATA_def d4_def [symmetric])
next
  case 0
  have "(\<lambda>x. if l \<le> x \<and> x < l + 0 then words_at m (buf + of_nat (512 * (x - l))) 256 else image (view d) x) = image (view d)"
    by (rule ext) auto
  then show ?case using 0 by simp
qed

section \<open>A block device\<close>

text \<open>
  The contract the file system and the program loader rest on: a read delivers the sectors, a
  write stores them, and both return the count. \<open>ready\<close> says that the device is at rest.
\<close>

locale block_device =
  fixes rd wr :: "u32 \<Rightarrow> u8 \<Rightarrow> u32 \<Rightarrow> ('d, 'a) storage_scheme \<Rightarrow> (int \<times> ('d, 'a) storage_scheme) option"
    and ready :: "'d \<Rightarrow> bool" and sector :: "'d \<Rightarrow> nat \<Rightarrow> u8 list" and cap :: nat
  assumes rd: "ready (dev s) \<Longrightarrow> n \<noteq> 0 \<Longrightarrow> unat lba + unat n \<le> cap \<Longrightarrow>
      \<exists>d. rd lba n buf s = Some (int (unat n), s\<lparr>mem := poke buf (concat (map (sector (dev s)) [unat lba..<unat lba + unat n])) (mem s), dev := d\<rparr>)
        \<and> ready d \<and> sector d = sector (dev s)"
    and wr: "ready (dev s) \<Longrightarrow> n \<noteq> 0 \<Longrightarrow> unat lba + unat n \<le> cap \<Longrightarrow>
      \<exists>d. wr lba n buf s = Some (int (unat n), s\<lparr>dev := d\<rparr>) \<and> ready d
        \<and> sector d = (\<lambda>l. if unat lba \<le> l \<and> l < unat lba + unat n then peek (mem s) (buf + of_nat (512 * (l - unat lba))) 512 else sector (dev s) l)"
    and length_sector: "ready d \<Longrightarrow> l < cap \<Longrightarrow> length (sector d l) = 512"
begin

definition contents :: "'d \<Rightarrow> nat \<Rightarrow> nat \<Rightarrow> u8 list" where
  "contents d l n = concat (map (sector d) [l..<l + n])"

lemma contents_Suc: "contents d l (Suc n) = contents d l n @ sector d (l + n)"
  by (simp add: contents_def)

lemma contents_one: "contents d l 1 = sector d l"
  by (simp add: contents_def)

lemma length_contents: "ready d \<Longrightarrow> l + n \<le> cap \<Longrightarrow> length (contents d l n) = 512 * n"
  by (induction n) (simp_all add: contents_Suc length_sector contents_def)

lemma contents_cong: "(\<And>k. l \<le> k \<Longrightarrow> k < l + n \<Longrightarrow> sector d k = sector d' k) \<Longrightarrow> contents d l n = contents d' l n"
  unfolding contents_def by (rule arg_cong [where f = concat]) simp

text \<open>What was written reads back, and the sectors elsewhere keep their contents.\<close>

lemma written:
  assumes "dev s = e" and "ready e" and "n \<noteq> 0" and "unat lba + unat n \<le> cap"
  shows "\<exists>d. wr lba n buf s = Some (int (unat n), s\<lparr>dev := d\<rparr>) \<and> ready d
    \<and> contents d (unat lba) (unat n) = peek (mem s) buf (512 * unat n)
    \<and> (\<forall>l k. l + k \<le> unat lba \<or> unat lba + unat n \<le> l \<longrightarrow> contents d l k = contents e l k)"
proof -
  obtain d where d: "wr lba n buf s = Some (int (unat n), s\<lparr>dev := d\<rparr>)" "ready d"
    "sector d = (\<lambda>l. if unat lba \<le> l \<and> l < unat lba + unat n then peek (mem s) (buf + of_nat (512 * (l - unat lba))) 512 else sector (dev s) l)"
    using wr [of s n lba buf] assms by blast
  have "k \<le> unat n \<Longrightarrow> contents d (unat lba) k = peek (mem s) buf (512 * k)" for k
  proof (induction k)
    case (Suc k)
    have "peek (mem s) buf (512 * k + 512) = peek (mem s) buf (512 * k) @ peek (mem s) (buf + of_nat (512 * k)) 512"
      by (rule peek_append)
    then show ?case using Suc d by (simp add: contents_Suc add.commute)
  qed (simp add: contents_def peek_def)
  moreover have "contents d l k = contents e l k" if "l + k \<le> unat lba \<or> unat lba + unat n \<le> l" for l k
    using that d(3) assms(1) by (intro contents_cong) auto
  ultimately show ?thesis using d(1,2) by blast
qed

lemma read:
  assumes "dev s = e" and "ready e" and "n \<noteq> 0" and "unat lba + unat n \<le> cap"
  shows "\<exists>d. rd lba n buf s = Some (int (unat n), s\<lparr>mem := poke buf (contents e (unat lba) (unat n)) (mem s), dev := d\<rparr>)
    \<and> ready d \<and> (\<forall>l k. contents d l k = contents e l k)"
  using rd [of s n lba buf] assms unfolding contents_def by metis

end

lemma ata_length_sector: "ata_ready D view lag cap d \<Longrightarrow> l < cap \<Longrightarrow> length (sector_of view d l) = 512"
  by (simp add: ata_ready_def sector_of_def)

lemma word_bytes_concat: "word_bytes (concat xss) = concat (map word_bytes xss)"
  by (induction xss) simp_all

lemma ata_read_sectors_ready:
  assumes "ata_ready D view lag cap (dev s)" and "n \<noteq> 0" and "unat lba + unat n \<le> cap"
  shows "\<exists>d. ata_read_sectors D lba n buf s = Some (int (unat n),
        s\<lparr>mem := poke buf (concat (map (sector_of view (dev s)) [unat lba..<unat lba + unat n])) (mem s), dev := d\<rparr>)
    \<and> ata_ready D view lag cap d \<and> sector_of view d = sector_of view (dev s)"
proof -
  have drive: "ata_drive D view lag cap" "ata_status D view lag" "ata_data D view lag" "cap \<le> 2 ^ 28" "transfer (view (dev s)) = Ready"
    using assms(1) by (simp_all add: ata_ready_def ata_drive_def)
  obtain d1 where d1: "ata_wait_busy D (dev s) = Some d1" "view d1 = view (dev s)" "lag d1 = 0"
    using wait_busy_ready [OF drive(2)] by blast
  let ?secs = "map (image (view d1)) [unat lba..<unat lba + unat n]"
  obtain r where r: "view (ata_command D lba n 0x20 d1) = (view d1)\<lparr>block_regs := r, transfer := To_host (concat ?secs)\<rparr>"
    using command_regs [OF drive(1) d1(3) _ assms(2,3) drive(4)] d1(2) drive(5) by auto
  have "?secs \<noteq> []" using assms(2) by (simp add: unat_eq_0)
  then have "transfer (view (ata_command D lba n 0x20 d1)) = (if ?secs = [] then Ready else To_host (concat ?secs))"
    using r by simp
  moreover have "\<forall>ws \<in> set ?secs. length ws = 256"
    using assms(1,3) d1(2) by (auto simp: ata_ready_def)
  ultimately obtain d2 where d2:
    "ata_read_loop D (length ?secs) buf (mem s, ata_command D lba n 0x20 d1) = Some (True, poke buf (word_bytes (concat ?secs)) (mem s), d2)"
    "view d2 = (view (ata_command D lba n 0x20 d1))\<lparr>transfer := Ready\<rparr>"
    using read_loop_words [OF drive(2,3)] by blast
  have "word_bytes (concat ?secs) = concat (map (sector_of view (dev s)) [unat lba..<unat lba + unat n])"
    using d1(2) by (simp add: word_bytes_concat sector_of_def [abs_def] comp_def)
  then have "ata_read_sectors D lba n buf s = Some (int (unat n),
      s\<lparr>mem := poke buf (concat (map (sector_of view (dev s)) [unat lba..<unat lba + unat n])) (mem s), dev := d2\<rparr>)"
    using assms(2) d1 d2(1) by (simp add: ata_read_sectors_def ATA_CMD_READ_SECTORS_def)
  moreover have "ata_ready D view lag cap d2" "sector_of view d2 = sector_of view (dev s)"
    using assms(1) d1 d2(2) r by (auto simp: ata_ready_def sector_of_def)
  ultimately show ?thesis by blast
qed

lemma ata_write_sectors_ready:
  assumes "ata_ready D view lag cap (dev s)" and "n \<noteq> 0" and "unat lba + unat n \<le> cap"
  shows "\<exists>d. ata_write_sectors D lba n buf s = Some (int (unat n), s\<lparr>dev := d\<rparr>) \<and> ata_ready D view lag cap d
    \<and> sector_of view d = (\<lambda>l. if unat lba \<le> l \<and> l < unat lba + unat n
        then peek (mem s) (buf + of_nat (512 * (l - unat lba))) 512 else sector_of view (dev s) l)"
proof -
  have drive: "ata_drive D view lag cap" "ata_status D view lag" "ata_data D view lag" "cap \<le> 2 ^ 28" "transfer (view (dev s)) = Ready"
    using assms(1) by (simp_all add: ata_ready_def ata_drive_def)
  obtain d1 where d1: "ata_wait_busy D (dev s) = Some d1" "view d1 = view (dev s)" "lag d1 = 0"
    using wait_busy_ready [OF drive(2)] by blast
  obtain r where r: "view (ata_command D lba n 0x30 d1) = (view d1)\<lparr>block_regs := r, transfer := To_disk (unat lba) (unat n) []\<rparr>"
    using command_regs [OF drive(1) d1(3) _ assms(2,3) drive(4)] d1(2) drive(5) by auto
  then have "transfer (view (ata_command D lba n 0x30 d1)) = (if unat n = 0 then Ready else To_disk (unat lba) (unat n) [])"
    using assms(2) by (simp add: unat_eq_0)
  from write_loop_words [OF drive(2,3) this, of "mem s" buf] obtain d2 where d2:
    "ata_write_loop D (mem s) (unat n) buf (ata_command D lba n 0x30 d1) = Some (True, d2)"
    "view d2 = (view (ata_command D lba n 0x30 d1))\<lparr>image := (\<lambda>x. if unat lba \<le> x \<and> x < unat lba + unat n
        then words_at (mem s) (buf + of_nat (512 * (x - unat lba))) 256 else image (view (ata_command D lba n 0x30 d1)) x), transfer := Ready\<rparr>"
    by blast
  have "ata_write_sectors D lba n buf s = Some (int (unat n), s\<lparr>dev := d2\<rparr>)"
    using assms(2) d1 d2(1) by (simp add: ata_write_sectors_def ATA_CMD_WRITE_SECTORS_def)
  moreover have "ata_ready D view lag cap d2"
    using assms(1) d1 d2(2) r by (auto simp: ata_ready_def)
  moreover have "sector_of view d2 = (\<lambda>l. if unat lba \<le> l \<and> l < unat lba + unat n
        then peek (mem s) (buf + of_nat (512 * (l - unat lba))) 512 else sector_of view (dev s) l)"
    using d1(2) d2(2) r by (auto simp: sector_of_def word_bytes_words_at)
  ultimately show ?thesis by blast
qed

interpretation ata: block_device "ata_read_sectors D" "ata_write_sectors D" "ata_ready D view lag cap" "sector_of view" cap
  for D :: "'d port_dev" and view lag cap
  by unfold_locales (fact ata_read_sectors_ready ata_write_sectors_ready ata_length_sector)+

end
