(* ===== verification/Kfs.thy ===== *)
theory Kfs
  imports Ata Log
begin

text \<open>
  \<open>kernel/fs/kfs.c\<close>: the flat file system. The global \<open>superblock\<close> is 328 bytes of memory at the
  linker's address \<open>sb\<close> (a parameter): the magic number, the file count and eight entries of
  40 bytes (\<open>struct kfs_file\<close>: a name of 32 bytes, the first sector, the size). It is sector 0 of
  the disk, which moves 512 bytes. Reading a name past the superblock is undefined (\<open>None\<close>), as
  is a busy wait that does not end. The directory is read off the memory by \<open>kfs_dir\<close>; the lemmas
  show the operations in terms of it.
\<close>

section \<open>The superblock\<close>

definition KFS_MAGIC :: u32 where "KFS_MAGIC = 0x3053464B"
definition KFS_MAX_FILES :: nat where "KFS_MAX_FILES = 8"

definition sb_magic :: "u32 \<Rightarrow> memory \<Rightarrow> u32" where "sb_magic sb m = ld32 m sb"
definition file_count :: "u32 \<Rightarrow> memory \<Rightarrow> u32" where "file_count sb m = ld32 m (sb + 4)"

text \<open>\<open>&superblock.files[i]\<close> and the fields of an entry.\<close>

definition file_at :: "u32 \<Rightarrow> nat \<Rightarrow> u32" where "file_at sb i = sb + of_nat (8 + 40 * i)"
definition start_lba :: "memory \<Rightarrow> u32 \<Rightarrow> u32" where "start_lba m f = ld32 m (f + 32)"
definition file_size :: "memory \<Rightarrow> u32 \<Rightarrow> u32" where "file_size m f = ld32 m (f + 36)"

text \<open>\<open>superblock.files[i].name\<close> as a string: from its first byte to the end of the superblock.\<close>

definition name_at :: "u32 \<Rightarrow> memory \<Rightarrow> nat \<Rightarrow> string" where
  "name_at sb m i = map char_of_byte (peek m (file_at sb i) (320 - 40 * i))"

definition sectors_of :: "u32 \<Rightarrow> u32" where
  "sectors_of sz = (sz + 511) div 512"

section \<open>The operations\<close>

definition kfs_mount ::
    "'d port_dev \<Rightarrow> cpuid \<Rightarrow> cpu_regs \<Rightarrow> u32 \<Rightarrow> ('d, 'a) storage_scheme \<Rightarrow> (int \<times> ('d, 'a) storage_scheme) option" where
  "kfs_mount D cpuid regs sb s =
     do { (r, s) \<leftarrow> ata_read_sectors D 0 1 sb s;
          if r < 0 then Some (0, panic cpuid ''i have no root and i must scream. (disk read failure)'' regs s)
          else if sb_magic sb (mem s) \<noteq> KFS_MAGIC
          then Some (0, panic cpuid ''i have no root and i must scream. (invalid magic, not a KFS volume)'' regs s)
          else Some (err_code ERR_SUCCESS, s) }"

definition kfs_mkfs :: "'d port_dev \<Rightarrow> u32 \<Rightarrow> ('d, 'a) storage_scheme \<Rightarrow> (int \<times> ('d, 'a) storage_scheme) option" where
  "kfs_mkfs D sb s =
     (let s = s\<lparr>mem := memset sb 0 328 (mem s)\<rparr>;
          s = s\<lparr>mem := st32 sb KFS_MAGIC (mem s)\<rparr>
      in ata_write_sectors D 0 1 sb s)"

text \<open>The inner \<open>option\<close> is the pointer, \<open>NULL\<close> for \<open>None\<close>.\<close>

fun kfs_find_loop :: "u32 \<Rightarrow> memory \<Rightarrow> string \<Rightarrow> nat \<Rightarrow> nat \<Rightarrow> u32 option option" where
  "kfs_find_loop sb m name i 0 = Some None"
| "kfs_find_loop sb m name i (Suc n) =
     (case strcmp (name_at sb m i) name of
        None \<Rightarrow> None
      | Some r \<Rightarrow> if r = 0 then Some (Some (file_at sb i)) else kfs_find_loop sb m name (i + 1) n)"

definition kfs_find :: "u32 \<Rightarrow> string \<Rightarrow> 'a kernel_scheme \<Rightarrow> u32 option option" where
  "kfs_find sb name s = kfs_find_loop sb (mem s) name 0 (unat (file_count sb (mem s)))"

definition kfs_read ::
    "'d port_dev \<Rightarrow> u32 \<Rightarrow> string \<Rightarrow> u32 \<Rightarrow> ('d, 'a) storage_scheme \<Rightarrow> (int \<times> ('d, 'a) storage_scheme) option" where
  "kfs_read D sb name buf s =
     do { p \<leftarrow> kfs_find sb name s;
          case p of
            None \<Rightarrow> Some (err_code ERR_NOT_FOUND, s)
          | Some f \<Rightarrow>
              (let sectors = sectors_of (file_size (mem s) f)
               in ata_read_sectors D (start_lba (mem s) f) (ucast sectors) buf s) }"

text \<open>\<open>lba\<close> after the loop over the first \<open>n\<close> files.\<close>

definition next_lba :: "u32 \<Rightarrow> memory \<Rightarrow> nat \<Rightarrow> u32" where
  "next_lba sb m n = fold (\<lambda>i lba. lba + sectors_of (file_size m (file_at sb i))) [0..<n] 1"

text \<open>The new directory entry, up to the assignment of \<open>start_lba\<close>.\<close>

definition kfs_entry :: "u32 \<Rightarrow> string \<Rightarrow> u32 \<Rightarrow> memory \<Rightarrow> (u32 \<times> memory) option" where
  "kfs_entry sb name sz m =
     (let n = unat (file_count sb m); f = file_at sb n;
          m = st32 (sb + 4) (file_count sb m + 1) m
      in do { nm \<leftarrow> strcpy (name_at sb m n) name;
              let m = poke f (map byte_of_char nm) m;
                  m = st32 (f + 36) sz m;
                  lba = next_lba sb m (unat (file_count sb m - 1));
                  m = st32 (f + 32) lba m
              in Some (lba, m) })"

definition kfs_write ::
    "'d port_dev \<Rightarrow> u32 \<Rightarrow> string \<Rightarrow> u32 \<Rightarrow> u32 \<Rightarrow> ('d, 'a) storage_scheme \<Rightarrow> (int \<times> ('d, 'a) storage_scheme) option" where
  "kfs_write D sb name data sz s =
     (if unat (file_count sb (mem s)) \<ge> KFS_MAX_FILES then Some (- 1, s)
      else do { (lba, m) \<leftarrow> kfs_entry sb name sz (mem s);
                (r, s) \<leftarrow> ata_write_sectors D lba (ucast (sectors_of sz)) data (s\<lparr>mem := m\<rparr>);
                ata_write_sectors D 0 1 sb s })"

section \<open>Bytes at an offset\<close>

lemma byte_of_char_of_byte [simp]: "byte_of_char (char_of_byte b) = b"
proof -
  have "unat b < 2 ^ 8" using unsigned_less [of b] by simp
  then have "of_char (char_of (unat b) :: char) = unat b" by simp
  moreover have "(of_char (char_of (unat b) :: char) :: u8) = of_nat (of_char (char_of (unat b) :: char))"
    by (simp only: of_nat_of_char)
  ultimately show ?thesis unfolding byte_of_char_def char_of_byte_def by simp
qed

lemma byte_poke:
  assumes "a + length bs \<le> 2 ^ 32" and "k < 2 ^ 32"
  shows "poke (p + of_nat a) bs m (p + of_nat k) = (if a \<le> k \<and> k < a + length bs then bs ! (k - a) else m (p + of_nat k))"
proof (cases "a \<le> k \<and> k < a + length bs")
  case True
  then have "p + of_nat k = p + of_nat a + of_nat (k - a)" by (simp add: of_nat_diff)
  moreover have "poke (p + of_nat a) bs m (p + of_nat a + of_nat (k - a)) = bs ! (k - a)"
    using True assms unfolding poke_def by (subst fold_write_inside) auto
  ultimately show ?thesis using True by simp
next
  case False
  have "p + of_nat k \<notin> region (p + of_nat a) (length bs)"
  proof
    assume "p + of_nat k \<in> region (p + of_nat a) (length bs)"
    then obtain j where j: "j < length bs" "p + of_nat k = p + of_nat (a + j)" by (auto simp: region_def add.assoc)
    moreover have "a + j < 2 ^ 32" using j(1) assms(1) by linarith
    ultimately have "k = a + j" using assms(2) offset_eq_iff [of k "a + j" p] by blast
    then show False using False j(1) by simp
  qed
  then show ?thesis using False by (auto simp: poke_outside)
qed

lemma st32_poke: "st32 a w m = poke a [byte_n w 0, byte_n w 1, byte_n w 2, byte_n w 3] m"
  by (simp add: poke_Cons st32_def add.assoc)

lemma byte_st32:
  assumes "a + 4 \<le> 2 ^ 32" and "k < 2 ^ 32"
  shows "st32 (p + of_nat a) w m (p + of_nat k) = (if a \<le> k \<and> k < a + 4 then byte_n w (k - a) else m (p + of_nat k))"
proof -
  have "[byte_n w 0, byte_n w 1, byte_n w 2, byte_n w 3] ! j = byte_n w j" if "j < 4" for j
    using that by (auto simp: less_Suc_eq numeral_eq_Suc)
  then show ?thesis using assms by (auto simp: st32_poke byte_poke)
qed

lemma ld32_bytes: "ld32 m (p + of_nat a) = le32 (m (p + of_nat a)) (m (p + of_nat (a + 1))) (m (p + of_nat (a + 2))) (m (p + of_nat (a + 3)))"
  by (simp add: ld32_def add.assoc add.commute [of "of_nat a"])

text \<open>The fields of the superblock as cells, and which bytes a name takes.\<close>

definition sb_cell :: "u32 \<Rightarrow> memory \<Rightarrow> nat \<Rightarrow> u32" where
  "sb_cell sb m c = ld32 m (sb + of_nat (4 * c))"

lemma fields:
  "sb_magic sb m = sb_cell sb m 0" "file_count sb m = sb_cell sb m 1"
  "start_lba m (file_at sb i) = sb_cell sb m (10 * i + 10)" "file_size m (file_at sb i) = sb_cell sb m (10 * i + 11)"
  by (simp_all add: sb_magic_def file_count_def start_lba_def file_size_def file_at_def sb_cell_def algebra_simps)

definition raw_name :: "u32 \<Rightarrow> memory \<Rightarrow> nat \<Rightarrow> string" where
  "raw_name sb m i = map char_of_byte (peek m (file_at sb i) 32)"

definition file_name :: "u32 \<Rightarrow> memory \<Rightarrow> nat \<Rightarrow> string" where
  "file_name sb m i = cstr (raw_name sb m i)"

lemma cstr_append: "terminated a \<Longrightarrow> cstr (a @ b) = cstr a"
  by (induction a) auto

lemma name_at_split: "i < 8 \<Longrightarrow> \<exists>r. name_at sb m i = raw_name sb m i @ r"
proof -
  assume "i < 8"
  then have "320 - 40 * i = 32 + (288 - 40 * i)" by arith
  then show ?thesis
    unfolding name_at_def raw_name_def by (metis map_append peek_append)
qed

lemma name_at_text:
  assumes "i < 8" and "terminated (raw_name sb m i)"
  shows "terminated (name_at sb m i)" "cstr (name_at sb m i) = file_name sb m i"
  using name_at_split [OF assms(1), of sb m] assms(2) by (auto simp: file_name_def cstr_append)

text \<open>The directory: names, first sectors and sizes, in the order of the entries.\<close>

definition kfs_dir :: "u32 \<Rightarrow> memory \<Rightarrow> (string \<times> u32 \<times> u32) list" where
  "kfs_dir sb m = map (\<lambda>i. (file_name sb m i, start_lba m (file_at sb i), file_size m (file_at sb i))) [0..<unat (file_count sb m)]"

text \<open>
  The invariant: at most eight entries, every name ends within its field, and the files lie
  one after the other from sector 1.
\<close>

definition kfs_wf :: "u32 \<Rightarrow> memory \<Rightarrow> bool" where
  "kfs_wf sb m \<longleftrightarrow> unat (file_count sb m) \<le> 8 \<and> (\<forall>i < unat (file_count sb m).
     terminated (raw_name sb m i) \<and> start_lba m (file_at sb i) = next_lba sb m i)"

section \<open>Lookup\<close>

lemma kfs_find_loop_eq:
  assumes "terminated name" and "\<forall>j. i \<le> j \<and> j < i + n \<longrightarrow> terminated (raw_name sb m j)" and "i + n \<le> 8"
  shows "kfs_find_loop sb m name i n = Some (map_option (file_at sb) (List.find (\<lambda>j. file_name sb m j = cstr name) [i..<i + n]))"
  using assms(2,3)
proof (induction n arbitrary: i)
  case (Suc n)
  then have i: "terminated (raw_name sb m i)" "i < 8" by simp_all
  have "[i..<i + Suc n] = i # [Suc i..<Suc i + n]" by (simp add: upt_conv_Cons)
  moreover have "strcmp (name_at sb m i) name = Some 0 \<longleftrightarrow> file_name sb m i = cstr name"
    using name_at_text [OF i(2,1)] assms(1) by (simp add: strcmp_eq_0)
  moreover obtain r where "strcmp (name_at sb m i) name = Some r"
    using strcmp_defined name_at_text(1) [OF i(2,1)] assms(1) by blast
  ultimately show ?case using Suc by auto
qed simp

lemma kfs_find_eq:
  assumes "kfs_wf sb (mem s)" and "terminated name"
  shows "kfs_find sb name s = Some (map_option (file_at sb)
    (List.find (\<lambda>j. file_name sb (mem s) j = cstr name) [0..<unat (file_count sb (mem s))]))"
  using kfs_find_loop_eq [OF assms(2), of 0 "unat (file_count sb (mem s))" sb "mem s"] assms(1)
  by (simp add: kfs_find_def kfs_wf_def)

section \<open>The new entry\<close>

lemma file_at_fields: "file_at sb i + 32 = sb + of_nat (40 + 40 * i)" "file_at sb i + 36 = sb + of_nat (44 + 40 * i)"
  "sb + 4 = sb + of_nat 4"
  by (simp_all add: file_at_def)

text \<open>Fields read the same bytes, so they agree where the bytes do.\<close>

definition same_bytes :: "u32 \<Rightarrow> nat set \<Rightarrow> memory \<Rightarrow> memory \<Rightarrow> bool" where
  "same_bytes sb K m' m \<longleftrightarrow> (\<forall>k \<in> K. m' (sb + of_nat k) = m (sb + of_nat k))"

lemma same_ld32: "same_bytes sb K m' m \<Longrightarrow> {a..<a + 4} \<subseteq> K \<Longrightarrow> ld32 m' (sb + of_nat a) = ld32 m (sb + of_nat a)"
proof -
  assume same: "same_bytes sb K m' m" and K: "{a..<a + 4} \<subseteq> K"
  have "m' (sb + of_nat k) = m (sb + of_nat k)" if "a \<le> k" "k < a + 4" for k
    using same K that by (auto simp: same_bytes_def)
  from this [of a] this [of "a + 1"] this [of "a + 2"] this [of "a + 3"] show ?thesis
    unfolding ld32_bytes by (simp del: of_nat_add)
qed

lemma same_entry:
  assumes "same_bytes sb K m' m" and "{8 + 40 * j..<48 + 40 * j} \<subseteq> K"
  shows "raw_name sb m' j = raw_name sb m j" "start_lba m' (file_at sb j) = start_lba m (file_at sb j)"
    "file_size m' (file_at sb j) = file_size m (file_at sb j)"
proof -
  have "peek m' (file_at sb j) 32 = peek m (file_at sb j) 32"
  proof (rule nth_equalityI)
    fix k assume "k < length (peek m' (file_at sb j) 32)"
    then have k: "k < 32" by simp
    then have "8 + 40 * j + k \<in> K" using assms(2) by auto
    then have "m' (sb + of_nat (8 + 40 * j + k)) = m (sb + of_nat (8 + 40 * j + k))"
      using assms(1) by (simp only: same_bytes_def)
    then show "peek m' (file_at sb j) 32 ! k = peek m (file_at sb j) 32 ! k"
      using k by (simp add: file_at_def add.assoc)
  qed simp
  then show "raw_name sb m' j = raw_name sb m j" by (simp add: raw_name_def)
  show "start_lba m' (file_at sb j) = start_lba m (file_at sb j)" "file_size m' (file_at sb j) = file_size m (file_at sb j)"
    unfolding start_lba_def file_size_def file_at_fields by (rule same_ld32 [OF assms(1)], use assms(2) in force)+
qed

lemma next_lba_cong:
  "(\<And>j. j < n \<Longrightarrow> file_size m' (file_at sb j) = file_size m (file_at sb j)) \<Longrightarrow> next_lba sb m' n = next_lba sb m n"
  unfolding next_lba_def by (rule fold_cong) simp_all

text \<open>The memory \<open>kfs_entry\<close> leaves, byte by byte.\<close>

lemma kfs_entry_bytes:
  assumes "n = unat (file_count sb m)" and "n < 8" and "terminated name" and "length (cstr name) < 32"
  obtains lba m' where "kfs_entry sb name sz m = Some (lba, m')"
    "\<forall>k < 2 ^ 32. m' (sb + of_nat k) =
      (if 40 + 40 * n \<le> k \<and> k < 44 + 40 * n then byte_n lba (k - (40 + 40 * n))
       else if 44 + 40 * n \<le> k \<and> k < 48 + 40 * n then byte_n sz (k - (44 + 40 * n))
       else if 8 + 40 * n \<le> k \<and> k \<le> 8 + 40 * n + length (cstr name) then byte_of_char ((cstr name @ [NUL]) ! (k - (8 + 40 * n)))
       else if 4 \<le> k \<and> k < 8 then byte_n (file_count sb m + 1) (k - 4)
       else m (sb + of_nat k))"
    "lba = next_lba sb m n"
proof -
  let ?l = "length (cstr name)"
  define m1 where "m1 = st32 (sb + 4) (file_count sb m + 1) m"
  have m1: "m1 (sb + of_nat k) = (if 4 \<le> k \<and> k < 8 then byte_n (file_count sb m + 1) (k - 4) else m (sb + of_nat k))"
    if "k < 2 ^ 32" for k
    unfolding m1_def file_at_fields using that by (subst byte_st32) simp_all
  define nm where "nm = cstr name @ NUL # drop (Suc ?l) (name_at sb m1 n)"
  have len: "length (name_at sb m1 n) = 320 - 40 * n" by (simp add: name_at_def)
  then have copy: "strcpy (name_at sb m1 n) name = Some nm" and nm: "length nm = 320 - 40 * n"
    using assms(2-4) by (simp_all add: strcpy_eq nm_def)
  define m2 where "m2 = poke (file_at sb n) (map byte_of_char nm) m1"
  have m2: "m2 (sb + of_nat k) = (if 8 + 40 * n \<le> k \<and> k \<le> 8 + 40 * n + ?l
      then byte_of_char ((cstr name @ [NUL]) ! (k - (8 + 40 * n))) else m1 (sb + of_nat k))" if k: "k < 2 ^ 32" for k
  proof (cases "8 + 40 * n \<le> k \<and> k < 8 + 40 * n + (320 - 40 * n)")
    case True
    define j where "j = k - (8 + 40 * n)"
    have j: "k = 8 + 40 * n + j" "j < 320 - 40 * n" using True unfolding j_def by arith+
    have "m2 (sb + of_nat k) = byte_of_char (nm ! j)"
      unfolding m2_def file_at_def using True assms(2) k nm j(2) by (subst byte_poke) (simp_all add: j_def)
    also have "\<dots> = (if j \<le> ?l then byte_of_char ((cstr name @ [NUL]) ! j) else m1 (sb + of_nat k))"
    proof (cases "j \<le> ?l")
      case False
      then have "nm ! j = name_at sb m1 n ! j" using j len by (simp add: nm_def nth_append)
      also have "byte_of_char \<dots> = m1 (sb + of_nat k)"
        using j(2) by (simp add: name_at_def j(1) file_at_def add.assoc)
      finally show ?thesis using False by simp
    qed (auto simp: nm_def nth_append)
    finally show ?thesis using j by auto
  next
    case False
    have "m2 (sb + of_nat k) = m1 (sb + of_nat k)"
      unfolding m2_def file_at_def using False assms(2) k nm by (subst byte_poke) auto
    then show ?thesis using False assms(2,4) by auto
  qed
  define m3 where "m3 = st32 (file_at sb n + 36) sz m2"
  have m3: "m3 (sb + of_nat k) = (if 44 + 40 * n \<le> k \<and> k < 48 + 40 * n then byte_n sz (k - (44 + 40 * n)) else m2 (sb + of_nat k))"
    if "k < 2 ^ 32" for k
    unfolding m3_def file_at_fields using that assms(2) by (subst byte_st32) simp_all
  have "same_bytes sb {4..<8} m3 m1"
    unfolding same_bytes_def using m2 m3 by auto
  from same_ld32 [OF this, of 4] have count: "file_count sb m3 = file_count sb m + 1"
    unfolding file_count_def file_at_fields by (simp add: m1_def file_count_def)
  define lba where "lba = next_lba sb m3 n"
  define m4 where "m4 = st32 (file_at sb n + 32) lba m3"
  have m4: "m4 (sb + of_nat k) = (if 40 + 40 * n \<le> k \<and> k < 44 + 40 * n then byte_n lba (k - (40 + 40 * n)) else m3 (sb + of_nat k))"
    if "k < 2 ^ 32" for k
    unfolding m4_def file_at_fields using that assms(2) by (subst byte_st32) simp_all
  have "same_bytes sb {8..<8 + 40 * n} m3 m"
    unfolding same_bytes_def using m1 m2 m3 assms(2) by auto
  then have "file_size m3 (file_at sb j) = file_size m (file_at sb j)" if "j < n" for j
    by (rule same_entry) (use that in auto)
  then have "lba = next_lba sb m n" unfolding lba_def by (rule next_lba_cong)
  moreover have "kfs_entry sb name sz m = Some (lba, m4)"
    using copy count assms(1) by (simp add: kfs_entry_def Let_def m1_def m2_def m3_def m4_def lba_def)
  ultimately show thesis
    by (rule that [rotated 2]) (simp add: m1 m2 m3 m4)
qed

lemma kfs_entry_spec:
  assumes "n = unat (file_count sb m)" and "n < 8" and "terminated name" and "length (cstr name) < 32"
  obtains m' where "kfs_entry sb name sz m = Some (next_lba sb m n, m')"
    "file_count sb m' = file_count sb m + 1" "sb_magic sb m' = sb_magic sb m"
    "terminated (raw_name sb m' n)" "file_name sb m' n = cstr name"
    "start_lba m' (file_at sb n) = next_lba sb m n" "file_size m' (file_at sb n) = sz"
    "same_bytes sb ({..<4} \<union> {8..<8 + 40 * n}) m' m"
    "\<forall>a. a \<notin> region sb 328 \<longrightarrow> m' a = m a"
proof -
  obtain lba m' where m': "kfs_entry sb name sz m = Some (lba, m')"
    and bytes: "\<forall>k < 2 ^ 32. m' (sb + of_nat k) =
      (if 40 + 40 * n \<le> k \<and> k < 44 + 40 * n then byte_n lba (k - (40 + 40 * n))
       else if 44 + 40 * n \<le> k \<and> k < 48 + 40 * n then byte_n sz (k - (44 + 40 * n))
       else if 8 + 40 * n \<le> k \<and> k \<le> 8 + 40 * n + length (cstr name) then byte_of_char ((cstr name @ [NUL]) ! (k - (8 + 40 * n)))
       else if 4 \<le> k \<and> k < 8 then byte_n (file_count sb m + 1) (k - 4)
       else m (sb + of_nat k))"
    and lba: "lba = next_lba sb m n"
    by (rule kfs_entry_bytes [OF assms])
  note bytes = bytes [rule_format]
  have ld: "ld32 m' (sb + of_nat a) = w"
    if a: "a + 4 \<le> 2 ^ 32" and "\<And>k. k < 4 \<Longrightarrow> m' (sb + of_nat (a + k)) = byte_n w k" for a w
    using that(2) [of 0] that(2) [of 1] that(2) [of 2] that(2) [of 3] unfolding ld32_bytes by simp
  have count: "file_count sb m' = file_count sb m + 1"
    unfolding file_count_def file_at_fields(3) by (rule ld) (use assms(2) in \<open>simp_all add: bytes file_count_def del: of_nat_add\<close>)
  have start_size: "start_lba m' (file_at sb n) = lba" "file_size m' (file_at sb n) = sz"
    unfolding start_lba_def file_size_def file_at_fields
    by (rule ld, use assms(2) in \<open>simp_all add: bytes del: of_nat_add\<close>)+
  have same: "same_bytes sb ({..<4} \<union> {8..<8 + 40 * n}) m' m"
    unfolding same_bytes_def using bytes assms(2) by auto
  have magic: "sb_magic sb m' = sb_magic sb m"
    using same_ld32 [OF same, of 0] by (force simp: sb_magic_def)
  have "take (Suc (length (cstr name))) (raw_name sb m' n) = cstr name @ [NUL]"
  proof (rule nth_equalityI)
    show len: "length (take (Suc (length (cstr name))) (raw_name sb m' n)) = length (cstr name @ [NUL])"
      using assms(4) by (simp add: raw_name_def)
    fix j assume "j < length (take (Suc (length (cstr name))) (raw_name sb m' n))"
    then have j: "j \<le> length (cstr name)" using len by simp
    then have "m' (sb + of_nat (8 + 40 * n + j)) = byte_of_char ((cstr name @ [NUL]) ! j)"
      using assms(2,4) by (subst bytes) auto
    then show "take (Suc (length (cstr name))) (raw_name sb m' n) ! j = (cstr name @ [NUL]) ! j"
      using j assms(4) by (simp add: raw_name_def file_at_def add.assoc)
  qed
  then have "raw_name sb m' n = cstr name @ NUL # drop (Suc (length (cstr name))) (raw_name sb m' n)"
    using append_take_drop_id [of "Suc (length (cstr name))" "raw_name sb m' n"] by simp
  then have name: "terminated (raw_name sb m' n)" "file_name sb m' n = cstr name"
    unfolding file_name_def by (metis terminated_append terminated_simps(2), metis NUL_notin_cstr cstr_append_NUL)
  have outside: "m' a = m a" if "a \<notin> region sb 328" for a
  proof -
    have a: "a = sb + of_nat (unat (a - sb))" by simp
    then have "328 \<le> unat (a - sb)" using that by (metis not_le region_memberI)
    then show ?thesis using bytes [of "unat (a - sb)"] a assms(2,4) by simp
  qed
  show thesis
    by (rule that [of m']) (use m' lba count start_size magic name same outside in simp_all)
qed

text \<open>So the directory grows by one entry at its end and stays well formed.\<close>

lemma kfs_dir_snoc:
  assumes "n = unat (file_count sb m)" and "n < 8" and "file_count sb m' = file_count sb m + 1"
    and "same_bytes sb ({..<4} \<union> {8..<8 + 40 * n}) m' m"
  shows "unat (file_count sb m') = n + 1"
    and "kfs_dir sb m' = kfs_dir sb m @ [(file_name sb m' n, start_lba m' (file_at sb n), file_size m' (file_at sb n))]"
    and "j < n \<Longrightarrow> raw_name sb m' j = raw_name sb m j" and "j < n \<Longrightarrow> start_lba m' (file_at sb j) = start_lba m (file_at sb j)"
    and "j < n \<Longrightarrow> file_size m' (file_at sb j) = file_size m (file_at sb j)"
    and "j \<le> n \<Longrightarrow> next_lba sb m' j = next_lba sb m j"
proof -
  have "unat (file_count sb m + 1) = n + 1" using assms(1,2) by (simp add: unat_word_ariths)
  then show count: "unat (file_count sb m') = n + 1" using assms(3) by simp
  have entry: "raw_name sb m' j = raw_name sb m j \<and> start_lba m' (file_at sb j) = start_lba m (file_at sb j)
    \<and> file_size m' (file_at sb j) = file_size m (file_at sb j)" if "j < n" for j
    using same_entry [OF assms(4), of j] that by force
  then show "j < n \<Longrightarrow> raw_name sb m' j = raw_name sb m j" "j < n \<Longrightarrow> start_lba m' (file_at sb j) = start_lba m (file_at sb j)"
    "j < n \<Longrightarrow> file_size m' (file_at sb j) = file_size m (file_at sb j)" by blast+
  show "j \<le> n \<Longrightarrow> next_lba sb m' j = next_lba sb m j" using entry by (intro next_lba_cong) simp
  show "kfs_dir sb m' = kfs_dir sb m @ [(file_name sb m' n, start_lba m' (file_at sb n), file_size m' (file_at sb n))]"
    using entry assms(1) count by (simp add: kfs_dir_def file_name_def)
qed

lemma kfs_entry_wf:
  assumes "kfs_wf sb m" and "unat (file_count sb m) < 8" and "terminated name" and "length (cstr name) < 32"
  obtains m' where "kfs_entry sb name sz m = Some (next_lba sb m (unat (file_count sb m)), m')" "kfs_wf sb m'"
    "kfs_dir sb m' = kfs_dir sb m @ [(cstr name, next_lba sb m (unat (file_count sb m)), sz)]"
    "sb_magic sb m' = sb_magic sb m" "\<forall>a. a \<notin> region sb 328 \<longrightarrow> m' a = m a"
proof -
  from kfs_entry_spec [OF refl assms(2-4), of sz] obtain m' where m': "kfs_entry sb name sz m = Some (next_lba sb m (unat (file_count sb m)), m')"
    "file_count sb m' = file_count sb m + 1" "sb_magic sb m' = sb_magic sb m"
    "terminated (raw_name sb m' (unat (file_count sb m)))" "file_name sb m' (unat (file_count sb m)) = cstr name"
    "start_lba m' (file_at sb (unat (file_count sb m))) = next_lba sb m (unat (file_count sb m))"
    "file_size m' (file_at sb (unat (file_count sb m))) = sz"
    "same_bytes sb ({..<4} \<union> {8..<8 + 40 * unat (file_count sb m)}) m' m" "\<forall>a. a \<notin> region sb 328 \<longrightarrow> m' a = m a" .
  note grown = kfs_dir_snoc [OF refl assms(2) m'(2,8)]
  have "kfs_wf sb m'"
    using assms(1,2) m'(4,6) grown unfolding kfs_wf_def by (auto simp: less_Suc_eq)
  with that [OF m'(1)] show thesis using grown(2) m' by simp
qed

section \<open>On the disk\<close>

lemma unat_sectors_of: "unat (sectors_of sz) \<le> 2 ^ 23"
proof -
  have "unat (sz + 511) div 512 \<le> 2 ^ 32 div 512" by (rule div_le_mono) (simp add: less_imp_le)
  then show ?thesis by (simp add: sectors_of_def unat_div)
qed

lemma next_lba_Suc: "next_lba sb m (Suc n) = next_lba sb m n + sectors_of (file_size m (file_at sb n))"
  by (simp add: next_lba_def)

lemma unat_next_lba: "n \<le> 8 \<Longrightarrow> unat (next_lba sb m n) = 1 + (\<Sum>i < n. unat (sectors_of (file_size m (file_at sb i))))
    \<and> unat (next_lba sb m n) \<le> 1 + n * 2 ^ 23"
proof (induction n)
  case (Suc n)
  have "unat (next_lba sb m n) + unat (sectors_of (file_size m (file_at sb n))) < 2 ^ 32"
    using Suc unat_sectors_of [of "file_size m (file_at sb n)"] by simp
  then have "unat (next_lba sb m (Suc n)) = unat (next_lba sb m n) + unat (sectors_of (file_size m (file_at sb n)))"
    unfolding next_lba_Suc by (simp add: unat_word_ariths)
  then show ?case using Suc unat_sectors_of [of "file_size m (file_at sb n)"] by simp
qed (simp add: next_lba_def)

text \<open>Each file lies before the files after it, and after the superblock.\<close>

lemma next_lba_mono: "i \<le> j \<Longrightarrow> j \<le> 8 \<Longrightarrow> unat (next_lba sb m i) \<le> unat (next_lba sb m j)"
  using unat_next_lba [of i sb m] unat_next_lba [of j sb m]
    sum_mono2 [of "{..<j}" "{..<i}" "\<lambda>i. unat (sectors_of (file_size m (file_at sb i)))"] by auto

lemma file_extent: "i < j \<Longrightarrow> j \<le> 8 \<Longrightarrow>
    1 \<le> unat (next_lba sb m i) \<and> unat (next_lba sb m i) + unat (sectors_of (file_size m (file_at sb i))) \<le> unat (next_lba sb m j)"
  using unat_next_lba [of i sb m] unat_next_lba [of "Suc i" sb m] next_lba_mono [of "Suc i" j sb m] by simp

lemma kfs_wf_cong:
  assumes "same_bytes sb {..<328} m' m"
  shows "sb_magic sb m' = sb_magic sb m" "file_count sb m' = file_count sb m"
    "kfs_wf sb m \<Longrightarrow> kfs_wf sb m'" "kfs_wf sb m \<Longrightarrow> kfs_dir sb m' = kfs_dir sb m"
proof -
  show "sb_magic sb m' = sb_magic sb m"
    using same_ld32 [OF assms, of 0] by (force simp: sb_magic_def)
  show count: "file_count sb m' = file_count sb m"
    unfolding file_count_def file_at_fields(3) by (rule same_ld32 [OF assms]) auto
  have entry: "raw_name sb m' j = raw_name sb m j \<and> start_lba m' (file_at sb j) = start_lba m (file_at sb j)
    \<and> file_size m' (file_at sb j) = file_size m (file_at sb j)" if "j < 8" for j
    using same_entry [OF assms, of j] that by force
  then have lba: "next_lba sb m' j = next_lba sb m j" if "j \<le> 8" for j
    using that by (intro next_lba_cong) simp
  show "kfs_wf sb m \<Longrightarrow> kfs_wf sb m'" using entry count lba unfolding kfs_wf_def by simp
  show "kfs_wf sb m \<Longrightarrow> kfs_dir sb m' = kfs_dir sb m" using entry count unfolding kfs_wf_def by (simp add: kfs_dir_def file_name_def)
qed

lemma unat_ucast_u8: "unat (x :: u32) < 256 \<Longrightarrow> unat (ucast x :: u8) = unat x"
  by (simp add: unsigned_ucast_eq take_bit_eq_mod)

lemma u8_nonzero: "0 < unat (x :: u8) \<Longrightarrow> x \<noteq> 0" by auto

text \<open>Writing a file: the data goes behind the files there are, then the superblock to sector 0.\<close>

lemma kfs_write_ready:
  assumes "ata_ready D view lag cap (dev s)" and "kfs_wf sb (mem s)" and "unat (file_count sb (mem s)) < 8"
    and "terminated name" and "length (cstr name) < 32"
    and "n = unat (sectors_of sz)" and "0 < n" and "n < 256" and "l = unat (next_lba sb (mem s) (unat (file_count sb (mem s))))" and "l + n \<le> cap"
  obtains m d where "kfs_entry sb name sz (mem s) = Some (next_lba sb (mem s) (unat (file_count sb (mem s))), m)"
    "kfs_write D sb name data sz s = Some (1, s\<lparr>mem := m, dev := d\<rparr>)" "ata_ready D view lag cap d"
    "ata.contents view d l n = peek m data (512 * n)" "ata.contents view d 0 1 = peek m sb 512"
    "\<And>a k. 1 \<le> a \<Longrightarrow> a + k \<le> l \<or> l + n \<le> a \<Longrightarrow> ata.contents view d a k = ata.contents view (dev s) a k"
proof -
  let ?lba = "next_lba sb (mem s) (unat (file_count sb (mem s)))"
  obtain m where m: "kfs_entry sb name sz (mem s) = Some (?lba, m)"
    using kfs_entry_wf [OF assms(2-5)] by metis
  have secs: "unat (ucast (sectors_of sz) :: u8) = n" using assms(6,8) by (simp add: unat_ucast_u8)
  have l: "1 \<le> l" using unat_next_lba [of "unat (file_count sb (mem s))" sb "mem s"] assms(3,9) by simp
  have "(ucast (sectors_of sz) :: u8) \<noteq> 0" using secs assms(7) by (intro u8_nonzero) simp
  then obtain d1 where d1: "ata_write_sectors D ?lba (ucast (sectors_of sz)) data (s\<lparr>mem := m\<rparr>) = Some (int n, s\<lparr>mem := m, dev := d1\<rparr>)"
    "ata_ready D view lag cap d1" "ata.contents view d1 l n = peek m data (512 * n)"
    "\<forall>a k. a + k \<le> l \<or> l + n \<le> a \<longrightarrow> ata.contents view d1 a k = ata.contents view (dev s) a k"
    using ata.written [of "s\<lparr>mem := m\<rparr>", OF _ assms(1), of "ucast (sectors_of sz)" ?lba data] assms(9,10) secs by auto
  obtain d2 where d2: "ata_write_sectors D 0 1 sb (s\<lparr>mem := m, dev := d1\<rparr>) = Some (1, s\<lparr>mem := m, dev := d2\<rparr>)"
    "ata_ready D view lag cap d2" "ata.contents view d2 0 1 = peek m sb 512"
    "\<forall>a k. a + k \<le> 0 \<or> 1 \<le> a \<longrightarrow> ata.contents view d2 a k = ata.contents view d1 a k"
    using ata.written [of "s\<lparr>mem := m, dev := d1\<rparr>", OF _ d1(2), of 1 0 sb] assms(7,10) l by auto
  show thesis
  proof (rule that [OF m, of d2])
    show "kfs_write D sb name data sz s = Some (1, s\<lparr>mem := m, dev := d2\<rparr>)"
      using m d1(1) d2(1) assms(3) by (simp add: kfs_write_def KFS_MAX_FILES_def)
    show "ata.contents view d2 l n = peek m data (512 * n)" using d2(4) l d1(3) by simp
    show "ata.contents view d2 a k = ata.contents view (dev s) a k" if "1 \<le> a" "a + k \<le> l \<or> l + n \<le> a" for a k
      using d1(4) d2(4) that by (metis)
  qed (use d2 in simp_all)
qed

lemma ata_write_mem: "ata_write_sectors D lba n buf s = Some (r, s') \<Longrightarrow> mem s' = mem s"
  by (auto simp: ata_write_sectors_def bind_eq_Some_conv split: if_splits)

lemma kfs_write_mem:
  assumes "kfs_write D sb name data sz s = Some (r, s')" and "unat (file_count sb (mem s)) < 8" and "kfs_entry sb name sz (mem s) = Some (lba, m)"
  shows "mem s' = m"
  using assms by (auto simp: kfs_write_def KFS_MAX_FILES_def bind_eq_Some_conv dest!: ata_write_mem)

lemma kfs_write_empty:
  assumes "ata_ready D view lag cap (dev s)" and "kfs_wf sb (mem s)" and "file_count sb (mem s) = 0"
    and "terminated name" and "length (cstr name) < 32" and "sectors_of sz = 1" and "2 \<le> cap"
  shows "\<exists>s1. kfs_write D sb name data sz s = Some (1, s1)"
  by (rule kfs_write_ready [OF assms(1,2) _ assms(4,5) refl _ _ refl, where sz = sz and data = data])
    (use assms(3,6,7) in \<open>auto simp: next_lba_def\<close>)

lemma kfs_read_ready:
  assumes "dev s = e" and "ata_ready D view lag cap e" and "kfs_find sb name s = Some (Some f)"
    and "n = unat (sectors_of (file_size (mem s) f))" and "0 < n" and "n < 256" and "unat (start_lba (mem s) f) + n \<le> cap"
  shows "\<exists>d. kfs_read D sb name buf s = Some (int n,
      s\<lparr>mem := poke buf (ata.contents view e (unat (start_lba (mem s) f)) n) (mem s), dev := d\<rparr>)
    \<and> ata_ready D view lag cap d"
proof -
  have secs: "unat (ucast (sectors_of (file_size (mem s) f)) :: u8) = n" using assms(4,6) by (simp add: unat_ucast_u8)
  then have "(ucast (sectors_of (file_size (mem s) f)) :: u8) \<noteq> 0" using assms(5) by (intro u8_nonzero) simp
  from ata.read [OF assms(1,2) this, of "start_lba (mem s) f" buf] secs assms(3,7)
  show ?thesis by (auto simp: kfs_read_def Let_def)
qed

text \<open>Mounting copies sector 0 over the superblock and checks the magic number.\<close>

lemma kfs_mount_ready:
  assumes "dev s = e" and "ata_ready D view lag cap e" and "1 \<le> cap" and "m = poke sb (ata.contents view e 0 1) (mem s)"
  shows "\<exists>d. ata_ready D view lag cap d \<and> (\<forall>l n. ata.contents view d l n = ata.contents view e l n)
    \<and> kfs_mount D cpuid regs sb s = Some (0,
      (if sb_magic sb m = KFS_MAGIC then s\<lparr>mem := m, dev := d\<rparr>
       else panic cpuid ''i have no root and i must scream. (invalid magic, not a KFS volume)'' regs (s\<lparr>mem := m, dev := d\<rparr>)))"
  using ata.read [OF assms(1,2), of 1 0 sb] assms(3,4) by (auto simp: kfs_mount_def)

text \<open>A file with a new name, last in the directory, is the one found.\<close>

lemma kfs_find_new:
  assumes "kfs_wf sb (mem s)" and "terminated name" and "kfs_dir sb (mem s) = D @ [(cstr name, l, sz)]" and "cstr name \<notin> fst ` set D"
  shows "\<exists>f. kfs_find sb name s = Some (Some f) \<and> start_lba (mem s) f = l \<and> file_size (mem s) f = sz"
proof -
  let ?n = "unat (file_count sb (mem s))"
  let ?e = "\<lambda>i. (file_name sb (mem s) i, start_lba (mem s) (file_at sb i), file_size (mem s) (file_at sb i))"
  have len: "?n = Suc (length D)" using arg_cong [OF assms(3), of length] by (simp add: kfs_dir_def)
  have nth: "?e i = (D @ [(cstr name, l, sz)]) ! i" if "i < ?n" for i
    using that assms(3) by (auto simp: kfs_dir_def dest!: arg_cong [of _ _ "\<lambda>xs. xs ! i"])
  have last: "file_name sb (mem s) (length D) = cstr name" "start_lba (mem s) (file_at sb (length D)) = l"
    "file_size (mem s) (file_at sb (length D)) = sz"
    using nth [of "length D"] len by simp_all
  have "file_name sb (mem s) i \<noteq> cstr name" if "i < length D" for i
  proof -
    have "D ! i \<in> set D" using that by simp
    moreover have "file_name sb (mem s) i = fst (D ! i)" using arg_cong [OF nth [of i], of fst] that len by (simp add: nth_append)
    ultimately show ?thesis using assms(4) by force
  qed
  then have "List.find (\<lambda>j. file_name sb (mem s) j = cstr name) [0..<?n] = Some (length D)"
    unfolding find_upt_Some using last(1) len by simp
  then show ?thesis using kfs_find_eq [OF assms(1,2)] last by simp
qed

end
