(* ===== verification/Pio.thy ===== *)
theory Pio
  imports Kfs
begin

text \<open>
  A concrete drive, \<open>pio\<close>: the abstract drive behind a busy counter. It satisfies what the disk
  driver relies on, so the properties of the storage components have instances: an empty file
  system on it, and one with a file.
\<close>

section \<open>A concrete drive\<close>

definition pio :: "(drive \<times> nat) port_dev" where
  "pio = \<lparr>
     in8 = (\<lambda>port (v, n). if port = 0x1F7
              then if 0 < n then (0x80, v, n - 1) else (if transfer v = Ready then 0x40 else 0x48, v, 0)
              else (block_regs v port, v, n)),
     out8 = (\<lambda>port x (v, n). if port = 0x1F7
              then if \<not> lba_mode (block_regs v) then (v, n)
                else if x = 0x20 then (start_read v, 3) else if x = 0x30 then (start_write v, 3) else (v, n)
              else (v\<lparr>block_regs := (block_regs v)(port := x)\<rparr>, n)),
     in16 = (\<lambda>port (v, n). case transfer v of
                To_host (w # ws) \<Rightarrow> (w, v\<lparr>transfer := (if ws = [] then Ready else To_host ws)\<rparr>, if length ws mod 256 = 0 then 2 else 0)
              | _ \<Rightarrow> (0, v, n)),
     out16 = (\<lambda>port w (v, n). (take_word w v, case transfer v of To_disk l k acc \<Rightarrow> if length acc < 255 then n else 2 | _ \<Rightarrow> n))\<rparr>"

lemma pio_drive: "ata_drive pio fst snd cap"
  unfolding ata_drive_def
proof (intro conjI)
  show "ata_status pio fst snd" by (auto simp: ata_status_def pio_def Let_def)
  show "ata_registers pio fst snd" by (auto simp: ata_registers_def pio_def)
  show "ata_commands pio fst snd cap" by (auto simp: ata_commands_def pio_def)
  show "ata_data pio fst snd" by (auto simp: ata_data_def pio_def Let_def)
qed

definition blank_disk :: drive where
  "blank_disk = \<lparr>image = \<lambda>_. replicate 256 0, block_regs = \<lambda>_. 0, transfer = Ready\<rparr>"

definition attach :: "'d \<Rightarrow> 'd storage" where
  "attach d = \<lparr>mem = st32 0x20000 KFS_MAGIC (\<lambda>_. 0), con = [], ports = [], ticks = 0, halted = False, stuck = False,
     bitmap = 0, bitmap_size = 0, max_pages = 0, last_free_page = 0, dev = d\<rparr>"

abbreviation disk_state :: "(drive \<times> nat) storage" where
  "disk_state \<equiv> attach (blank_disk, 5)"

lemma attach_simps [simp]: "dev (attach d) = d" "\<not> halted (attach d)"
  by (simp_all add: attach_def)

lemma mem_attach: "mem (attach d) = st32 0x20000 KFS_MAGIC (\<lambda>_. 0)"
  by (simp add: attach_def)

lemma disk_ready: "ata_ready pio fst snd 1000 (dev disk_state)"
  by (simp add: ata_ready_def pio_drive blank_disk_def)

section \<open>A file system on it\<close>

lemma sectors_small: "sectors_of 5 = 1" "sectors_of 600 = 2"
  by (simp_all add: sectors_of_def)

lemma empty_disk:
  "sb_magic 0x20000 (mem (attach d)) = KFS_MAGIC" "file_count 0x20000 (mem (attach d)) = 0" "kfs_wf 0x20000 (mem (attach d))"
  "kfs_dir 0x20000 (mem (attach d)) = []" "next_lba 0x20000 (mem (attach d)) 0 = 1"
proof -
  show "file_count 0x20000 (mem (attach d)) = 0"
    by (simp add: mem_attach file_count_def ld32_st32_apart) (simp add: ld32_def le32_def)
  then show "kfs_wf 0x20000 (mem (attach d))" "kfs_dir 0x20000 (mem (attach d)) = []"
    by (simp_all add: kfs_wf_def kfs_dir_def)
qed (simp_all add: mem_attach sb_magic_def next_lba_def)

lemma data_apart: "region 0x50000 5 \<inter> region 0x20000 328 = {}"
  using regions_disjoint [of "0x20000" 328 "0x50000" 5] by (simp add: Int_commute)

text \<open>The disk with one file on it, for the witnesses that need one.\<close>

lemma one_file:
  obtains s1 where "kfs_write pio 0x20000 (''notes'' @ [NUL]) 0x50000 5 disk_state = Some (1, s1)"
    "ata_ready pio fst snd 1000 (dev s1)" "kfs_wf 0x20000 (mem s1)" "unat (file_count 0x20000 (mem s1)) = 1"
    "kfs_dir 0x20000 (mem s1) = [(''notes'', 1, 5)]" "next_lba 0x20000 (mem s1) 1 = 2"
    "start_lba (mem s1) (file_at 0x20000 0) = 1" "file_size (mem s1) (file_at 0x20000 0) = 5"
proof -
  have count: "unat (file_count 0x20000 (mem disk_state)) = 0" by (simp only: empty_disk) simp
  obtain m where m: "kfs_entry 0x20000 (''notes'' @ [NUL]) 5 (mem disk_state) = Some (1, m)" "kfs_wf 0x20000 m"
    "kfs_dir 0x20000 m = [(''notes'', 1, 5)]"
    by (rule kfs_entry_wf [OF empty_disk(3), of "(blank_disk, 5 :: nat)" "''notes'' @ [NUL]" 5, unfolded count empty_disk(4,5)]) simp_all
  obtain d where w: "kfs_write pio 0x20000 (''notes'' @ [NUL]) 0x50000 5 disk_state = Some (1, disk_state\<lparr>mem := m, dev := d\<rparr>)"
    "ata_ready pio fst snd 1000 d"
    by (rule kfs_write_ready [OF disk_ready empty_disk(3) _ _ _ refl _ _ refl, where name = "''notes'' @ [NUL]" and sz = 5 and data = "0x50000",
          unfolded count empty_disk(5) m(1)]) (simp_all add: sectors_small)
  have one: "unat (file_count 0x20000 m) = 1" using arg_cong [OF m(3), of length] by (simp add: kfs_dir_def)
  then have "start_lba m (file_at 0x20000 0) = 1" "file_size m (file_at 0x20000 0) = 5"
    using m(3) by (simp_all add: kfs_dir_def)
  with that [OF w(1)] w(2) m one show thesis
    by (simp add: next_lba_def sectors_small)
qed

end
