(* ===== verification/Kfs_Props.thy ===== *)
theory Kfs_Props
  imports Pio
begin

text \<open>
  The properties of the disk driver and the file system, with witnesses on the concrete drive.
\<close>

section \<open>The disk driver\<close>

text \<open>
  C8: on a working drive \<open>ata_write_sectors\<close> and \<open>ata_read_sectors\<close> return (their busy waits end),
  both with the sector count, and the read delivers to its buffer the very bytes the write took,
  for every count from 1 to 255 and every sector number the drive has.
\<close>

theorem ata_roundtrip:
  assumes "ata_ready D view lag cap (dev s)" and "n \<noteq> 0" and "unat lba + unat n \<le> cap"
  shows "\<exists>s1 s2. ata_write_sectors D lba n src s = Some (int (unat n), s1) \<and> mem s1 = mem s
    \<and> ata_read_sectors D lba n dst s1 = Some (int (unat n), s2) \<and> mem s2 = poke dst (peek (mem s) src (512 * unat n)) (mem s)"
proof -
  obtain d1 where d1: "ata_write_sectors D lba n src s = Some (int (unat n), s\<lparr>dev := d1\<rparr>)" "ata_ready D view lag cap d1"
    "ata.contents view d1 (unat lba) (unat n) = peek (mem s) src (512 * unat n)"
    using ata.written [OF refl assms, of src] by auto
  obtain d2 where "ata_read_sectors D lba n dst (s\<lparr>dev := d1\<rparr>) = Some (int (unat n),
      s\<lparr>mem := poke dst (peek (mem s) src (512 * unat n)) (mem s), dev := d2\<rparr>)"
    using ata.read [of "s\<lparr>dev := d1\<rparr>", OF _ d1(2) assms(2,3), of dst] d1(3) by auto
  then show ?thesis using d1(1) by auto
qed

lemma ata_roundtrip_witness:
  "\<exists>s1 s2. ata_write_sectors pio 7 2 0x50000 disk_state = Some (2, s1) \<and> ata_read_sectors pio 7 2 0x60000 s1 = Some (2, s2)"
  using ata_roundtrip [OF disk_ready, of 2 7 "0x50000" "0x60000"] by auto

text \<open>
  The status of a command that failed: not busy, no data requested, the error bit set. The other
  bits (drive ready, seek complete: 51h on most drives) are whatever they are.
\<close>

definition failed_status :: "u8 \<Rightarrow> bool" where
  "failed_status st \<longleftrightarrow> st AND 0x80 = 0 \<and> st AND 0x08 = 0 \<and> st AND 0x01 \<noteq> 0"

lemma wait_drq_never:
  assumes "\<forall>d. F d \<longrightarrow> failed_status (fst (in8 D 0x1F7 d)) \<and> F (snd (in8 D 0x1F7 d))"
  shows "F d \<Longrightarrow> ata_wait_drq D d = None"
proof -
  have "\<not> F d" if "ata_wait_drq D d = Some y" for y
  proof (rule ata_wait_drq.raw_induct [where P = "\<lambda>E d _. E = D \<longrightarrow> \<not> F d", THEN mp, OF _ that refl])
    fix rec :: "'a port_dev \<Rightarrow> 'a \<Rightarrow> 'a option" and E d y
    assume "\<And>E d y. rec E d = Some y \<Longrightarrow> E = D \<longrightarrow> \<not> F d"
      "(if fst (in8 E ATA_PRIMARY_STATUS d) AND ATA_STATUS_DRQ = 0 then rec E (snd (in8 E ATA_PRIMARY_STATUS d))
        else Some (snd (in8 E ATA_PRIMARY_STATUS d))) = Some y"
    then show "E = D \<longrightarrow> \<not> F d"
      using assms by (auto simp: ata_regs ATA_STATUS_DRQ_def failed_status_def split: if_splits)
  qed
  then show "F d \<Longrightarrow> ata_wait_drq D d = None" by (cases "ata_wait_drq D d") auto
qed

text \<open>
  C39: the driver tests the error bit only after waiting for a data request. A drive that ends a
  read command, after whatever time busy, with an error and no data request - the error bit set,
  the ready and seek bits as they may be - is waited on forever: \<open>ata_read_sectors\<close> does not return, and
  \<open>kfs_mount\<close> never reaches the panic it has for a failed read.
\<close>

theorem ata_error_hangs:
  assumes "\<forall>d. F d \<longrightarrow> failed_status (fst (in8 D 0x1F7 d)) \<and> F (snd (in8 D 0x1F7 d))" and "ata_wait_busy D (dev s) = Some d"
    and "ata_wait_busy D (ata_command D lba n ATA_CMD_READ_SECTORS d) = Some e" and "F e" and "n \<noteq> 0"
  shows "ata_read_sectors D lba n buf s = None"
proof -
  have "ata_wait_drq D e = None" by (rule wait_drq_never [OF assms(1,4)])
  moreover obtain k where "unat n = Suc k" using assms(5) by (metis not0_implies_Suc unat_eq_0)
  ultimately show ?thesis using assms(2,3,5) by (simp add: ata_read_sectors_def)
qed

text \<open>A drive that is ready until its first command, which it fails after two busy readings.\<close>

definition failing :: "nat option port_dev" where
  "failing = \<lparr>in8 = \<lambda>_ d. (case d of None \<Rightarrow> (0x40, d) | Some 0 \<Rightarrow> (0x51, d) | Some (Suc k) \<Rightarrow> (0x80, Some k)),
     out8 = \<lambda>port _ d. if port = 0x1F7 then Some 2 else d, in16 = \<lambda>_ d. (0, d), out16 = \<lambda>_ _ d. d\<rparr>"

lemma failing_waits:
  "ata_wait_busy failing None = Some None" "ata_wait_busy failing (Some 0) = Some (Some 0)"
  "ata_wait_busy failing (Some (Suc k)) = ata_wait_busy failing (Some k)"
  by (subst ata_wait_busy.simps, simp add: failing_def ATA_STATUS_BSY_def)+

lemma ata_error_hangs_witness:
  "ata_read_sectors failing 0 1 0x20000 (attach None) = None"
proof -
  have "ata_command failing 0 1 ATA_CMD_READ_SECTORS None = Some (Suc (Suc 0))"
    by (simp add: failing_def ata_command_def ata_regs numeral_2_eq_2)
  then have "ata_wait_busy failing (ata_command failing 0 1 ATA_CMD_READ_SECTORS None) = Some (Some 0)" by (simp only: failing_waits)
  moreover have "failed_status (fst (in8 failing 0x1F7 (Some 0)))" "snd (in8 failing 0x1F7 (Some 0)) = Some 0"
    by (simp_all add: failing_def failed_status_def)
  ultimately show ?thesis
    using ata_error_hangs [where F = "\<lambda>d. d = Some 0" and D = failing and lba = 0 and n = 1 and s = "attach None"] failing_waits(1) by simp
qed

section \<open>The file system\<close>

text \<open>
  C3: a file survives a reboot. On a working drive with a well-formed directory, \<open>kfs_write\<close> of
  a file with a new name (shorter than 32 characters, at most 255 sectors, within the drive)
  returns 1; from then on, on any memory contents at all, mounting the disk succeeds and
  \<open>kfs_read\<close> returns the number of sectors and the buffer starts with the bytes that were
  written.
\<close>

theorem kfs_survives_reboot:
  assumes "ata_ready D view lag cap (dev s)" and "kfs_wf sb (mem s)" and "sb_magic sb (mem s) = KFS_MAGIC"
    and "unat (file_count sb (mem s)) < 8" and "terminated name" and "length (cstr name) < 32"
    and "cstr name \<notin> fst ` set (kfs_dir sb (mem s))"
    and "0 < unat (sectors_of sz)" and "unat (sectors_of sz) < 256" and "unat sz \<le> 512 * unat (sectors_of sz)"
    and "unat (next_lba sb (mem s) (unat (file_count sb (mem s)))) + unat (sectors_of sz) \<le> cap"
    and "region data (unat sz) \<inter> region sb 328 = {}"
  shows "\<exists>s1. kfs_write D sb name data sz s = Some (1, s1) \<and>
    (\<forall>t. dev t = dev s1 \<longrightarrow> (\<exists>t1 t2. kfs_mount D cpuid regs sb t = Some (0, t1) \<and> halted t1 = halted t
      \<and> kfs_read D sb name buf t1 = Some (int (unat (sectors_of sz)), t2)
      \<and> peek (mem t2) buf (unat sz) = peek (mem s) data (unat sz)))"
proof -
  let ?n = "unat (sectors_of sz)" and ?i = "unat (file_count sb (mem s))"
  let ?l = "unat (next_lba sb (mem s) ?i)"
  from kfs_write_ready [OF assms(1,2,4-6) refl assms(8,9) refl assms(11), of data] obtain m d where
    w: "kfs_entry sb name sz (mem s) = Some (next_lba sb (mem s) ?i, m)" "kfs_write D sb name data sz s = Some (1, s\<lparr>mem := m, dev := d\<rparr>)"
    "ata_ready D view lag cap d" "ata.contents view d ?l ?n = peek m data (512 * ?n)" "ata.contents view d 0 1 = peek m sb 512"
    by metis
  from kfs_entry_wf [OF assms(2,4-6), of sz] obtain m' where "kfs_entry sb name sz (mem s) = Some (next_lba sb (mem s) ?i, m')"
    "kfs_wf sb m'" "kfs_dir sb m' = kfs_dir sb (mem s) @ [(cstr name, next_lba sb (mem s) ?i, sz)]"
    "sb_magic sb m' = sb_magic sb (mem s)" "\<forall>a. a \<notin> region sb 328 \<longrightarrow> m' a = mem s a" .
  then have m: "kfs_wf sb m" "kfs_dir sb m = kfs_dir sb (mem s) @ [(cstr name, next_lba sb (mem s) ?i, sz)]"
    "sb_magic sb m = KFS_MAGIC" "\<forall>a. a \<notin> region sb 328 \<longrightarrow> m a = mem s a"
    using w(1) assms(3) by simp_all
  have "\<exists>t1 t2. kfs_mount D cpuid regs sb t = Some (0, t1) \<and> halted t1 = halted t
      \<and> kfs_read D sb name buf t1 = Some (int ?n, t2) \<and> peek (mem t2) buf (unat sz) = peek (mem s) data (unat sz)"
    if t: "dev t = d" for t
  proof -
    let ?m1 = "poke sb (peek m sb 512) (mem t)"
    have "same_bytes sb {..<328} ?m1 m"
      unfolding same_bytes_def using byte_poke [of 0 "peek m sb 512" _ sb "mem t"] by auto
    note m1 = kfs_wf_cong [OF this]
    obtain d1 where mount: "ata_ready D view lag cap d1" "ata.contents view d1 ?l ?n = ata.contents view d ?l ?n"
      "kfs_mount D cpuid regs sb t = Some (0, t\<lparr>mem := ?m1, dev := d1\<rparr>)"
      using kfs_mount_ready [OF t w(3), of ?m1 sb cpuid regs] w(5) m1(1) m(3) assms(8,11) by auto
    let ?t1 = "t\<lparr>mem := ?m1, dev := d1\<rparr>"
    have dir: "kfs_dir sb ?m1 = kfs_dir sb (mem s) @ [(cstr name, next_lba sb (mem s) ?i, sz)]" using m1(4) m(1,2) by simp
    then obtain f where find: "kfs_find sb name ?t1 = Some (Some f)" "start_lba ?m1 f = next_lba sb (mem s) ?i" "file_size ?m1 f = sz"
      using kfs_find_new [of sb ?t1 name "kfs_dir sb (mem s)"] dir m1(3) m(1) assms(5,7) by auto
    then obtain d2 where read: "kfs_read D sb name buf ?t1 = Some (int ?n, ?t1\<lparr>mem := poke buf (ata.contents view d1 ?l ?n) ?m1, dev := d2\<rparr>)"
      using kfs_read_ready [of ?t1, OF _ mount(1) find(1) refl, of buf] assms(8,9,11) by auto
    have "peek (poke buf (peek m data (512 * ?n)) ?m1) buf (unat sz) = take (unat sz) (peek m data (512 * ?n))"
      using peek_nested [of 0 "unat sz" "peek m data (512 * ?n)" buf ?m1] assms(9,10) by simp
    also have "\<dots> = peek m data (unat sz)"
      using assms(10) by (auto intro!: nth_equalityI)
    also have "\<dots> = peek (mem s) data (unat sz)"
      using assms(12) m(4) by (intro peek_cong) blast
    finally show ?thesis using mount(2,3) read w(4) by auto
  qed
  then show ?thesis using w(2) by auto
qed

lemma kfs_survives_reboot_witness:
  "\<forall>cpuid regs. \<exists>s1. kfs_write pio 0x20000 (''notes'' @ [NUL]) 0x50000 5 disk_state = Some (1, s1) \<and>
    (\<exists>t1 t2. kfs_mount pio cpuid regs 0x20000 (attach (dev s1)) = Some (0, t1) \<and> \<not> halted t1
      \<and> kfs_read pio 0x20000 (''notes'' @ [NUL]) 0x60000 t1 = Some (1, t2)
      \<and> peek (mem t2) 0x60000 5 = peek (mem disk_state) 0x50000 5)"
proof (intro allI)
  fix cpuid :: cpuid and regs :: cpu_regs
  have "\<exists>s1. kfs_write pio 0x20000 (''notes'' @ [NUL]) 0x50000 5 disk_state = Some (1, s1) \<and>
    (\<forall>t. dev t = dev s1 \<longrightarrow> (\<exists>t1 t2. kfs_mount pio cpuid regs 0x20000 t = Some (0, t1) \<and> halted t1 = halted t
      \<and> kfs_read pio 0x20000 (''notes'' @ [NUL]) 0x60000 t1 = Some (1, t2)
      \<and> peek (mem t2) 0x60000 5 = peek (mem disk_state) 0x50000 5))"
    using kfs_survives_reboot [OF disk_ready empty_disk(3,1), of "''notes'' @ [NUL]" 5 "0x50000" cpuid regs "0x60000"]
    by (simp add: empty_disk sectors_small data_apart)
  then show "\<exists>s1. kfs_write pio 0x20000 (''notes'' @ [NUL]) 0x50000 5 disk_state = Some (1, s1) \<and>
    (\<exists>t1 t2. kfs_mount pio cpuid regs 0x20000 (attach (dev s1)) = Some (0, t1) \<and> \<not> halted t1
      \<and> kfs_read pio 0x20000 (''notes'' @ [NUL]) 0x60000 t1 = Some (1, t2)
      \<and> peek (mem t2) 0x60000 5 = peek (mem disk_state) 0x50000 5)"
    by (metis attach_simps)
qed

text \<open>
  C18: whatever the drive does, a \<open>kfs_write\<close> that returns has appended exactly one entry to the
  directory (name, the next free sector, size), kept the directory well formed and written no
  memory outside the superblock.
\<close>

theorem kfs_write_extends_dir:
  assumes "kfs_write D sb name data sz s = Some (r, s')" and "kfs_wf sb (mem s)" and "unat (file_count sb (mem s)) < 8"
    and "terminated name" and "length (cstr name) < 32"
  shows "kfs_wf sb (mem s') \<and> kfs_dir sb (mem s') = kfs_dir sb (mem s) @ [(cstr name, next_lba sb (mem s) (unat (file_count sb (mem s))), sz)]
    \<and> {a. mem s' a \<noteq> mem s a} \<subseteq> region sb 328"
proof -
  obtain m where m: "kfs_entry sb name sz (mem s) = Some (next_lba sb (mem s) (unat (file_count sb (mem s))), m)" "kfs_wf sb m"
    "kfs_dir sb m = kfs_dir sb (mem s) @ [(cstr name, next_lba sb (mem s) (unat (file_count sb (mem s))), sz)]"
    "sb_magic sb m = sb_magic sb (mem s)" "\<forall>a. a \<notin> region sb 328 \<longrightarrow> m a = mem s a"
    by (rule kfs_entry_wf [OF assms(2-5)])
  have "mem s' = m" using assms(1,3) m(1) by (rule kfs_write_mem)
  then show ?thesis using m by blast
qed

lemma kfs_write_extends_dir_witness:
  "\<exists>s1. kfs_write pio 0x20000 (''notes'' @ [NUL]) 0x50000 5 disk_state = Some (1, s1) \<and> kfs_dir 0x20000 (mem s1) = [(''notes'', 1, 5)]"
proof -
  obtain s1 where s1: "kfs_write pio 0x20000 (''notes'' @ [NUL]) 0x50000 5 disk_state = Some (1, s1)"
    using kfs_write_empty [OF disk_ready empty_disk(3) empty_disk(2), of "''notes'' @ [NUL]" 5 "0x50000"]
    by (auto simp: sectors_small)
  from kfs_write_extends_dir [OF this empty_disk(3)] s1 show ?thesis
    by (simp add: empty_disk)
qed

text \<open>
  C6: writing a file changes no sector of the files already there: each keeps its contents on
  the disk.
\<close>

theorem kfs_write_keeps_files:
  assumes "ata_ready D view lag cap (dev s)" and "kfs_wf sb (mem s)" and "unat (file_count sb (mem s)) < 8"
    and "terminated name" and "length (cstr name) < 32"
    and "0 < unat (sectors_of sz)" and "unat (sectors_of sz) < 256"
    and "unat (next_lba sb (mem s) (unat (file_count sb (mem s)))) + unat (sectors_of sz) \<le> cap"
    and "i < unat (file_count sb (mem s))" and "first = unat (start_lba (mem s) (file_at sb i))"
    and "k < unat (sectors_of (file_size (mem s) (file_at sb i)))"
  shows "\<exists>s1. kfs_write D sb name data sz s = Some (1, s1) \<and> sector_of view (dev s1) (first + k) = sector_of view (dev s) (first + k)"
proof -
  let ?i = "unat (file_count sb (mem s))"
  have "first = unat (next_lba sb (mem s) i)" using assms(2,9,10) by (simp add: kfs_wf_def)
  moreover have "1 \<le> unat (next_lba sb (mem s) i)
    \<and> unat (next_lba sb (mem s) i) + unat (sectors_of (file_size (mem s) (file_at sb i))) \<le> unat (next_lba sb (mem s) ?i)"
    using file_extent [of i ?i sb "mem s"] assms(3,9) by simp
  ultimately have "1 \<le> first + k" "first + k + 1 \<le> unat (next_lba sb (mem s) ?i)" using assms(11) by simp_all
  then have at: "1 \<le> first + k" "first + k + 1 \<le> unat (next_lba sb (mem s) ?i) \<or> unat (next_lba sb (mem s) ?i) + unat (sectors_of sz) \<le> first + k"
    by simp_all
  from kfs_write_ready [OF assms(1-5) refl assms(6,7) refl assms(8), of data] obtain m d where
    "kfs_write D sb name data sz s = Some (1, s\<lparr>mem := m, dev := d\<rparr>)"
    "ata.contents view d (first + k) 1 = ata.contents view (dev s) (first + k) 1"
    using at by metis
  then show ?thesis by (auto simp: ata.contents_one simp del: One_nat_def)
qed

lemma kfs_write_keeps_files_witness:
  "\<exists>(s :: (drive \<times> nat) storage) s1. kfs_write pio 0x20000 (''more'' @ [NUL]) 0x50000 600 s = Some (1, s1) \<and> sector_of fst (dev s1) 1 = sector_of fst (dev s) 1"
proof -
  obtain s :: "(drive \<times> nat) storage" where s: "ata_ready pio fst snd 1000 (dev s)" "kfs_wf 0x20000 (mem s)" "unat (file_count 0x20000 (mem s)) = 1"
    "next_lba 0x20000 (mem s) 1 = 2" "start_lba (mem s) (file_at 0x20000 0) = 1" "file_size (mem s) (file_at 0x20000 0) = 5"
    by (rule one_file) blast
  from kfs_write_keeps_files [OF s(1,2), of "''more'' @ [NUL]" 600 0 1 0 "0x50000"] s(3-6) show ?thesis
    by (auto simp: sectors_small)
qed

text \<open>
  C37: \<open>kfs_write\<close> does not replace: after writing under a name the directory already has, a
  lookup of that name still finds the old entry, so the new data cannot be read by name.
\<close>

theorem kfs_rewrite_invisible:
  assumes "kfs_write D sb name data sz s = Some (r, s')" and "kfs_wf sb (mem s)" and "unat (file_count sb (mem s)) < 8"
    and "terminated name" and "length (cstr name) < 32" and "cstr name \<in> fst ` set (kfs_dir sb (mem s))"
  shows "\<exists>f. kfs_find sb name s = Some (Some f) \<and> kfs_find sb name s' = Some (Some f)
    \<and> start_lba (mem s') f = start_lba (mem s) f \<and> file_size (mem s') f = file_size (mem s) f"
proof -
  let ?n = "unat (file_count sb (mem s))" and ?P = "\<lambda>m j. file_name sb m j = cstr name"
  from kfs_entry_spec [OF refl assms(3-5), of sz] obtain m where
    m: "kfs_entry sb name sz (mem s) = Some (next_lba sb (mem s) ?n, m)" "file_count sb m = file_count sb (mem s) + 1"
    "same_bytes sb ({..<4} \<union> {8..<8 + 40 * ?n}) m (mem s)" by metis
  have "mem s' = m" using assms(1,3) m(1) by (rule kfs_write_mem)
  note grown = kfs_dir_snoc [OF refl assms(3) m(2,3), folded this]
  from kfs_entry_wf [OF assms(2-5), of sz] m(1) have wf: "kfs_wf sb (mem s')"
    unfolding \<open>mem s' = m\<close> by (metis option.inject prod.inject)
  obtain j where "j < ?n" "?P (mem s) j" using assms(6) by (auto simp: kfs_dir_def)
  then obtain b where b: "List.find (?P (mem s)) [0..<?n] = Some b"
    by (cases "List.find (?P (mem s)) [0..<?n]") (auto simp: find_upt_None)
  then have "b < ?n" and "List.find (?P (mem s')) [0..<?n + 1] = Some b"
    using grown(3) unfolding find_upt_Some by (auto simp: file_name_def)
  then show ?thesis
    using b grown(1,4,5) kfs_find_eq [OF assms(2,4)] kfs_find_eq [OF wf assms(4)] by auto
qed

lemma kfs_rewrite_invisible_witness:
  "\<exists>(s :: (drive \<times> nat) storage) s1 f. kfs_write pio 0x20000 (''notes'' @ [NUL]) 0x50000 5 s = Some (1, s1) \<and> kfs_find 0x20000 (''notes'' @ [NUL]) s1 = Some (Some f)
     \<and> kfs_find 0x20000 (''notes'' @ [NUL]) s = Some (Some f)"
proof -
  obtain s :: "(drive \<times> nat) storage" where s: "ata_ready pio fst snd 1000 (dev s)" "kfs_wf 0x20000 (mem s)" "unat (file_count 0x20000 (mem s)) = 1"
    "next_lba 0x20000 (mem s) 1 = 2" "kfs_dir 0x20000 (mem s) = [(''notes'', 1, 5)]"
    by (rule one_file) blast
  obtain s1 where "kfs_write pio 0x20000 (''notes'' @ [NUL]) 0x50000 5 s = Some (1, s1)"
    by (rule kfs_write_ready [OF s(1,2) _ _ _ refl _ _ refl, where name = "''notes'' @ [NUL]" and sz = 5 and data = "0x50000", unfolded s(3,4)])
      (simp_all add: sectors_small)
  from kfs_rewrite_invisible [OF this s(2)] this s(3,5) show ?thesis by auto
qed

text \<open>
  A freshly made file system mounts: after \<open>kfs_mkfs\<close> (which returns 1), \<open>kfs_mount\<close> on the
  same drive returns without a panic, with an empty directory.
\<close>

lemma kfs_mkfs_mounts:
  assumes "ata_ready D view lag cap (dev s)" and "1 \<le> cap"
  shows "\<exists>s1. kfs_mkfs D sb s = Some (1, s1) \<and> (\<forall>t. dev t = dev s1 \<longrightarrow>
    (\<exists>t1. kfs_mount D cpuid regs sb t = Some (0, t1) \<and> halted t1 = halted t \<and> kfs_dir sb (mem t1) = [] \<and> kfs_wf sb (mem t1)))"
proof -
  let ?m = "st32 sb KFS_MAGIC (memset sb 0 328 (mem s))"
  obtain d where d: "kfs_mkfs D sb s = Some (1, s\<lparr>mem := ?m, dev := d\<rparr>)" "ata_ready D view lag cap d" "ata.contents view d 0 1 = peek ?m sb 512"
    using ata.written [of "s\<lparr>mem := ?m\<rparr>", OF _ assms(1), of 1 0 sb] assms(2) by (auto simp: kfs_mkfs_def)
  have "file_count sb ?m = 0"
  proof -
    have "memset sb 0 328 (mem s) (sb + of_nat k) = 0" if "k < 328" for k
      using that memset_inside [of k 328 sb 0 "mem s"] by simp
    from this [of 4] this [of 5] this [of 6] this [of 7] show ?thesis
      by (simp add: file_count_def ld32_st32_apart) (simp add: ld32_def le32_def add.commute [of sb])
  qed
  then have m: "kfs_wf sb ?m" "kfs_dir sb ?m = []" "sb_magic sb ?m = KFS_MAGIC"
    by (simp_all add: kfs_wf_def kfs_dir_def sb_magic_def)
  have "\<exists>t1. kfs_mount D cpuid regs sb t = Some (0, t1) \<and> halted t1 = halted t \<and> kfs_dir sb (mem t1) = [] \<and> kfs_wf sb (mem t1)"
    if t: "dev t = d" for t
  proof -
    let ?m1 = "poke sb (peek ?m sb 512) (mem t)"
    have "same_bytes sb {..<328} ?m1 ?m"
      unfolding same_bytes_def using byte_poke [of 0 "peek ?m sb 512" _ sb "mem t"] by auto
    note m1 = kfs_wf_cong [OF this]
    from kfs_mount_ready [OF t d(2) assms(2), of ?m1 sb cpuid regs] d(3) m m1 show ?thesis by auto
  qed
  then show ?thesis using d(1) by auto
qed

lemma kfs_mkfs_mounts_witness:
  "\<forall>cpuid regs. \<exists>s1. kfs_mkfs pio 0x20000 disk_state = Some (1, s1) \<and> (\<exists>t1. kfs_mount pio cpuid regs 0x20000 s1 = Some (0, t1))"
proof (intro allI)
  fix cpuid :: cpuid and regs :: cpu_regs
  show "\<exists>s1. kfs_mkfs pio 0x20000 disk_state = Some (1, s1) \<and> (\<exists>t1. kfs_mount pio cpuid regs 0x20000 s1 = Some (0, t1))"
    using kfs_mkfs_mounts [OF disk_ready, of "0x20000" cpuid regs] by auto
qed

end
