(* ===== verification/Vfs.thy ===== *)
theory Vfs
  imports Pio
begin

text \<open>
  \<open>kernel/fs/vfs.c\<close>: opening, reading and writing by handle. A handle is a pointer: 0 is \<open>NULL\<close>,
  1 the terminal, anything else the address of a directory entry.
\<close>

text \<open>\<open>kf->name\<close> for a pointer \<open>f\<close> into the superblock, as a string to the superblock's end.\<close>

definition name_from :: "u32 \<Rightarrow> memory \<Rightarrow> u32 \<Rightarrow> string" where
  "name_from sb m f = map char_of_byte (peek m f (328 - unat (f - sb)))"

definition vfs_l_open :: "u32 \<Rightarrow> string \<Rightarrow> 'a kernel_scheme \<Rightarrow> u32 option" where
  "vfs_l_open sb path s =
     do { r \<leftarrow> strcmp path (''/dev/tty'' @ [NUL]);
          if r = 0 then Some 1
          else do { p \<leftarrow> kfs_find sb path s;
                    Some (case p of None \<Rightarrow> 0 | Some f \<Rightarrow> f) } }"

definition vfs_l_write ::
    "'d port_dev \<Rightarrow> u32 \<Rightarrow> u32 \<Rightarrow> u32 \<Rightarrow> u32 \<Rightarrow> ('d, 'a) storage_scheme \<Rightarrow> (int \<times> ('d, 'a) storage_scheme) option" where
  "vfs_l_write D sb f buf count s =
     (if f = 0 then Some (- 1, s)
      else if f = 1 then
       (let len = (if count \<ge> 512 then 511 else count);
            tmp = map char_of_byte (peek (mem s) buf (unat len)) @ [NUL]
        in Some (int (unat len), tty_out (cstr tmp) s))
      else kfs_write D sb (name_from sb (mem s) f) buf count s)"

definition vfs_l_read ::
    "'d port_dev \<Rightarrow> u32 \<Rightarrow> u32 \<Rightarrow> u32 \<Rightarrow> u32 \<Rightarrow> ('d, 'a) storage_scheme \<Rightarrow> (int \<times> ('d, 'a) storage_scheme) option" where
  "vfs_l_read D sb f buf count s =
     (if f = 0 then Some (- 1, s) else kfs_read D sb (name_from sb (mem s) f) buf s)"

lemma name_from_entry:
  assumes "i < 8"
  shows "name_from sb m (file_at sb i) = name_at sb m i"
proof -
  have "unat (file_at sb i - sb) = 8 + 40 * i"
    using assms unat_of_nat_u32 [of "8 + 40 * i"] by (simp add: file_at_def)
  then have "328 - unat (file_at sb i - sb) = 320 - 40 * i" by simp
  then show ?thesis unfolding name_from_def name_at_def by (rule arg_cong)
qed

text \<open>Lookups by two strings with the same text agree.\<close>

lemma kfs_find_cong:
  "kfs_wf sb (mem s) \<Longrightarrow> terminated a \<Longrightarrow> terminated b \<Longrightarrow> cstr a = cstr b \<Longrightarrow> kfs_find sb a s = kfs_find sb b s"
  by (simp add: kfs_find_eq)

lemma open_entry:
  assumes "kfs_wf sb (mem s)" and "terminated path" and "cstr path \<noteq> ''/dev/tty''" and "vfs_l_open sb path s = Some f" and "f \<noteq> 0"
  obtains i where "i < unat (file_count sb (mem s))" "f = file_at sb i" "file_name sb (mem s) i = cstr path" "kfs_find sb path s = Some (Some f)"
proof -
  have tty: "terminated (''/dev/tty'' @ [NUL])" "cstr (''/dev/tty'' @ [NUL]) = ''/dev/tty''" by simp_all
  obtain r where "strcmp path (''/dev/tty'' @ [NUL]) = Some r" using strcmp_defined [OF assms(2) tty(1)] by blast
  moreover have "r \<noteq> 0" using calculation strcmp_eq_0 [OF assms(2) tty(1)] tty(2) assms(3) by auto
  ultimately have find: "kfs_find sb path s = Some (Some f)"
    using assms(4,5) by (auto simp: vfs_l_open_def bind_eq_Some_conv split: option.splits)
  then obtain i where "List.find (\<lambda>j. file_name sb (mem s) j = cstr path) [0..<unat (file_count sb (mem s))] = Some i" "f = file_at sb i"
    using kfs_find_eq [OF assms(1,2)] by auto
  with find that show thesis unfolding find_upt_Some by blast
qed

section \<open>Properties\<close>

text \<open>
  C40: a file opened by path reads as that file: with a well-formed directory, reading from the
  handle \<open>vfs_l_open\<close> gave for a path is \<open>kfs_read\<close> of that path, for every buffer; the byte count
  asked for is ignored.
\<close>

theorem vfs_open_read:
  assumes "kfs_wf sb (mem s)" and "terminated path" and "cstr path \<noteq> ''/dev/tty''" and "vfs_l_open sb path s = Some f" and "f \<noteq> 0"
  shows "vfs_l_read D sb f buf count s = kfs_read D sb path buf s"
proof -
  from assms obtain i where i: "i < unat (file_count sb (mem s))" "f = file_at sb i" "file_name sb (mem s) i = cstr path"
    by (rule open_entry)
  then have "i < 8" "terminated (raw_name sb (mem s) i)" using assms(1) by (auto simp: kfs_wf_def)
  then have "kfs_find sb (name_from sb (mem s) f) s = kfs_find sb path s"
    using i assms(1,2) name_at_text by (intro kfs_find_cong) (simp_all add: name_from_entry)
  then show ?thesis using assms(5) by (simp add: vfs_l_read_def kfs_read_def)
qed

lemma vfs_open_read_witness:
  "\<exists>(s :: (drive \<times> nat) storage) f. vfs_l_open 0x20000 (''notes'' @ [NUL]) s = Some f \<and>
     vfs_l_read pio 0x20000 f 0x60000 100 s = kfs_read pio 0x20000 (''notes'' @ [NUL]) 0x60000 s"
proof -
  obtain s :: "(drive \<times> nat) storage" where s: "kfs_wf 0x20000 (mem s)" "unat (file_count 0x20000 (mem s)) = 1"
    "kfs_dir 0x20000 (mem s) = [(''notes'', 1, 5)]"
    by (rule one_file) blast
  then have "file_name 0x20000 (mem s) 0 = ''notes''" by (simp add: kfs_dir_def)
  then have "kfs_find 0x20000 (''notes'' @ [NUL]) s = Some (Some (file_at 0x20000 0))"
    using kfs_find_eq [OF s(1), of "''notes'' @ [NUL]"] s(2) by simp
  then have "vfs_l_open 0x20000 (''notes'' @ [NUL]) s = Some (file_at 0x20000 0)"
    by (simp add: vfs_l_open_def strcmp_char)
  from this vfs_open_read [OF s(1) _ _ this, of pio "0x60000" 100] show ?thesis
    by (auto simp: file_at_def)
qed

text \<open>
  The terminal's handle: opening \<open>/dev/tty\<close> always succeeds, writing to it prints the bytes up
  to the first NUL, never more than 511 of them, and returns the number of bytes taken; the
  disk and memory are untouched.
\<close>

lemma vfs_tty_write:
  "vfs_l_open sb (''/dev/tty'' @ NUL # rest) s = Some 1
   \<and> (\<exists>text. vfs_l_write D sb 1 buf count s = Some (int (min 511 (unat count)), tty_out text s)
        \<and> length text \<le> 511 \<and> NUL \<notin> set text
        \<and> text = takeWhile (\<lambda>c. c \<noteq> NUL) (map char_of_byte (peek (mem s) buf (min 511 (unat count)))))"
proof -
  let ?l = "if count \<ge> 512 then 511 else count"
  have len: "unat ?l = min 511 (unat count)"
    by (auto simp: word_le_nat_alt)
  have "takeWhile (\<lambda>c. c \<noteq> NUL) (xs @ [NUL]) = takeWhile (\<lambda>c. c \<noteq> NUL) xs" for xs by (induction xs) auto
  then have "vfs_l_write D sb 1 buf count s = Some (int (unat ?l),
      tty_out (takeWhile (\<lambda>c. c \<noteq> NUL) (map char_of_byte (peek (mem s) buf (unat ?l)))) s)"
    by (simp add: vfs_l_write_def Let_def cstr_def)
  then show ?thesis unfolding len
    using length_takeWhile_le [of "\<lambda>c. c \<noteq> NUL" "map char_of_byte (peek (mem s) buf (min 511 (unat count)))"]
    by (auto simp: vfs_l_open_def dest: set_takeWhileD)
qed

end
