(* ===== verification/Uex.thy ===== *)
theory Uex
  imports Pio Pmm_Spec
begin

text \<open>
  \<open>kernel/exe/uex.c\<close> and \<open>kernel/lib/exec.c\<close>: loading and running a program file. The sector buffer
  on the stack is at the address \<open>secbuf\<close>, a parameter, since the disk driver writes to it. The
  program itself is not in the repository: running it is the parameter \<open>run\<close> (entry address and
  argument), \<open>None\<close> when it does not return.
\<close>

section \<open>The header\<close>

definition uexMagic :: u32 where "uexMagic = 0x31555845"

record uexHdr =
  hdr_magic :: u32
  hdr_entry :: u32
  hdr_loadAddr :: u32
  hdr_fileSize :: u32
  hdr_memSize :: u32
  hdr_flags :: u32

text \<open>\<open>memcpy(&hdr, secbuf, sizeof(hdr))\<close>: 24 bytes, packed.\<close>

definition read_hdr :: "memory \<Rightarrow> u32 \<Rightarrow> uexHdr" where
  "read_hdr m a = \<lparr>hdr_magic = ld32 m a, hdr_entry = ld32 m (a + 4), hdr_loadAddr = ld32 m (a + 8),
     hdr_fileSize = ld32 m (a + 12), hdr_memSize = ld32 m (a + 16), hdr_flags = ld32 m (a + 20)\<rparr>"

text \<open>\<open>struct uexAlloc\<close>: base and number of pages.\<close>

type_synonym uexAlloc = "u32 \<times> u32"

section \<open>The loader\<close>

text \<open>Where the image goes: at the address the header names, or on fresh pages.\<close>

definition uex_dest :: "uexHdr \<Rightarrow> 'a pmm_state_scheme \<Rightarrow> u32 \<times> uexAlloc \<times> 'a pmm_state_scheme" where
  "uex_dest hdr s =
     (let dest = hdr_loadAddr hdr;
          pages = (hdr_memSize hdr + 4095) div 4096
      in if dest = 0 then (let (dest, s) = pmm_alloc pages s in (dest, (dest, pages), s))
         else (dest, (0, 0), s))"

text \<open>The image's first part, out of the header's sector: the new value of \<open>copied\<close> and the memory.\<close>

definition uex_first :: "uexHdr \<Rightarrow> u32 \<Rightarrow> u32 \<Rightarrow> memory \<Rightarrow> u32 \<times> memory" where
  "uex_first hdr secbuf dest m =
     (let toCopy = hdr_fileSize hdr;
          firstChunk = 512 - 24
      in if firstChunk > 0 \<and> toCopy > 0
         then (let n = (if toCopy < firstChunk then toCopy else firstChunk) in (n, memcpy dest (secbuf + 24) n m))
         else (0, m))"

text \<open>The rest, whole sectors at a time.\<close>

definition uex_rest ::
    "'d port_dev \<Rightarrow> uexHdr \<Rightarrow> u32 \<Rightarrow> u32 \<Rightarrow> u32 \<Rightarrow> ('d, 'a) storage_scheme \<Rightarrow> (int \<times> ('d, 'a) storage_scheme) option" where
  "uex_rest D hdr f dest copied s =
     (if copied < hdr_fileSize hdr
      then (let remaining = hdr_fileSize hdr - copied;
                sectors = (remaining + 511) div 512
            in ata_read_sectors D (start_lba (mem s) f + 1) (ucast sectors) (dest + copied) s)
      else Some (0, s))"

text \<open>\<open>if (hdr.memSize > hdr.fileSize) memset(\<dots>)\<close>.\<close>

definition uex_pad :: "uexHdr \<Rightarrow> u32 \<Rightarrow> 'a kernel_scheme \<Rightarrow> 'a kernel_scheme" where
  "uex_pad hdr dest s =
     (if hdr_memSize hdr > hdr_fileSize hdr
      then s\<lparr>mem := memset (dest + hdr_fileSize hdr) 0 (hdr_memSize hdr - hdr_fileSize hdr) (mem s)\<rparr>
      else s)"

definition uex_entry :: "uexHdr \<Rightarrow> u32 \<Rightarrow> u32" where
  "uex_entry hdr dest = (if hdr_loadAddr hdr = 0 then dest + hdr_entry hdr else hdr_entry hdr)"

text \<open>The result: the code, and on success the entry point and the allocation record.\<close>

definition uexExec ::
    "'d port_dev \<Rightarrow> u32 \<Rightarrow> u32 \<Rightarrow> string \<Rightarrow> ('d, 'a) storage_scheme \<Rightarrow>
     (error_t \<times> u32 \<times> uexAlloc \<times> ('d, 'a) storage_scheme) option" where
  "uexExec D sb secbuf name s =
     do { p \<leftarrow> kfs_find sb name s;
          (case p of
             None \<Rightarrow> Some (ERR_NOT_FOUND, 0, (0, 0), s)
           | Some f \<Rightarrow>
               if file_size (mem s) f < 24 then Some (ERR_FORMAT, 0, (0, 0), s)
               else do { (r, s) \<leftarrow> ata_read_sectors D (start_lba (mem s) f) 1 secbuf s;
                 if r < 0 then Some (ERR_IO, 0, (0, 0), s)
                 else (let hdr = read_hdr (mem s) secbuf in
                   if hdr_magic hdr \<noteq> uexMagic then Some (ERR_FORMAT, 0, (0, 0), s)
                   else (let (dest, alloc, s) = uex_dest hdr s in
                     if dest = 0 then Some (ERR_OOM, 0, (0, 0), s)
                     else (let (copied, m) = uex_first hdr secbuf dest (mem s); s = s\<lparr>mem := m\<rparr> in
                       do { (r, s) \<leftarrow> uex_rest D hdr f dest copied s;
                            if r < 0 then Some (ERR_IO, 0, alloc, s)
                            else Some (ERR_SUCCESS, uex_entry hdr dest, alloc, uex_pad hdr dest s) }))) }) }"

text \<open>\<open>exec\<close> passes the program no argument, \<open>execv\<close> the pointer it was given.\<close>

definition run_program ::
    "'d port_dev \<Rightarrow> (u32 \<Rightarrow> u32 option \<Rightarrow> ('d, 'a) storage_scheme \<Rightarrow> ('d, 'a) storage_scheme option) \<Rightarrow> u32 option \<Rightarrow>
     u32 \<Rightarrow> u32 \<Rightarrow> string \<Rightarrow> ('d, 'a) storage_scheme \<Rightarrow> (error_t \<times> ('d, 'a) storage_scheme) option" where
  "run_program D run arg sb secbuf file s =
     do { (r, entry, alloc, s) \<leftarrow> uexExec D sb secbuf file s;
          if err_code r = 0
          then do { s \<leftarrow> run entry arg s;
                    Some (ERR_SUCCESS, if fst alloc \<noteq> 0 then pmm_free (fst alloc) (snd alloc) s else s) }
          else Some (ERR_FORMAT, s) }"

definition exec_file ::
    "'d port_dev \<Rightarrow> (u32 \<Rightarrow> u32 option \<Rightarrow> ('d, 'a) storage_scheme \<Rightarrow> ('d, 'a) storage_scheme option) \<Rightarrow>
     u32 \<Rightarrow> u32 \<Rightarrow> string \<Rightarrow> ('d, 'a) storage_scheme \<Rightarrow> (error_t \<times> ('d, 'a) storage_scheme) option" where
  "exec_file D run sb secbuf file s = run_program D run None sb secbuf file s"

definition execv ::
    "'d port_dev \<Rightarrow> (u32 \<Rightarrow> u32 option \<Rightarrow> ('d, 'a) storage_scheme \<Rightarrow> ('d, 'a) storage_scheme option) \<Rightarrow>
     u32 \<Rightarrow> u32 \<Rightarrow> string \<Rightarrow> u32 \<Rightarrow> ('d, 'a) storage_scheme \<Rightarrow> (error_t \<times> ('d, 'a) storage_scheme) option" where
  "execv D run sb secbuf file argv s = run_program D run (Some argv) sb secbuf file s"

section \<open>What the loader leaves in memory\<close>

lemma contents_add: "ata.contents view d l (a + b) = ata.contents view d l a @ ata.contents view d (l + a) b"
  by (induction b) (simp_all add: ata.contents_Suc ata.contents_def add.assoc)

lemma memcpy_poke:
  assumes "region d (unat n) \<inter> region s (unat n) = {}"
  shows "memcpy d s n m = poke d (peek m s (unat n)) m"
proof
  fix x
  show "memcpy d s n m x = poke d (peek m s (unat n)) m x"
  proof (cases "x \<in> region d (unat n)")
    case True
    then obtain k where k: "k < unat n" "x = d + of_nat k" by (auto simp: region_def)
    have "k < 2 ^ 32" "unat n \<le> 2 ^ 32" using less_trans [OF k(1) unat_u32_less(1)] by simp_all
    then have "poke d (peek m s (unat n)) m x = m (s + of_nat k)"
      using byte_poke [of 0 "peek m s (unat n)" k d m] k by simp
    then show ?thesis using memcpy_disjoint [OF assms k(1)] k(2) by simp
  qed (simp add: memcpy_outside poke_outside)
qed

lemma byte_memset:
  assumes "a + unat n \<le> 2 ^ 32" and "k < 2 ^ 32"
  shows "memset (p + of_nat a) 0 n m (p + of_nat k) = (if a \<le> k \<and> k < a + unat n then 0 else m (p + of_nat k))"
proof -
  have "memset (p + of_nat a) 0 n m x = poke (p + of_nat a) (replicate (unat n) 0) m x" for x
  proof (cases "x \<in> region (p + of_nat a) (unat n)")
    case True
    then obtain j where j: "j < unat n" "x = p + of_nat a + of_nat j" by (auto simp: region_def)
    have "j < 2 ^ 32" "unat n \<le> 2 ^ 32" using less_trans [OF j(1) unat_u32_less(1)] by simp_all
    then show ?thesis
      using byte_poke [of 0 "replicate (unat n) 0" j "p + of_nat a" m] memset_inside [OF j(1), of "p + of_nat a" 0 m] j by simp
  qed (simp add: memset_outside poke_outside)
  then show ?thesis using byte_poke [of a "replicate (unat n) 0" k p m] assms by auto
qed

text \<open>The allocator does not look at the disk.\<close>

lemma set_range_dev: "set_range b n (s\<lparr>dev := d\<rparr>) = (set_range b n s)\<lparr>dev := d\<rparr>"
  by (induction n) (simp_all add: BITMAP_SET_def bitmap_at_def)

lemma BITMAP_TEST_dev [simp]: "BITMAP_TEST (s\<lparr>dev := d\<rparr>) = BITMAP_TEST s"
  by (simp add: BITMAP_TEST_def bitmap_at_def fun_eq_iff)

lemma free_run_dev [simp]: "free_run (s\<lparr>dev := d\<rparr>) = free_run s"
  by (simp add: free_run_def fun_eq_iff)

lemma first_fit_dev [simp]: "first_fit (s\<lparr>dev := d\<rparr>) = first_fit s"
  by (simp add: first_fit_def fun_eq_iff)

lemma pmm_alloc_dev: "pmm_alloc n (s\<lparr>dev := d\<rparr>) = (fst (pmm_alloc n s), (snd (pmm_alloc n s))\<lparr>dev := d\<rparr>)"
  by (simp add: pmm_alloc_eq take_pages_def Let_def set_range_dev split: option.split)

lemma uex_dest_dev: "uex_dest hdr s = (dest, alloc, s2) \<Longrightarrow> uex_dest hdr (s\<lparr>dev := d\<rparr>) = (dest, alloc, s2\<lparr>dev := d\<rparr>)"
  by (auto simp: uex_dest_def Let_def pmm_alloc_dev split: prod.splits if_splits)

text \<open>
  \<open>image\<close> is the file after its header, in whole sectors; of it the loader writes the first
  \<open>uex_written\<close> bytes to the destination.
\<close>

definition uex_sectors :: "u32 \<Rightarrow> nat" where
  "uex_sectors F = (24 + unat F + 511) div 512"

definition uex_written :: "u32 \<Rightarrow> nat" where
  "uex_written F = (if unat F \<le> 488 then unat F else 512 * uex_sectors F - 24)"

lemma uex_sectors_rest:
  assumes "488 < unat F" and "uex_sectors F \<le> 256"
  shows "uex_sectors F = Suc (unat ((F - 488 + 511) div 512))" "0 < unat ((F - 488 + 511) div 512)"
proof -
  have "unat F \<le> 2 ^ 17" using assms(2) by (simp add: uex_sectors_def)
  moreover have "unat (F - 488) = unat F - 488"
    using assms(1) by (subst unat_sub) (simp_all add: word_le_nat_alt)
  moreover have "unat (F - 488 + 511) = unat (F - 488) + 511"
    using calculation assms(1) by (simp add: unat_word_ariths)
  ultimately have "unat ((F - 488 + 511) div 512) = (unat F + 23) div 512"
    using assms(1) by (simp add: unat_div)
  moreover have "24 + unat F + 511 = 512 + (unat F + 23)" by simp
  ultimately show "uex_sectors F = Suc (unat ((F - 488 + 511) div 512))" "0 < unat ((F - 488 + 511) div 512)"
    using assms(1) unfolding uex_sectors_def by (simp_all add: div_greater_zero_iff)
qed

lemma uex_sectors_pos: "0 < uex_sectors F"
  by (simp add: uex_sectors_def div_greater_zero_iff)

lemma uex_first_poke:
  assumes "peek m secbuf 512 = sec" and "region dest 488 \<inter> region secbuf 512 = {}"
  shows "uex_first hdr secbuf dest m = ((if unat (hdr_fileSize hdr) < 488 then hdr_fileSize hdr else 488),
    poke dest (take (unat (hdr_fileSize hdr)) (drop 24 sec)) m)"
proof -
  define c where "c = (if hdr_fileSize hdr < 488 then hdr_fileSize hdr else 488)"
  have c: "c = (if unat (hdr_fileSize hdr) < 488 then hdr_fileSize hdr else 488)" "unat c = min (unat (hdr_fileSize hdr)) 488"
    by (auto simp: c_def word_less_nat_alt)
  have "secbuf + 24 = secbuf + of_nat 24" by simp
  then have "region (secbuf + 24) (unat c) \<subseteq> region secbuf 512"
    using region_offset [of secbuf 24 "unat c"] region_mono [of "24 + unat c" 512 secbuf] c(2) by auto
  moreover have "region dest (unat c) \<subseteq> region dest 488" using c(2) by (intro region_mono) simp
  ultimately have copy: "memcpy dest (secbuf + 24) c m = poke dest (peek m (secbuf + 24) (unat c)) m"
    using assms(2) by (intro memcpy_poke) blast
  have bytes: "peek m (secbuf + 24) (unat c) = take (unat (hdr_fileSize hdr)) (drop 24 sec)"
  proof (rule nth_equalityI)
    show "length (peek m (secbuf + 24) (unat c)) = length (take (unat (hdr_fileSize hdr)) (drop 24 sec))"
      using c(2) assms(1) by auto
    fix j assume "j < length (peek m (secbuf + 24) (unat c))"
    then have "j < unat c" by simp
    then show "peek m (secbuf + 24) (unat c) ! j = take (unat (hdr_fileSize hdr)) (drop 24 sec) ! j"
      using c(2) assms(1) [symmetric] by (simp add: add.assoc)
  qed
  show ?thesis
  proof (cases "hdr_fileSize hdr = 0")
    case True
    then show ?thesis by (simp add: uex_first_def)
  next
    case False
    then have "hdr_fileSize hdr > 0" by (simp add: word_neq_0_conv)
    then have "uex_first hdr secbuf dest m = (c, memcpy dest (secbuf + 24) c m)"
      by (simp add: uex_first_def c_def Let_def)
    then show ?thesis by (simp only: copy bytes) (simp only: c(1))
  qed
qed

text \<open>The rest follows the first part, so together they are one run of the image.\<close>

lemma uex_rest_poke:
  fixes s :: "('d, 'a) storage_scheme"
  assumes "dev s = e" and "ata_ready D view lag cap e" and "l = unat (start_lba (mem s) f)" and "l + uex_sectors F \<le> cap" and "uex_sectors F \<le> 256"
    and "hdr_fileSize hdr = F" and "mem s = poke dest (take (unat F) (drop 24 (ata.contents view e l 1))) m"
  shows "\<exists>r d. uex_rest D hdr f dest (if unat F < 488 then F else 488) s = Some (r,
      s\<lparr>mem := poke dest (take (uex_written F) (drop 24 (ata.contents view e l (uex_sectors F)))) m, dev := d\<rparr>)
    \<and> 0 \<le> r \<and> ata_ready D view lag cap d"
proof (cases "488 < unat F")
  case False
  have "length (ata.contents view e l 1) = 512"
    using ata.length_contents [OF assms(2), of l 1] uex_sectors_pos [of F] assms(4) by simp
  have one: "uex_sectors F = 1" using False unfolding uex_sectors_def by simp
  have "uex_rest D hdr f dest (if unat F < 488 then F else 488) s = Some (0, s)"
    using False assms(6) by (auto simp: uex_rest_def word_less_nat_alt)
  then show ?thesis
    using assms(1,2,7) False unfolding one uex_written_def by (intro exI [of _ 0] exI [of _ e]) simp
next
  case True
  define n :: u8 where "n = ucast ((F - 488 + 511) div 512)"
  note rest = uex_sectors_rest [OF True assms(5)]
  have n: "unat n = unat ((F - 488 + 511) div 512)" "n \<noteq> 0"
    using rest assms(5) unat_ucast_u8 [of "(F - 488 + 511) div 512"] by (auto simp: n_def intro: u8_nonzero)
  have "cap \<le> 2 ^ 28" using assms(2) by (simp add: ata_ready_def)
  then have lba: "unat (start_lba (mem s) f + 1) = Suc l"
    using assms(3,4) uex_sectors_pos [of F] by (simp add: unat_word_ariths)
  obtain d where d: "ata_read_sectors D (start_lba (mem s) f + 1) n (dest + 488) s
      = Some (int (unat n), s\<lparr>mem := poke (dest + 488) (ata.contents view e (Suc l) (unat n)) (mem s), dev := d\<rparr>)" "ata_ready D view lag cap d"
    using ata.read [OF assms(1,2) n(2), of "start_lba (mem s) f + 1" "dest + 488"] lba rest(1) n(1) assms(4) by auto
  have len: "length (ata.contents view e l 1) = 512" "length (ata.contents view e l (uex_sectors F)) = 512 * uex_sectors F"
    using ata.length_contents [OF assms(2)] uex_sectors_pos [of F] assms(4) by simp_all
  have image: "ata.contents view e l (uex_sectors F) = ata.contents view e l 1 @ ata.contents view e (Suc l) (unat n)"
    using contents_add [of view e l 1 "unat n"] rest(1) n(1) by simp
  have "poke (dest + 488) (ata.contents view e (Suc l) (unat n)) (mem s)
      = poke dest (drop 24 (ata.contents view e l 1) @ ata.contents view e (Suc l) (unat n)) m"
    using len(1) True assms(7) by (simp add: poke_append)
  also have "drop 24 (ata.contents view e l 1) @ ata.contents view e (Suc l) (unat n) = take (uex_written F) (drop 24 (ata.contents view e l (uex_sectors F)))"
    using len True by (simp add: image uex_written_def)
  finally have "uex_rest D hdr f dest 488 s = Some (int (unat n),
      s\<lparr>mem := poke dest (take (uex_written F) (drop 24 (ata.contents view e l (uex_sectors F)))) m, dev := d\<rparr>)"
    using d(1) True assms(6) by (simp add: uex_rest_def Let_def n_def word_less_nat_alt)
  then show ?thesis using d(2) True by auto
qed

text \<open>Then the bytes from \<open>fileSize\<close> to \<open>memSize\<close> are cleared.\<close>

lemma uex_padded:
  assumes "mem s = poke dest (take (uex_written (hdr_fileSize hdr)) img) m" and "length img = 512 * uex_sectors (hdr_fileSize hdr) - 24"
    and "uex_sectors (hdr_fileSize hdr) \<le> 256"
  shows "peek (mem (uex_pad hdr dest s)) dest (unat (hdr_fileSize hdr)) = take (unat (hdr_fileSize hdr)) img"
    and "unat (hdr_fileSize hdr) \<le> i \<Longrightarrow> i < unat (hdr_memSize hdr) \<Longrightarrow> mem (uex_pad hdr dest s) (dest + of_nat i) = 0"
    and "max (unat (hdr_fileSize hdr)) (unat (hdr_memSize hdr)) \<le> i \<Longrightarrow> i < uex_written (hdr_fileSize hdr) \<Longrightarrow>
      mem (uex_pad hdr dest s) (dest + of_nat i) = img ! i"
proof -
  let ?F = "hdr_fileSize hdr" and ?M = "hdr_memSize hdr"
  have len: "unat ?F \<le> uex_written ?F" "uex_written ?F \<le> length img"
    using assms(2) uex_sectors_pos [of ?F] by (auto simp: uex_written_def uex_sectors_def)
  then have small: "uex_written ?F < 2 ^ 32" using assms(2,3) by simp
  have copied: "mem s (dest + of_nat i) = img ! i" if "i < uex_written ?F" for i
    using that len small byte_poke [of 0 "take (uex_written ?F) img" i dest m] by (simp add: assms(1))
  have padded: "mem (uex_pad hdr dest s) (dest + of_nat i) = (if unat ?F \<le> i \<and> i < unat ?M then 0 else mem s (dest + of_nat i))"
    if "i < 2 ^ 32" for i
  proof (cases "?M > ?F")
    case True
    then have "unat ?F + unat (?M - ?F) = unat ?M" by (simp add: unat_sub word_less_nat_alt word_le_nat_alt)
    then show ?thesis
      using True that byte_memset [of "unat ?F" "?M - ?F" i dest "mem s"] unat_u32_less(2) [of ?M] by (simp add: uex_pad_def)
  next
    case False
    then show ?thesis by (auto simp: uex_pad_def word_less_nat_alt)
  qed
  show "peek (mem (uex_pad hdr dest s)) dest (unat ?F) = take (unat ?F) img"
    using len copied padded small by (intro nth_equalityI) auto
  show "unat ?F \<le> i \<Longrightarrow> i < unat ?M \<Longrightarrow> mem (uex_pad hdr dest s) (dest + of_nat i) = 0"
    using padded less_trans [OF _ unat_u32_less(1) [of ?M]] by simp
  show "max (unat ?F) (unat ?M) \<le> i \<Longrightarrow> i < uex_written ?F \<Longrightarrow> mem (uex_pad hdr dest s) (dest + of_nat i) = img ! i"
    using copied padded small by auto
qed

text \<open>The directory entry survives what is written away from it, so the rest is read from the right sector.\<close>

lemma entry_kept:
  assumes "\<forall>x \<in> region f 40. m' x = m x"
  shows "start_lba m' f = start_lba m f"
proof -
  have "region (f + 32) 4 \<subseteq> region f 40"
    using region_offset [of f 32 4] region_mono [of "32 + 4" 40 f] by auto
  then show ?thesis using assms unfolding start_lba_def by (intro ld32_cong) blast
qed

section \<open>Properties\<close>

text \<open>
  C5: loading a program. For a file with a good header, when the disk works and the destination
  (fixed by the header or freshly allocated) stays clear of the sector buffer and the file's
  directory entry, \<open>uexExec\<close> succeeds; the first \<open>fileSize\<close> bytes at the destination are those
  after the header in the file, the bytes from there to \<open>memSize\<close> are zero, and the entry point
  is the header's, relative to a fresh allocation. The whole last sector is copied too: beyond
  both sizes, up to \<open>uex_written\<close>, memory holds the rest of that sector, allocated or not.
\<close>

theorem uex_loads_image:
  assumes "ata_ready D view lag cap (dev s)" and "kfs_find sb name s = Some (Some f)" and "24 \<le> unat (file_size (mem s) f)"
    and "l = unat (start_lba (mem s) f)" and "m1 = poke secbuf (ata.contents view (dev s) l 1) (mem s)"
    and "hdr = read_hdr m1 secbuf" and "hdr_magic hdr = uexMagic" and "F = hdr_fileSize hdr"
    and "uex_dest hdr (s\<lparr>mem := m1\<rparr>) = (dest, alloc, sd)" and "dest \<noteq> 0"
    and "\<forall>x \<in> region secbuf 512 \<union> region f 40. mem sd x = m1 x" and "region f 40 \<inter> region secbuf 512 = {}"
    and "region dest (512 * uex_sectors F - 24) \<inter> (region secbuf 512 \<union> region f 40) = {}"
    and "uex_sectors F \<le> 256" and "l + uex_sectors F \<le> cap"
    and "img = drop 24 (ata.contents view (dev s) l (uex_sectors F))"
  shows "\<exists>s'. uexExec D sb secbuf name s = Some (ERR_SUCCESS, uex_entry hdr dest, alloc, s')
    \<and> peek (mem s') dest (unat F) = take (unat F) img
    \<and> (\<forall>i. unat F \<le> i \<and> i < unat (hdr_memSize hdr) \<longrightarrow> mem s' (dest + of_nat i) = 0)
    \<and> (\<forall>i. max (unat F) (unat (hdr_memSize hdr)) \<le> i \<and> i < uex_written F \<longrightarrow> mem s' (dest + of_nat i) = img ! i)"
proof -
  have k: "0 < uex_sectors F" by (rule uex_sectors_pos)
  obtain d where d: "ata_read_sectors D (start_lba (mem s) f) 1 secbuf s = Some (1, s\<lparr>mem := m1, dev := d\<rparr>)"
    "ata_ready D view lag cap d" "\<forall>l n. ata.contents view d l n = ata.contents view (dev s) l n"
    using ata.read [OF refl assms(1), of 1 "start_lba (mem s) f" secbuf] assms(4,5,15) k by auto
  have dest: "uex_dest hdr (s\<lparr>mem := m1, dev := d\<rparr>) = (dest, alloc, sd\<lparr>dev := d\<rparr>)"
    using uex_dest_dev [OF assms(9), of d] by simp
  have "488 \<le> 512 * uex_sectors F - 24" using k by simp
  then have apart: "region dest 488 \<inter> region secbuf 512 = {}"
    using assms(13) region_mono [of 488 "512 * uex_sectors F - 24" dest] by blast
  have sec: "length (ata.contents view (dev s) l 1) = 512"
    using ata.length_contents [OF assms(1), of l 1] assms(15) k by simp
  have buf: "peek (mem sd) secbuf 512 = ata.contents view (dev s) l 1"
    using assms(11) peek_poke [of "ata.contents view (dev s) l 1" 512 secbuf "mem s"] sec
    unfolding assms(5) by (subst peek_cong [of secbuf 512 "mem sd" m1]) (auto simp: assms(5))
  note first = uex_first_poke [OF buf apart, of hdr, folded assms(8)]
  let ?m3 = "poke dest (take (unat F) (drop 24 (ata.contents view (dev s) l 1))) (mem sd)"
  let ?s3 = "sd\<lparr>dev := d, mem := ?m3\<rparr>"
  have "?m3 x = mem s x" if x: "x \<in> region f 40" for x
  proof -
    have "length (take (unat F) (drop 24 (ata.contents view (dev s) l 1))) \<le> 512 * uex_sectors F - 24"
      using sec k by simp
    then have "x \<notin> region dest (length (take (unat F) (drop 24 (ata.contents view (dev s) l 1))))"
      using assms(13) x region_mono by blast
    moreover have "x \<notin> region secbuf 512" using assms(12) x by blast
    ultimately show ?thesis using assms(11) x sec by (simp add: poke_outside assms(5))
  qed
  then have lba: "start_lba ?m3 f = start_lba (mem s) f" by (intro entry_kept) blast
  obtain r s4 where rest: "uex_rest D hdr f dest (if unat F < 488 then F else 488) ?s3 = Some (r, s4)" "0 \<le> r"
    "mem s4 = poke dest (take (uex_written F) img) (mem sd)"
  proof -
    have "dev ?s3 = d" "l = unat (start_lba (mem ?s3) f)"
      "mem ?s3 = poke dest (take (unat F) (drop 24 (ata.contents view d l 1))) (mem sd)"
      using lba assms(4) by (simp_all add: d(3) [rule_format])
    from uex_rest_poke [OF this(1) d(2) this(2) assms(15,14) assms(8) [symmetric] this(3)] that show thesis
      unfolding assms(16) by (auto simp: d(3) [rule_format])
  qed
  have long: "\<not> file_size (mem s) f < 24" using assms(3) by (simp add: word_less_nat_alt)
  have "uexExec D sb secbuf name s = Some (ERR_SUCCESS, uex_entry hdr dest, alloc, uex_pad hdr dest s4)"
    using long assms(2,10) d(1) assms(6) [symmetric] assms(7) dest first rest
    by (simp add: uexExec_def Let_def assms(8) [symmetric])
  moreover have "length img = 512 * uex_sectors F - 24"
    using ata.length_contents [OF assms(1), of l "uex_sectors F"] assms(15,16) by simp
  ultimately show ?thesis
    using uex_padded [of s4 dest hdr img "mem sd"] rest(3) assms(8,14) by (intro exI [of _ "uex_pad hdr dest s4"]) simp
qed

text \<open>A disk with a four-byte program on it, to be loaded at 0x40000 and padded to 16 bytes.\<close>

definition prog_sector :: "u8 list" where
  "prog_sector = [0x45, 0x58, 0x55, 0x31, 0, 0, 4, 0, 0, 0, 4, 0, 4, 0, 0, 0, 16, 0, 0, 0, 0, 0, 0, 0, 0xC3, 0x90, 0x90, 0x90]
     @ replicate 484 0"

definition prog_state :: "(drive \<times> nat) storage" where
  "prog_state = disk_state\<lparr>mem := poke 0x50000 prog_sector (mem disk_state)\<rparr>"

lemma prog_disk:
  obtains s :: "(drive \<times> nat) storage" where "ata_ready pio fst snd 1000 (dev s)" "kfs_find 0x20000 (''prog'' @ [NUL]) s = Some (Some (file_at 0x20000 0))"
    "start_lba (mem s) (file_at 0x20000 0) = 1" "file_size (mem s) (file_at 0x20000 0) = 28"
    "ata.contents fst (dev s) 1 1 = prog_sector"
proof -
  have len: "length prog_sector = 512" by (simp add: prog_sector_def)
  have disjoint: "region 0x50000 512 \<inter> region 0x20000 328 = {}"
    using regions_disjoint [of "0x20000" 328 "0x50000" 512] by (simp add: Int_commute)
  then have "x \<notin> region 0x50000 (length prog_sector)" if "x \<in> region 0x20000 328" for x
    using that len by auto
  then have "same_bytes 0x20000 {..<328} (mem prog_state) (mem disk_state)"
    using region_memberI [of _ 328 "0x20000"] by (simp add: same_bytes_def prog_state_def poke_outside)
  note cong = kfs_wf_cong [OF this]
  have count: "unat (file_count 0x20000 (mem prog_state)) = 0"
    by (simp only: cong(2) empty_disk) simp
  have wf: "kfs_wf 0x20000 (mem prog_state)" "kfs_dir 0x20000 (mem prog_state) = []"
    using cong(3,4) empty_disk(3,4) [of "(blank_disk, 5 :: nat)"] by metis+
  have lba: "next_lba 0x20000 (mem prog_state) 0 = 1" by (simp add: next_lba_def)
  have ready: "ata_ready pio fst snd 1000 (dev prog_state)" using disk_ready by (simp add: prog_state_def)
  have secs: "sectors_of 28 = 1" by (simp add: sectors_of_def)
  obtain m where m: "kfs_entry 0x20000 (''prog'' @ [NUL]) 28 (mem prog_state) = Some (1, m)" "kfs_wf 0x20000 m"
    "kfs_dir 0x20000 m = [] @ [(''prog'', 1, 28)]" "\<forall>a. a \<notin> region 0x20000 328 \<longrightarrow> m a = mem prog_state a"
    by (rule kfs_entry_wf [OF wf(1), of "''prog'' @ [NUL]" 28, unfolded count lba wf(2)]) simp_all
  obtain d where d: "ata_ready pio fst snd 1000 d" "ata.contents fst d 1 1 = peek m 0x50000 512"
    by (rule kfs_write_ready [OF ready wf(1) _ _ _ refl _ _ refl, where name = "''prog'' @ [NUL]" and sz = 28 and data = "0x50000",
          unfolded count lba m(1)]) (simp_all add: secs)
  have "peek m 0x50000 512 = peek (mem prog_state) 0x50000 512"
    using m(4) disjoint by (intro peek_cong) blast
  also have "\<dots> = prog_sector" using len by (simp add: prog_state_def peek_poke)
  finally have sector: "ata.contents fst d 1 1 = prog_sector" using d(2) by simp
  let ?s = "prog_state\<lparr>mem := m, dev := d\<rparr>"
  have one: "unat (file_count 0x20000 m) = 1" using arg_cong [OF m(3), of length] by (simp add: kfs_dir_def)
  then have entry: "start_lba m (file_at 0x20000 0) = 1" "file_size m (file_at 0x20000 0) = 28" "file_name 0x20000 m 0 = ''prog''"
    using m(3) by (simp_all add: kfs_dir_def)
  have "kfs_find 0x20000 (''prog'' @ [NUL]) ?s = Some (Some (file_at 0x20000 0))"
    using kfs_find_eq [of "0x20000" ?s "''prog'' @ [NUL]"] m(2) entry(3) one by simp
  with that [of ?s] d(1) entry sector show thesis by simp
qed

lemma read_hdr_poke:
  assumes "length bs = 512" and "m = poke a bs m0"
  shows "read_hdr m a = \<lparr>hdr_magic = le32 (bs ! 0) (bs ! 1) (bs ! 2) (bs ! 3), hdr_entry = le32 (bs ! 4) (bs ! 5) (bs ! 6) (bs ! 7),
    hdr_loadAddr = le32 (bs ! 8) (bs ! 9) (bs ! 10) (bs ! 11), hdr_fileSize = le32 (bs ! 12) (bs ! 13) (bs ! 14) (bs ! 15),
    hdr_memSize = le32 (bs ! 16) (bs ! 17) (bs ! 18) (bs ! 19), hdr_flags = le32 (bs ! 20) (bs ! 21) (bs ! 22) (bs ! 23)\<rparr>"
proof -
  have byte: "m (a + of_nat k) = bs ! k" if "k < 512" for k
    using assms that byte_poke [of 0 bs k a m0] by simp
  have "ld32 m (a + of_nat k) = le32 (bs ! k) (bs ! (k + 1)) (bs ! (k + 2)) (bs ! (k + 3))" if "k < 500" for k
    using that byte [of k] byte [of "k + 1"] byte [of "k + 2"] byte [of "k + 3"] unfolding ld32_bytes by simp
  from this [of 0] this [of 4] this [of 8] this [of 12] this [of 16] this [of 20] show ?thesis
    by (simp add: read_hdr_def numeral_2_eq_2)
qed

lemma uex_loads_image_witness:
  "\<exists>(s :: (drive \<times> nat) storage) s'. uexExec pio 0x20000 0x70000 (''prog'' @ [NUL]) s = Some (ERR_SUCCESS, 0x40000, (0, 0), s')
     \<and> peek (mem s') 0x40000 4 = [0xC3, 0x90, 0x90, 0x90] \<and> mem s' 0x4000F = 0"
proof -
  obtain s :: "(drive \<times> nat) storage" where s: "ata_ready pio fst snd 1000 (dev s)"
    "kfs_find 0x20000 (''prog'' @ [NUL]) s = Some (Some (file_at 0x20000 0))"
    "start_lba (mem s) (file_at 0x20000 0) = 1" "file_size (mem s) (file_at 0x20000 0) = 28"
    "ata.contents fst (dev s) 1 1 = prog_sector"
    by (rule prog_disk) blast
  define m1 where "m1 = poke 0x70000 prog_sector (mem s)"
  define hdr where "hdr = read_hdr m1 0x70000"
  have hdr: "hdr_magic hdr = uexMagic" "hdr_fileSize hdr = 4" "hdr_memSize hdr = 16" "hdr_loadAddr hdr = 0x40000" "hdr_entry hdr = 0x40000"
    unfolding hdr_def read_hdr_poke [OF _ m1_def, simplified prog_sector_def, simplified]
    by (simp_all add: prog_sector_def le32_def uexMagic_def)
  have regions: "region (file_at 0x20000 0) 40 \<inter> region 0x70000 512 = {}" "region 0x40000 488 \<inter> region 0x70000 512 = {}"
    "region (file_at 0x20000 0) 40 \<inter> region 0x40000 488 = {}"
    by (rule regions_disjoint; simp add: file_at_def)+
  have k: "uex_sectors 4 = 1" by (simp add: uex_sectors_def)
  have "\<exists>s'. uexExec pio 0x20000 0x70000 (''prog'' @ [NUL]) s = Some (ERR_SUCCESS, uex_entry hdr 0x40000, (0, 0), s')
    \<and> peek (mem s') 0x40000 (unat (4 :: u32)) = take (unat (4 :: u32)) (drop 24 prog_sector)
    \<and> (\<forall>i. unat (4 :: u32) \<le> i \<and> i < unat (hdr_memSize hdr) \<longrightarrow> mem s' (0x40000 + of_nat i) = 0)
    \<and> (\<forall>i. max (unat (4 :: u32)) (unat (hdr_memSize hdr)) \<le> i \<and> i < uex_written 4 \<longrightarrow> mem s' (0x40000 + of_nat i) = drop 24 prog_sector ! i)"
    by (rule uex_loads_image [OF s(1,2) _ refl _ hdr_def hdr(1) hdr(2) [symmetric], where sd = "s\<lparr>mem := m1\<rparr>"])
      (use s regions hdr in \<open>auto simp: k m1_def [symmetric] uex_dest_def\<close>)
  then obtain s' where s': "uexExec pio 0x20000 0x70000 (''prog'' @ [NUL]) s = Some (ERR_SUCCESS, uex_entry hdr 0x40000, (0, 0), s')"
    "peek (mem s') 0x40000 4 = take 4 (drop 24 prog_sector)"
    "\<forall>i. 4 \<le> i \<and> i < 16 \<longrightarrow> mem s' (0x40000 + of_nat i) = 0"
    using hdr(3) by auto
  from s'(3) [rule_format, of 15] have "mem s' 0x4000F = 0" by simp
  with s' show ?thesis using hdr(4,5) by (auto simp: uex_entry_def prog_sector_def)
qed

end
