(* ===== verification/Logo.thy ===== *)
theory Logo
  imports Uex
begin

text \<open>
  The picture loader of \<open>kernel/drivers/fb.c\<close> (\<open>kfsExtension0\<close> and \<open>fblogo\<close>): reading a byte range
  of a file and copying a 24-bit bitmap file to the frame buffer. The addresses of the local
  buffers on the stack are parameters (\<open>temp\<close>, \<open>fh\<close>, \<open>ih\<close>), since the disk driver writes to
  them; the frame buffer's description is the record \<open>fb_info\<close>.
\<close>

record fb_info =
  info_addr :: u32
  info_width :: u32
  info_height :: u32
  info_pitch :: u32
  info_bpp :: u8

section \<open>Reading a byte range of a file\<close>

text \<open>The loop \<open>while (remaining)\<close>; \<open>-1\<close> when a read fails.\<close>

partial_function (option) ext_loop ::
    "'d port_dev \<Rightarrow> u32 \<Rightarrow> u32 \<Rightarrow> u32 \<Rightarrow> u32 \<Rightarrow> u32 \<Rightarrow> ('d, 'a) storage_scheme \<Rightarrow> (int \<times> ('d, 'a) storage_scheme) option" where
  "ext_loop D temp sector sector_offset remaining p s =
     (if remaining = 0 then Some (0, s)
      else case ata_read_sectors D sector 1 temp s of
             None \<Rightarrow> None
           | Some x \<Rightarrow>
               if fst x < 0 then Some (- 1, snd x)
               else (let copy_len = 512 - sector_offset;
                         copy_len = (if copy_len > remaining then remaining else copy_len);
                         m = memcpy p (temp + sector_offset) copy_len (mem (snd x))
                     in ext_loop D temp (sector + 1) 0 (remaining - copy_len) (p + copy_len) ((snd x)\<lparr>mem := m\<rparr>)))"

definition kfsExtension0 ::
    "'d port_dev \<Rightarrow> u32 \<Rightarrow> u32 \<Rightarrow> u32 \<Rightarrow> u32 \<Rightarrow> u32 \<Rightarrow> ('d, 'a) storage_scheme \<Rightarrow> (int \<times> ('d, 'a) storage_scheme) option" where
  "kfsExtension0 D temp f offset buf sz s =
     (let fsize = file_size (mem s) f in
      if offset \<ge> fsize then Some (0, s)
      else (let sz = (if offset + sz > fsize then fsize - offset else sz)
            in ext_loop D temp (start_lba (mem s) f + offset div 512) (offset mod 512) sz buf s))"

section \<open>Drawing a bitmap file\<close>

text \<open>The inner loop: three bytes per pixel, in order.\<close>

definition copy_row :: "u32 \<Rightarrow> u32 \<Rightarrow> nat \<Rightarrow> memory \<Rightarrow> memory" where
  "copy_row d src limit m = fold (\<lambda>i m. m(d + of_nat i := m (src + of_nat i))) [0..<3 * limit] m"

text \<open>The rows, the last of the file at the top; \<open>w\<close>, \<open>h\<close>, \<open>max_w\<close> and \<open>max_h\<close> are signed.\<close>

definition draw_rows :: "fb_info \<Rightarrow> u32 \<Rightarrow> u32 \<Rightarrow> u32 \<Rightarrow> u32 \<Rightarrow> u32 \<Rightarrow> u32 \<Rightarrow> memory \<Rightarrow> memory" where
  "draw_rows fb img_buf row_size w h start_x start_y m =
     (let dst = info_addr fb + start_y * info_pitch fb + start_x * 3;
          max_w = info_width fb - start_x;
          max_h = info_height fb - start_y;
          limit = (if sint w < sint max_w then sint w else sint max_w)
      in fold (\<lambda>y. copy_row (dst + of_nat y * info_pitch fb) (img_buf + (h - 1 - of_nat y) * row_size) (nat limit))
           [0..<nat (min (sint h) (sint max_h))] m)"

definition fblogo ::
    "'d port_dev \<Rightarrow> fb_info \<Rightarrow> u32 \<Rightarrow> u32 \<Rightarrow> u32 \<Rightarrow> u32 \<Rightarrow> string \<Rightarrow> u32 \<Rightarrow> u32 \<Rightarrow> ('d, 'a) storage_scheme \<Rightarrow>
     (int \<times> ('d, 'a) storage_scheme) option" where
  "fblogo D fb sb temp fh ih filename start_x start_y s =
     do { p \<leftarrow> kfs_find sb filename s;
          (case p of
             None \<Rightarrow> Some (- 1, s)
           | Some f \<Rightarrow>
               do { (r, s) \<leftarrow> kfsExtension0 D temp f 0 fh 14 s;
                 if r < 0 then Some (- 2, s)
                 else do { (r, s) \<leftarrow> kfsExtension0 D temp f 14 ih 40 s;
                   if r < 0 then Some (- 2, s)
                   else if ld16 (mem s) fh \<noteq> 0x4D42 then Some (- 3, s)
                   else if ld16 (mem s) (ih + 14) \<noteq> 24 \<or> ld32 (mem s) (ih + 16) \<noteq> 0 then Some (- 4, s)
                   else (let w = ld32 (mem s) (ih + 4);
                             h = ld32 (mem s) (ih + 8);
                             row_size = (w * 3 + 3) AND NOT 3;
                             img_size = row_size * h;
                             pages = (img_size + 4095) div 4096;
                             (img_buf, s) = pmm_alloc pages s
                         in if img_buf = 0 then Some (- 6, s)
                            else do { (r, s) \<leftarrow> kfsExtension0 D temp f (ld32 (mem s) (fh + 10)) img_buf img_size s;
                                      if r < 0 then Some (- 5, pmm_free img_buf pages s)
                                      else (let s = s\<lparr>mem := draw_rows fb img_buf row_size w h start_x start_y (mem s)\<rparr>
                                            in Some (0, pmm_free img_buf pages s)) }) } }) }"

section \<open>A byte range is a slice of the sectors\<close>

lemma region_split: "i + j \<le> 2 ^ 32 \<Longrightarrow> region p i \<inter> region (p + of_nat i) j = {}"
proof (rule ccontr)
  assume le: "i + j \<le> 2 ^ 32" and "region p i \<inter> region (p + of_nat i) j \<noteq> {}"
  then obtain a b where ab: "a < i" "b < j" "p + of_nat a = p + of_nat (i + b)"
    by (auto simp: region_def add.assoc)
  moreover have "a < 2 ^ 32" "i + b < 2 ^ 32" using ab(1,2) le by linarith+
  ultimately have "a = i + b" using offset_eq_iff [of a "i + b" p] by blast
  then show False using ab(1) by simp
qed

lemma take_drop_split:
  "length A = n \<Longrightarrow> k \<le> n \<Longrightarrow> take r (drop k (A @ B)) = take (min r (n - k)) (drop k A) @ take (r - min r (n - k)) B"
  by (auto simp: min_def)

text \<open>The chunk of one turn: its size, what is left, and the two parts of the buffer.\<close>

lemma ext_chunk:
  fixes so rem c :: u32
  assumes "unat so < 512" and "c = (if 512 - so > rem then rem else 512 - so)"
  shows "unat c = min (unat rem) (512 - unat so)" and "unat (rem - c) = unat rem - unat c" and "unat c + unat (rem - c) = unat rem"
    and "unat so + unat rem \<le> 512 * Suc k \<Longrightarrow> unat (rem - c) \<le> 512 * k"
proof -
  have "unat (512 - so) = 512 - unat so"
    using assms(1) by (subst unat_sub) (simp_all add: word_le_nat_alt)
  then show c: "unat c = min (unat rem) (512 - unat so)" by (auto simp: assms(2) word_less_nat_alt)
  then show left: "unat (rem - c) = unat rem - unat c" and "unat c + unat (rem - c) = unat rem"
    by (simp_all add: unat_sub word_le_nat_alt)
  show "unat (rem - c) \<le> 512 * k" if "unat so + unat rem \<le> 512 * Suc k"
  proof (cases "unat rem \<le> 512 - unat so")
    case False
    then have "unat c = 512 - unat so" using c by simp
    then show ?thesis using left that by simp
  qed (use c left in simp)
qed

lemma buffer_parts:
  fixes c r n p :: u32
  assumes "unat c + unat r = unat n"
  shows "region p (unat c) \<subseteq> region p (unat n)" and "region (p + c) (unat r) \<subseteq> region p (unat n)"
    and "region p (unat c) \<inter> region (p + c) (unat r) = {}"
proof -
  show "region p (unat c) \<subseteq> region p (unat n)" by (rule region_mono) (use assms in simp)
  show "region (p + c) (unat r) \<subseteq> region p (unat n)"
    using region_offset [of p "unat c" "unat r"] assms by simp
  have "unat c + unat r \<le> 2 ^ 32" using assms by simp
  from region_split [OF this, of p] show "region p (unat c) \<inter> region (p + c) (unat r) = {}" by simp
qed

text \<open>One sector: \<open>c\<close> bytes of it go to \<open>p\<close>.\<close>

lemma ext_loop_step:
  assumes "ata_ready D view lag cap e" and "dev s = e" and "unat so < 512" and "0 < unat rem" and "unat sector + 1 \<le> cap"
    and "c = (if 512 - so > rem then rem else 512 - so)" and "region p (unat c) \<inter> region temp 512 = {}"
  obtains m d where "ext_loop D temp sector so rem p s = ext_loop D temp (sector + 1) 0 (rem - c) (p + c) (s\<lparr>dev := d, mem := m\<rparr>)"
    "peek m p (unat c) = take (unat c) (drop (unat so) (ata.contents view e (unat sector) 1))"
    "\<forall>a. a \<notin> region p (unat c) \<union> region temp 512 \<longrightarrow> m a = mem s a"
    "ata_ready D view lag cap d" "\<forall>l n. ata.contents view d l n = ata.contents view e l n"
proof -
  have "unat c = min (unat rem) (512 - unat so)" by (rule ext_chunk [OF assms(3,6)])
  then have fits: "unat so + unat c \<le> 512" using assms(3) by linarith
  define m1 where "m1 = poke temp (ata.contents view e (unat sector) 1) (mem s)"
  obtain d where d: "ata_read_sectors D sector 1 temp s = Some (1, s\<lparr>mem := m1, dev := d\<rparr>)" "ata_ready D view lag cap d"
    "\<forall>l n. ata.contents view d l n = ata.contents view e l n"
    using ata.read [OF assms(2,1), of 1 sector temp] assms(5) by (auto simp: m1_def)
  have len: "length (ata.contents view e (unat sector) 1) = 512"
    using ata.length_contents [OF assms(1), of "unat sector" 1] assms(5) by simp
  define m2 where "m2 = memcpy p (temp + so) c m1"
  have "region (temp + so) (unat c) \<subseteq> region temp 512"
    using region_offset [of temp "unat so" "unat c"] region_mono [OF fits, of temp] by simp
  then have "region p (unat c) \<inter> region (temp + so) (unat c) = {}" using assms(7) by blast
  then have m2: "m2 = poke p (peek m1 (temp + so) (unat c)) m1" unfolding m2_def by (rule memcpy_poke)
  show thesis
  proof (rule that [of m2 d])
    show "ext_loop D temp sector so rem p s = ext_loop D temp (sector + 1) 0 (rem - c) (p + c) (s\<lparr>dev := d, mem := m2\<rparr>)"
      using d(1) assms(4) by (subst ext_loop.simps) (auto simp: Let_def assms(6) m2_def)
    have "peek m1 (temp + of_nat (unat so)) (unat c) = take (unat c) (drop (unat so) (ata.contents view e (unat sector) 1))"
      unfolding m1_def using len fits by (intro peek_nested) simp_all
    moreover have "peek m2 p (unat c) = peek m1 (temp + so) (unat c)" unfolding m2 by (rule peek_poke) simp_all
    ultimately show "peek m2 p (unat c) = take (unat c) (drop (unat so) (ata.contents view e (unat sector) 1))" by simp
    show "\<forall>a. a \<notin> region p (unat c) \<union> region temp 512 \<longrightarrow> m2 a = mem s a"
      using len unfolding m2 m1_def by (simp add: poke_outside del: One_nat_def)
  qed (fact d)+
qed

lemma ext_loop_reads:
  assumes "ata_ready D view lag cap e" and "dev s = e" and "unat so + unat rem \<le> 512 * k" and "unat so < 512"
    and "unat sector + k \<le> cap" and "region p (unat rem) \<inter> region temp 512 = {}"
  shows "\<exists>s'. ext_loop D temp sector so rem p s = Some (0, s')
    \<and> peek (mem s') p (unat rem) = take (unat rem) (drop (unat so) (ata.contents view e (unat sector) k))
    \<and> (\<forall>a. a \<notin> region p (unat rem) \<union> region temp 512 \<longrightarrow> mem s' a = mem s a) \<and> ata_ready D view lag cap (dev s')
    \<and> (\<forall>l n. ata.contents view (dev s') l n = ata.contents view e l n)"
  using assms
proof (induction k arbitrary: sector so rem p s e)
  case 0
  then have "rem = 0" by (simp add: unat_eq_0)
  then show ?case using 0 by (subst ext_loop.simps) (simp add: peek_def)
next
  case (Suc k)
  define c where "c = (if 512 - so > rem then rem else 512 - so)"
  show ?case
  proof (cases "rem = 0")
    case True
    then show ?thesis using Suc.prems by (subst ext_loop.simps) (simp add: peek_def)
  next
    case False
    note c = ext_chunk(1) [OF Suc.prems(4) c_def] and rest = ext_chunk(2,3) [OF Suc.prems(4) c_def]
    note parts = buffer_parts [OF rest(2), of p]
    have apart: "region p (unat c) \<inter> region temp 512 = {}" "region (p + c) (unat (rem - c)) \<inter> region temp 512 = {}"
      using parts(1,2) Suc.prems(6) by blast+
    have "cap \<le> 2 ^ 28" using Suc.prems(1) by (simp add: ata_ready_def)
    then have next_sector: "unat (sector + 1) = Suc (unat sector)" using Suc.prems(5) by (simp add: unat_word_ariths)
    have "unat sector + 1 \<le> cap" "0 < unat rem" using Suc.prems(5) False by (simp_all add: unat_gt_0)
    from ext_loop_step [OF Suc.prems(1,2,4) this(2,1) c_def apart(1)] obtain m d where
      step: "ext_loop D temp sector so rem p s = ext_loop D temp (sector + 1) 0 (rem - c) (p + c) (s\<lparr>dev := d, mem := m\<rparr>)"
        "peek m p (unat c) = take (unat c) (drop (unat so) (ata.contents view e (unat sector) 1))"
        "\<forall>a. a \<notin> region p (unat c) \<union> region temp 512 \<longrightarrow> m a = mem s a"
        "ata_ready D view lag cap d" "\<forall>l n. ata.contents view d l n = ata.contents view e l n" .
    have short: "unat (rem - c) \<le> 512 * k" by (rule ext_chunk(4) [OF Suc.prems(4) c_def Suc.prems(3)])
    obtain s' where s': "ext_loop D temp (sector + 1) 0 (rem - c) (p + c) (s\<lparr>dev := d, mem := m\<rparr>) = Some (0, s')"
      "peek (mem s') (p + c) (unat (rem - c)) = take (unat (rem - c)) (ata.contents view e (Suc (unat sector)) k)"
      "\<forall>a. a \<notin> region (p + c) (unat (rem - c)) \<union> region temp 512 \<longrightarrow> mem s' a = m a" "ata_ready D view lag cap (dev s')"
      "\<forall>l n. ata.contents view (dev s') l n = ata.contents view e l n"
      using Suc.IH [OF step(4) _ _ _ _ apart(2), of "s\<lparr>dev := d, mem := m\<rparr>" 0 "sector + 1"] Suc.prems(5) short next_sector step(5)
      by auto
    have len: "length (ata.contents view e (unat sector) 1) = 512"
      using ata.length_contents [OF Suc.prems(1), of "unat sector" 1] Suc.prems(5) by simp
    have "peek (mem s') p (unat c) = peek m p (unat c)"
      using s'(3) apart(1) parts(3) by (intro peek_cong) blast
    then have "peek (mem s') p (unat rem) = take (unat c) (drop (unat so) (ata.contents view e (unat sector) 1))
        @ take (unat (rem - c)) (ata.contents view e (Suc (unat sector)) k)"
      using peek_append [of "mem s'" p "unat c" "unat (rem - c)"] s'(2) step(2) rest(2) by simp
    also have "\<dots> = take (unat rem) (drop (unat so) (ata.contents view e (unat sector) 1 @ ata.contents view e (Suc (unat sector)) k))"
      unfolding rest(1) c by (rule take_drop_split [OF len, symmetric]) (use Suc.prems(4) in simp)
    also have "ata.contents view e (unat sector) 1 @ ata.contents view e (Suc (unat sector)) k = ata.contents view e (unat sector) (Suc k)"
      using contents_add [of view e "unat sector" 1 k] by (simp only: plus_1_eq_Suc Suc_eq_plus1 add.commute [of 1])
    finally have "peek (mem s') p (unat rem) = take (unat rem) (drop (unat so) (ata.contents view e (unat sector) (Suc k)))" .
    moreover have "\<forall>a. a \<notin> region p (unat rem) \<union> region temp 512 \<longrightarrow> mem s' a = mem s a"
    proof (intro allI impI)
      fix a assume "a \<notin> region p (unat rem) \<union> region temp 512"
      then have "a \<notin> region p (unat c) \<union> region temp 512" "a \<notin> region (p + c) (unat (rem - c)) \<union> region temp 512"
        using parts(1,2) by blast+
      then show "mem s' a = mem s a" using s'(3) step(3) by simp
    qed
    ultimately show ?thesis using step(1) s'(1,4,5) by simp
  qed
qed

section \<open>Property\<close>

text \<open>
  C26: reading a byte range of a file. On a working drive \<open>kfsExtension0\<close> returns 0 (its loop
  ends), and the buffer holds exactly the bytes of the file from \<open>offset\<close> on: \<open>sz\<close> of them, or
  as many as the file has left; memory elsewhere (but for the sector buffer) and the disk are
  unchanged.
\<close>

theorem kfsExtension0_reads:
  assumes "ata_ready D view lag cap (dev s)" and "unat (file_size (mem s) f) < 2 ^ 31" and "unat sz < 2 ^ 31" and "0 < unat sz"
    and "unat offset < unat (file_size (mem s) f)" and "l = unat (start_lba (mem s) f)"
    and "l + unat (sectors_of (file_size (mem s) f)) \<le> cap"
    and "n = min (unat sz) (unat (file_size (mem s) f) - unat offset)" and "region buf n \<inter> region temp 512 = {}"
  shows "\<exists>s'. kfsExtension0 D temp f offset buf sz s = Some (0, s')
    \<and> peek (mem s') buf n = take n (drop (unat offset) (ata.contents view (dev s) l (unat (sectors_of (file_size (mem s) f)))))
    \<and> {a. mem s' a \<noteq> mem s a} \<subseteq> region buf n \<union> region temp 512
    \<and> (\<forall>l n. ata.contents view (dev s') l n = ata.contents view (dev s) l n)"
proof -
  let ?F = "file_size (mem s) f"
  define rem where "rem = (if offset + sz > ?F then ?F - offset else sz)"
  have sum: "unat (offset + sz) = unat offset + unat sz"
    using assms(2,3,5) by (simp add: unat_word_ariths)
  have "unat (?F - offset) = unat ?F - unat offset"
    using assms(5) by (subst unat_sub) (simp_all add: word_le_nat_alt)
  then have rem: "unat rem = n" using sum by (auto simp: rem_def word_less_nat_alt assms(8))
  have n: "0 < n" "unat offset + n \<le> unat ?F" using assms(4,5,8) by auto
  have secs: "unat (sectors_of ?F) = (unat ?F + 511) div 512"
    using assms(2) by (simp add: sectors_of_def unat_div unat_word_ariths)
  define q where "q = unat offset div 512"
  define k where "k = unat (sectors_of ?F) - q"
  have q: "unat (offset div 512) = q" "unat (offset mod 512) = unat offset mod 512" by (simp_all add: q_def unat_div unat_mod)
  have bound: "unat ?F \<le> 512 * unat (sectors_of ?F)" unfolding secs by simp
  have "512 * q \<le> unat offset" by (simp add: q_def)
  then have "512 * q < 512 * unat (sectors_of ?F)" using bound assms(5) by linarith
  then have qk: "q < unat (sectors_of ?F)" "unat (sectors_of ?F) = q + k" by (simp_all add: k_def)
  have cap: "cap \<le> 2 ^ 28" using assms(1) by (simp add: ata_ready_def)
  have sector: "unat (start_lba (mem s) f + offset div 512) = l + q"
    using cap assms(6,7) q(1) qk by (simp add: unat_word_ariths)
  have off: "unat offset = 512 * q + unat offset mod 512" by (simp add: q_def)
  have "\<exists>s'. ext_loop D temp (start_lba (mem s) f + offset div 512) (offset mod 512) rem buf s = Some (0, s')
    \<and> peek (mem s') buf (unat rem) = take (unat rem) (drop (unat (offset mod 512)) (ata.contents view (dev s) (unat (start_lba (mem s) f + offset div 512)) k))
    \<and> (\<forall>a. a \<notin> region buf (unat rem) \<union> region temp 512 \<longrightarrow> mem s' a = mem s a) \<and> ata_ready D view lag cap (dev s')
    \<and> (\<forall>l n. ata.contents view (dev s') l n = ata.contents view (dev s) l n)"
  proof (rule ext_loop_reads [OF assms(1) refl])
    show "unat (offset mod 512) + unat rem \<le> 512 * k"
      using n(2) bound qk(2) off unfolding rem q(2) by (simp add: distrib_left)
    show "unat (start_lba (mem s) f + offset div 512) + k \<le> cap" using sector qk(2) assms(7) by simp
  qed (use rem assms(9) q(2) in simp_all)
  then obtain s' where s': "ext_loop D temp (start_lba (mem s) f + offset div 512) (offset mod 512) rem buf s = Some (0, s')"
    "peek (mem s') buf n = take n (drop (unat offset mod 512) (ata.contents view (dev s) (l + q) k))"
    "\<forall>a. a \<notin> region buf n \<union> region temp 512 \<longrightarrow> mem s' a = mem s a"
    "\<forall>l n. ata.contents view (dev s') l n = ata.contents view (dev s) l n"
    unfolding rem sector q(2) by blast
  have "length (ata.contents view (dev s) l q) = 512 * q"
    using ata.length_contents [OF assms(1), of l q] qk assms(7) by simp
  then have "drop (unat offset) (ata.contents view (dev s) l (q + k)) = drop (unat offset mod 512) (ata.contents view (dev s) (l + q) k)"
    unfolding contents_add by (subst off) simp
  moreover have "kfsExtension0 D temp f offset buf sz s = Some (0, s')"
    using s'(1) assms(5) by (simp add: kfsExtension0_def Let_def rem_def word_le_nat_alt)
  moreover have "{a. mem s' a \<noteq> mem s a} \<subseteq> region buf n \<union> region temp 512" using s'(3) by blast
  ultimately show ?thesis using s'(2,4) qk(2) by auto
qed

lemma kfsExtension0_reads_witness:
  "\<exists>(s :: (drive \<times> nat) storage) s'. kfsExtension0 pio 0x70000 (file_at 0x20000 0) 24 0x60000 100 s = Some (0, s')
     \<and> peek (mem s') 0x60000 4 = [0xC3, 0x90, 0x90, 0x90]"
proof -
  obtain s :: "(drive \<times> nat) storage" where s: "ata_ready pio fst snd 1000 (dev s)"
    "start_lba (mem s) (file_at 0x20000 0) = 1" "file_size (mem s) (file_at 0x20000 0) = 28"
    "ata.contents fst (dev s) 1 1 = prog_sector"
    by (rule prog_disk) blast
  have "region 0x60000 4 \<inter> region 0x70000 512 = {}" by (rule regions_disjoint) simp_all
  moreover have "sectors_of 28 = 1" by (simp add: sectors_of_def)
  ultimately have "\<exists>s'. kfsExtension0 pio 0x70000 (file_at 0x20000 0) 24 0x60000 100 s = Some (0, s')
    \<and> peek (mem s') 0x60000 4 = take 4 (drop (unat (24 :: u32)) (ata.contents fst (dev s) 1 (unat (sectors_of (file_size (mem s) (file_at 0x20000 0))))))
    \<and> {a. mem s' a \<noteq> mem s a} \<subseteq> region 0x60000 4 \<union> region 0x70000 512
    \<and> (\<forall>l n. ata.contents fst (dev s') l n = ata.contents fst (dev s) l n)"
    using s(2-4) by (intro kfsExtension0_reads [OF s(1)]) (simp_all del: One_nat_def)
  then show ?thesis using s(3,4) \<open>sectors_of 28 = 1\<close> by (auto simp: prog_sector_def)
qed

end
