(* ===== verification/Power_Ctl.thy ===== *)
theory Power_Ctl
  imports Log
begin

text \<open>
  \<open>kernel/core/power.c\<close>. What a port write does to the machine is outside the repository; the
  port events record the writes. The BIOS call (\<open>int $0x15\<close>) in the middle of \<open>shutdown\<close> is the
  parameter \<open>bios\<close> from the three register values to the carry flag and the state it leaves:
  after a failed connect the code jumps over the other two calls.
\<close>

definition reboot :: "'a kernel_scheme \<Rightarrow> 'a kernel_scheme" where
  "reboot s = outb 0x64 0xFE (klog ''reboot triggered'' s)"

definition shutdown_ports :: "'a kernel_scheme \<Rightarrow> 'a kernel_scheme" where
  "shutdown_ports s =
     (let s = outb 0x501 0x00 s;
          s = outw 0xB004 0x2000 s;
          s = outw 0x604 0x2000 s;
          s = outw 0x4004 0x3400 s;
          s = outw 0x600 0x34 s
      in outw 0xB004 0x2000 s)"

definition apm :: "(u16 \<Rightarrow> u16 \<Rightarrow> u16 \<Rightarrow> 'a kernel_scheme \<Rightarrow> bool \<times> 'a kernel_scheme) \<Rightarrow> u16 \<Rightarrow> 'a kernel_scheme \<Rightarrow> 'a kernel_scheme" where
  "apm bios cx s =
     (let (carry, s) = bios 0x5301 0 cx s in
      if carry then s
      else (let (_, s) = bios 0x5308 1 1 s;
                (_, s) = bios 0x5307 1 3 s
            in s))"

definition shutdown ::
    "(u16 \<Rightarrow> u16 \<Rightarrow> u16 \<Rightarrow> 'a kernel_scheme \<Rightarrow> bool \<times> 'a kernel_scheme) \<Rightarrow> u16 \<Rightarrow> cpuid \<Rightarrow> cpu_regs \<Rightarrow> 'a kernel_scheme \<Rightarrow> 'a kernel_scheme" where
  "shutdown bios cx cpuid regs s =
     (let s = klog (''shutdown triggered'' @ [NL]) s;
          s = shutdown_ports s;
          s = apm bios cx s
      in panic cpuid (''shutdown failed'' @ [NL]) regs s)"

text \<open>
  If nothing switched the machine off, \<open>shutdown\<close> ends in the panic, having tried the six
  power-off ports in order.
\<close>

lemma shutdown_panics: "halted (shutdown bios cx cpuid regs s)"
  by (simp add: shutdown_def Let_def panic_halts)

lemma shutdown_ports_eq:
  "ports (shutdown_ports s) = ports s @ [Outb 0x501 0, Outw 0xB004 0x2000, Outw 0x604 0x2000, Outw 0x4004 0x3400, Outw 0x600 0x34, Outw 0xB004 0x2000]"
  by (simp add: shutdown_ports_def outb_def outw_def Let_def)

end
