(* ===== verification/Pci.thy ===== *)
theory Pci
  imports Prelude
begin

text \<open>
  \<open>kernel/drivers/pci.c\<close>: configuration space access through the ports CF8h and CFCh, probing a
  function, probing its base address registers and enumerating bus 0. The host bridge behind
  the ports is a parameter \<open>B\<close>; \<open>pci_host\<close> states the documented behaviour of configuration
  mechanism 1 (an address register selecting a dword of configuration space).
\<close>

section \<open>Configuration space access\<close>

record 'c pci_bus =
  cfg_in :: "u16 \<Rightarrow> 'c \<Rightarrow> u32 \<times> 'c"
  cfg_out :: "u16 \<Rightarrow> u32 \<Rightarrow> 'c \<Rightarrow> 'c"

definition CONFIG_ADDRESS :: u16 where "CONFIG_ADDRESS = 0xCF8"
definition CONFIG_DATA :: u16 where "CONFIG_DATA = 0xCFC"

definition pci_address :: "u8 \<Rightarrow> u8 \<Rightarrow> u8 \<Rightarrow> u8 \<Rightarrow> u32" where
  "pci_address bus slot func offset =
     push_bit 16 (ucast bus) OR push_bit 11 (ucast slot) OR push_bit 8 (ucast func) OR (ucast offset AND 0xFC) OR 0x80000000"

definition pciConfigReadDword :: "'c pci_bus \<Rightarrow> u8 \<Rightarrow> u8 \<Rightarrow> u8 \<Rightarrow> u8 \<Rightarrow> 'c \<Rightarrow> u32 \<times> 'c" where
  "pciConfigReadDword B bus slot func offset c =
     cfg_in B CONFIG_DATA (cfg_out B CONFIG_ADDRESS (pci_address bus slot func offset) c)"

definition pciConfigWriteDword :: "'c pci_bus \<Rightarrow> u8 \<Rightarrow> u8 \<Rightarrow> u8 \<Rightarrow> u8 \<Rightarrow> u32 \<Rightarrow> 'c \<Rightarrow> 'c" where
  "pciConfigWriteDword B bus slot func offset val c =
     cfg_out B CONFIG_DATA val (cfg_out B CONFIG_ADDRESS (pci_address bus slot func offset) c)"

definition get_byte :: "u32 \<Rightarrow> nat \<Rightarrow> u32" where
  "get_byte dword offset = drop_bit (offset mod 4 * 8) dword AND 0xFF"

definition get_word :: "u32 \<Rightarrow> nat \<Rightarrow> u32" where
  "get_word dword offset = drop_bit (offset div 2 mod 2 * 2 * 8) dword AND 0xFFFF"

section \<open>Probing a function\<close>

record pci_BAR =
  is_io :: bool
  bar_size :: u8
  bar_addr :: u32

record pci_Device =
  bar :: "pci_BAR list"
  vendor :: u16
  device :: u16
  status :: u16
  command :: u16
  header_type :: u8
  pclass :: u8
  psubclass :: u8
  prog_if :: u8
  int_line :: u8

definition no_bar :: pci_BAR where "no_bar = \<lparr>is_io = False, bar_size = 0, bar_addr = 0\<rparr>"

definition no_device :: pci_Device where
  "no_device = \<lparr>bar = replicate 6 no_bar, vendor = 0, device = 0, status = 0, command = 0, header_type = 0, pclass = 0,
     psubclass = 0, prog_if = 0, int_line = 0\<rparr>"

definition set_bar :: "nat \<Rightarrow> (pci_BAR \<Rightarrow> pci_BAR) \<Rightarrow> pci_Device \<Rightarrow> pci_Device" where
  "set_bar i f d = d\<lparr>bar := (bar d)[i := f (bar d ! i)]\<rparr>"

text \<open>The six base addresses, each read in turn.\<close>

definition read_bars :: "'c pci_bus \<Rightarrow> u8 \<Rightarrow> u8 \<Rightarrow> u8 \<Rightarrow> pci_Device \<times> 'c \<Rightarrow> pci_Device \<times> 'c" where
  "read_bars B bus dev func x =
     fold (\<lambda>i (d, c). let (v, c) = pciConfigReadDword B bus dev func (0x10 + of_nat (4 * i)) c
                       in (set_bar i (\<lambda>b. b\<lparr>bar_addr := v\<rparr>) d, c)) [0..<6] x"

text \<open>The result: \<open>-1\<close>, or 0 and the device stored to \<open>*out\<close>.\<close>

definition pciProbeDevice :: "'c pci_bus \<Rightarrow> u8 \<Rightarrow> u8 \<Rightarrow> u8 \<Rightarrow> 'c \<Rightarrow> pci_Device option \<times> 'c" where
  "pciProbeDevice B bus dev func c =
     (let pci = no_device;
          (v, c) = pciConfigReadDword B bus dev func 0x00 c;
          pci = pci\<lparr>vendor := ucast (get_word v 0)\<rparr>;
          (v, c) = pciConfigReadDword B bus dev func 0x00 c;
          pci = pci\<lparr>device := ucast (get_word v 2)\<rparr>
      in if vendor pci = 0xFFFF then (None, c)
         else
          (let (v, c) = pciConfigReadDword B bus dev func 0x04 c;
               pci = pci\<lparr>status := ucast (get_word v 2)\<rparr>;
               (v, c) = pciConfigReadDword B bus dev func 0x04 c;
               pci = pci\<lparr>command := ucast (get_word v 0)\<rparr>;
               (v, c) = pciConfigReadDword B bus dev func 0x08 c;
               pci = pci\<lparr>pclass := ucast (get_byte v 3)\<rparr>;
               (v, c) = pciConfigReadDword B bus dev func 0x08 c;
               pci = pci\<lparr>psubclass := ucast (get_byte v 2)\<rparr>;
               (v, c) = pciConfigReadDword B bus dev func 0x08 c;
               pci = pci\<lparr>prog_if := ucast (get_byte v 1)\<rparr>;
               (v, c) = pciConfigReadDword B bus dev func 0x0C c;
               pci = pci\<lparr>header_type := ucast (get_byte v 2)\<rparr>
           in if header_type pci = 0
              then (let (pci, c) = read_bars B bus dev func (pci, c);
                        (v, c) = pciConfigReadDword B bus dev func 0x3C c
                    in (Some (pci\<lparr>int_line := ucast (get_byte v 1)\<rparr>), c))
              else (Some pci, c)))"

section \<open>Probing the base address registers\<close>

text \<open>What is stored for an I/O register, a 32-bit and a 64-bit memory register; sizes are 8 bits wide.\<close>

definition io_bar :: "u32 \<Rightarrow> u32 \<Rightarrow> pci_BAR" where
  "io_bar orig probe = \<lparr>is_io = True, bar_size = ucast (NOT (probe AND 0xFFFFFFFC) + 1), bar_addr = orig AND 0xFFFFFFFC\<rparr>"

definition mem_bar :: "u32 \<Rightarrow> u32 \<Rightarrow> pci_BAR" where
  "mem_bar orig probe =
     (let mask = NOT (probe AND 0xFFFFFFF0); sz = mask + 1
      in \<lparr>is_io = False, bar_size = ucast sz, bar_addr = orig AND 0xFFFFFFF0\<rparr>)"

definition mem64_bar :: "u32 \<Rightarrow> u32 \<Rightarrow> u32 \<Rightarrow> u32 \<Rightarrow> pci_BAR" where
  "mem64_bar orig orig_hi probe probe_hi =
     (let full_probe = push_bit 32 (ucast probe_hi) OR ucast probe :: u64;
          mask = NOT (full_probe AND NOT 0xF); sz = mask + 1;
          full_orig = push_bit 32 (ucast orig_hi) OR ucast orig :: u64
      in \<lparr>is_io = False, bar_size = ucast (ucast sz :: u32), bar_addr = ucast (full_orig AND NOT 0xF)\<rparr>)"

definition bar_offset :: "nat \<Rightarrow> u8" where "bar_offset i = 0x10 + of_nat (i * 4)"

text \<open>Read a register, write all ones, read back, restore.\<close>

definition probe_reg :: "'c pci_bus \<Rightarrow> u8 \<Rightarrow> u8 \<Rightarrow> u8 \<Rightarrow> nat \<Rightarrow> u32 \<Rightarrow> 'c \<Rightarrow> u32 \<times> 'c" where
  "probe_reg B bus dev func i orig c =
     (let c = pciConfigWriteDword B bus dev func (bar_offset i) 0xFFFFFFFF c;
          (probe, c) = pciConfigReadDword B bus dev func (bar_offset i) c
      in (probe, pciConfigWriteDword B bus dev func (bar_offset i) orig c))"

function pciProbeBars_loop :: "'c pci_bus \<Rightarrow> u8 \<Rightarrow> u8 \<Rightarrow> u8 \<Rightarrow> nat \<Rightarrow> pci_Device \<times> 'c \<Rightarrow> pci_Device \<times> 'c" where
  "pciProbeBars_loop B bus dev func i (d, c) =
     (if i \<ge> 6 then (d, c)
      else
       (let (orig, c) = pciConfigReadDword B bus dev func (bar_offset i) c in
        if orig = 0 then pciProbeBars_loop B bus dev func (i + 1) (set_bar i (\<lambda>b. b\<lparr>bar_size := 0, is_io := False\<rparr>) d, c)
        else
         (let (probe, c) = probe_reg B bus dev func i orig c in
          if probe = 0 then pciProbeBars_loop B bus dev func (i + 1) (set_bar i (\<lambda>b. b\<lparr>bar_size := 0, is_io := False\<rparr>) d, c)
          else if probe AND 1 \<noteq> 0 then pciProbeBars_loop B bus dev func (i + 1) (set_bar i (\<lambda>_. io_bar orig probe) d, c)
          else if drop_bit 1 probe AND 3 = 2 \<and> i + 1 < 6
          then (let (orig_hi, c) = pciConfigReadDword B bus dev func (bar_offset (i + 1)) c;
                    (probe_hi, c) = probe_reg B bus dev func (i + 1) orig_hi c;
                    d = set_bar i (\<lambda>_. mem64_bar orig orig_hi probe probe_hi) d
                in pciProbeBars_loop B bus dev func (i + 2) (set_bar (i + 1) (\<lambda>_. no_bar) d, c))
          else pciProbeBars_loop B bus dev func (i + 1) (set_bar i (\<lambda>_. mem_bar orig probe) d, c))))"
  by pat_completeness auto
termination
  by (relation "measure (\<lambda>(B, bus, dev, func, i, x). 6 - i)") auto

definition pciProbeBars :: "'c pci_bus \<Rightarrow> u8 \<Rightarrow> u8 \<Rightarrow> u8 \<Rightarrow> pci_Device \<times> 'c \<Rightarrow> pci_Device \<times> 'c" where
  "pciProbeBars B bus dev func x = pciProbeBars_loop B bus dev func 0 x"

declare pciProbeBars_loop.simps [simp del]

section \<open>Enumeration\<close>

record pci_Out =
  pci :: pci_Device
  out_bus :: u8
  out_dev :: u8
  out_func :: u8

definition enum_function :: "'c pci_bus \<Rightarrow> u8 \<Rightarrow> u8 \<Rightarrow> pci_Out list \<times> 'c \<Rightarrow> pci_Out list \<times> 'c" where
  "enum_function B dev f x =
     (let (r, c) = pciProbeDevice B 0 dev f (snd x)
      in case r of None \<Rightarrow> (fst x, c)
         | Some d \<Rightarrow> (fst x @ [\<lparr>pci = d, out_bus = 0, out_dev = dev, out_func = f\<rparr>], c))"

definition enum_device :: "'c pci_bus \<Rightarrow> u8 \<Rightarrow> pci_Out list \<times> 'c \<Rightarrow> pci_Out list \<times> 'c" where
  "enum_device B dev x =
     (let (r, c) = pciProbeDevice B 0 dev 0 (snd x)
      in case r of None \<Rightarrow> (fst x, c)
         | Some d \<Rightarrow>
             (let x = (fst x @ [\<lparr>pci = d, out_bus = 0, out_dev = dev, out_func = 0\<rparr>], c)
              in if header_type d AND 0x80 \<noteq> 0
                 then fold (\<lambda>f. enum_function B dev (of_nat f)) [1..<8] x
                 else x))"

definition pciEnumerate :: "'c pci_bus \<Rightarrow> 'c \<Rightarrow> pci_Out list \<times> 'c" where
  "pciEnumerate B c = fold (\<lambda>dev. enum_device B (of_nat dev)) [0..<32] ([], c)"

section \<open>The host bridge\<close>

text \<open>
  Reading gives the dword selected and changes nothing. Of writing only what the standard says of
  the six base address registers of a function is used: such a register then holds what it keeps
  of the value (\<open>reg\<close>: some bits are fixed), what it holds is kept when written back, and no other
  dword of configuration space changes. Other registers may do what they like when written (the
  status register clears the bits that are ones). \<open>dwords\<close> are the addresses with one dword each.
\<close>

definition pci_host :: "'c pci_bus \<Rightarrow> ('c \<Rightarrow> u32 \<Rightarrow> u32) \<Rightarrow> bool" where
  "pci_host B cfg \<longleftrightarrow> (\<forall>c a. let (v, c') = cfg_in B 0xCFC (cfg_out B 0xCF8 a c) in v = cfg c a \<and> cfg c' = cfg c)"

definition dwords :: "u32 set" where
  "dwords = {a. bit a 31 \<and> (\<forall>n \<in> {0, 1, 24, 25, 26, 27, 28, 29, 30}. \<not> bit a n)}"

lemma offset_bits: "(0xFC :: u32) = push_bit 2 (mask 6)"
  by (simp add: mask_eq_exp_minus_1 push_bit_eq_mult)

lemma address_bits:
  assumes "n < 32"
  shows "bit (pci_address bus dev func off) n \<longleftrightarrow> 16 \<le> n \<and> bit bus (n - 16) \<or> 11 \<le> n \<and> bit dev (n - 11)
     \<or> 8 \<le> n \<and> bit func (n - 8) \<or> bit off n \<and> 2 \<le> n \<and> n < 8 \<or> n = 31"
proof -
  have "(0x80000000 :: u32) = push_bit 31 1" by (simp add: push_bit_eq_mult)
  then have "bit (0x80000000 :: u32) n \<longleftrightarrow> n = 31" using assms by (simp only: bit_push_bit_iff) (auto simp: bit_1_iff)
  moreover have "bit (0xFC :: u32) n \<longleftrightarrow> 2 \<le> n \<and> n < 8" using assms by (simp only: offset_bits) (auto simp: bit_simps)
  moreover have "n - k < 32" for k using assms by simp
  ultimately show ?thesis using assms by (simp add: pci_address_def bit_or_iff bit_and_iff bit_push_bit_iff bit_ucast_iff)
qed

lemma address_dword: "pci_address bus dev func off \<in> dwords"
proof -
  have "\<not> bit (x :: u8) n" if "8 \<le> n" for x n using that by (auto dest: bit_imp_le_length)
  then show ?thesis by (simp add: dwords_def address_bits)
qed

lemma address_offset: "pci_address bus dev func off AND 0xFC = ucast off AND 0xFC"
proof (rule bit_word_eqI)
  fix n assume "n < LENGTH(32)"
  then have n: "n < 32" by simp
  have "bit (0xFC :: u32) n \<longleftrightarrow> 2 \<le> n \<and> n < 8" using n by (simp only: offset_bits) (auto simp: bit_simps)
  then show "bit (pci_address bus dev func off AND 0xFC) n = bit (ucast off AND 0xFC :: u32) n"
    using address_bits [OF n, of bus dev func off] n by (auto simp: bit_and_iff bit_ucast_iff)
qed

definition pci_bars ::
    "'c pci_bus \<Rightarrow> ('c \<Rightarrow> u32 \<Rightarrow> u32) \<Rightarrow> u8 \<Rightarrow> u8 \<Rightarrow> u8 \<Rightarrow> (nat \<Rightarrow> u32 \<Rightarrow> u32) \<Rightarrow> bool" where
  "pci_bars B cfg bus dev func reg \<longleftrightarrow>
     (\<forall>i < 6. let a = pci_address bus dev func (0x10 + of_nat (4 * i)) in
        \<forall>c. reg i (cfg c a) = cfg c a
          \<and> (\<forall>v. cfg (cfg_out B 0xCFC v (cfg_out B 0xCF8 a c)) a = reg i v
                \<and> (\<forall>x \<in> dwords - {a}. cfg (cfg_out B 0xCFC v (cfg_out B 0xCF8 a c)) x = cfg c x)))"

lemma read_dword:
  assumes "pci_host B cfg"
  shows "fst (pciConfigReadDword B bus dev func off c) = cfg c (pci_address bus dev func off)"
    "cfg (snd (pciConfigReadDword B bus dev func off c)) = cfg c"
  using assms by (simp_all add: pci_host_def pciConfigReadDword_def CONFIG_ADDRESS_def CONFIG_DATA_def case_prod_beta Let_def)

lemma write_bar:
  assumes "pci_bars B cfg bus dev func reg" and "i < 6"
  defines "a \<equiv> pci_address bus dev func (bar_offset i)"
  shows "cfg (pciConfigWriteDword B bus dev func (bar_offset i) v c) a = reg i v" "reg i (cfg c a) = cfg c a"
    "x \<in> dwords \<Longrightarrow> x \<noteq> a \<Longrightarrow> cfg (pciConfigWriteDword B bus dev func (bar_offset i) v c) x = cfg c x"
  using assms(1) [unfolded pci_bars_def Let_def, rule_format, OF assms(2)]
  by (simp_all add: a_def pciConfigWriteDword_def CONFIG_ADDRESS_def CONFIG_DATA_def bar_offset_def mult.commute)

text \<open>A function is present when its vendor is not FFFFh.\<close>

definition present :: "(u32 \<Rightarrow> u32) \<Rightarrow> u8 \<Rightarrow> u8 \<Rightarrow> bool" where
  "present m dev f \<longleftrightarrow> (ucast (m (pci_address 0 dev f 0)) :: u16) \<noteq> 0xFFFF"

definition multi :: "(u32 \<Rightarrow> u32) \<Rightarrow> u8 \<Rightarrow> bool" where
  "multi m dev \<longleftrightarrow> bit (m (pci_address 0 dev 0 0x0C)) 23"

lemma ucast_get_word: "(ucast (get_word v 0) :: u16) = ucast v" "(ucast (get_word v 2) :: u16) = ucast (drop_bit 16 v)"
  by (rule bit_word_eqI, auto simp: get_word_def bit_simps bit_low_mask)+

lemma ucast_get_byte: "(ucast (get_byte v 2) :: u8) = ucast (drop_bit 16 v)"
  by (rule bit_word_eqI) (auto simp: get_byte_def bit_simps bit_low_mask)

lemma header_multi: "(ucast (drop_bit 16 v) :: u8) AND 0x80 \<noteq> 0 \<longleftrightarrow> bit (v :: u32) 23"
proof -
  have "(0x80 :: u8) = 2 ^ 7" by simp
  then show ?thesis by (simp only: and_exp_eq_0_iff_not_bit) (simp add: bit_simps)
qed

lemma fold_cfg: "(\<And>x y. cfg (snd (f x y)) = cfg (snd y)) \<Longrightarrow> cfg (snd (fold f xs y)) = cfg (snd y)"
  by (induction xs arbitrary: y) auto

lemma fold_fields:
  "(\<And>x d c. g (fst (f x (d, c))) = g d) \<Longrightarrow> g (fst (fold f xs y)) = g (fst y)"
  by (induction xs arbitrary: y) auto

lemma read_bars_keeps:
  assumes "pci_host B cfg"
  shows "cfg (snd (read_bars B bus dev func x)) = cfg (snd x)" "vendor (fst (read_bars B bus dev func x)) = vendor (fst x)"
    "device (fst (read_bars B bus dev func x)) = device (fst x)" "header_type (fst (read_bars B bus dev func x)) = header_type (fst x)"
proof -
  show "cfg (snd (read_bars B bus dev func x)) = cfg (snd x)"
    unfolding read_bars_def by (rule fold_cfg) (simp add: read_dword(2) [OF assms] case_prod_beta Let_def)
qed (simp_all add: read_bars_def fold_fields set_bar_def split: prod.splits)

lemma pciProbeDevice_eq:
  assumes "pci_host B cfg"
  shows "cfg (snd (pciProbeDevice B bus dev func c)) = cfg c"
    "fst (pciProbeDevice B bus dev func c) = None \<longleftrightarrow> (ucast (cfg c (pci_address bus dev func 0)) :: u16) = 0xFFFF"
    "fst (pciProbeDevice B bus dev func c) = Some d \<Longrightarrow> vendor d = ucast (cfg c (pci_address bus dev func 0))
       \<and> device d = ucast (drop_bit 16 (cfg c (pci_address bus dev func 0))) \<and> header_type d = ucast (drop_bit 16 (cfg c (pci_address bus dev func 0x0C)))"
  by (auto simp: pciProbeDevice_def Let_def case_prod_beta read_dword [OF assms] read_bars_keeps [OF assms] ucast_get_word ucast_get_byte
      split: if_splits)

section \<open>What enumeration finds\<close>

definition functions_of :: "(u32 \<Rightarrow> u32) \<Rightarrow> u8 \<Rightarrow> (u8 \<times> u8) list" where
  "functions_of m d =
     (if present m d 0 then (d, 0) # (if multi m d then map (Pair d) (filter (present m d) (map of_nat [1..<8])) else []) else [])"

definition ident :: "pci_Out \<Rightarrow> u8 \<times> u8" where
  "ident r = (out_dev r, out_func r)"

definition id_ok :: "(u32 \<Rightarrow> u32) \<Rightarrow> pci_Out \<Rightarrow> bool" where
  "id_ok m r \<longleftrightarrow> vendor (pci r) = ucast (m (pci_address 0 (out_dev r) (out_func r) 0))
     \<and> device (pci r) = ucast (drop_bit 16 (m (pci_address 0 (out_dev r) (out_func r) 0)))"

lemma enum_function_eq:
  assumes "pci_host B cfg" and "cfg (snd x) = m"
  shows "cfg (snd (enum_function B dev f x)) = m"
    "map ident (fst (enum_function B dev f x)) = map ident (fst x) @ (if present m dev f then [(dev, f)] else [])"
    "list_all (id_ok m) (fst x) \<Longrightarrow> list_all (id_ok m) (fst (enum_function B dev f x))"
  using pciProbeDevice_eq [OF assms(1), of 0 dev f "snd x"] assms(2)
  by (auto simp: enum_function_def ident_def id_ok_def present_def Let_def case_prod_beta split: option.split)

lemma enum_functions_eq:
  assumes "pci_host B cfg" and "cfg (snd x) = m"
  shows "cfg (snd (fold (\<lambda>f. enum_function B dev (of_nat f)) fs x)) = m
    \<and> map ident (fst (fold (\<lambda>f. enum_function B dev (of_nat f)) fs x)) = map ident (fst x) @ map (Pair dev) (filter (present m dev) (map of_nat fs))
    \<and> (list_all (id_ok m) (fst x) \<longrightarrow> list_all (id_ok m) (fst (fold (\<lambda>f. enum_function B dev (of_nat f)) fs x)))"
  using assms(2)
proof (induction fs arbitrary: x)
  case (Cons f fs)
  show ?case
    using Cons.IH [of "enum_function B dev (of_nat f) x"] enum_function_eq [OF assms(1) Cons.prems, of dev "of_nat f"] by simp
qed simp

lemma enum_device_eq:
  assumes "pci_host B cfg" and "cfg (snd x) = m"
  shows "cfg (snd (enum_device B dev x)) = m
    \<and> map ident (fst (enum_device B dev x)) = map ident (fst x) @ functions_of m dev
    \<and> (list_all (id_ok m) (fst x) \<longrightarrow> list_all (id_ok m) (fst (enum_device B dev x)))"
proof (cases "fst (pciProbeDevice B 0 dev 0 (snd x))")
  case None
  then show ?thesis using pciProbeDevice_eq [OF assms(1), of 0 dev 0 "snd x"] assms(2)
    by (simp add: enum_device_def functions_of_def present_def Let_def case_prod_beta)
next
  case (Some d)
  let ?y = "(fst x @ [\<lparr>pci = d, out_bus = 0, out_dev = dev, out_func = 0\<rparr>], snd (pciProbeDevice B 0 dev 0 (snd x)))"
  note probe = pciProbeDevice_eq [OF assms(1), of 0 dev 0 "snd x", unfolded assms(2)]
  have "cfg (snd ?y) = m" using probe(1) by simp
  note rest = enum_functions_eq [OF assms(1) this, of dev "[1..<8]"]
  have "header_type d AND 0x80 \<noteq> 0 \<longleftrightarrow> multi m dev" using probe(3) [OF Some] by (simp only: multi_def header_multi)
  moreover have "present m dev 0" using probe(2) Some by (simp add: present_def)
  moreover have "map ident (fst ?y) = map ident (fst x) @ [(dev, 0)]" "list_all (id_ok m) (fst x) \<longrightarrow> list_all (id_ok m) (fst ?y)"
    using probe(3) [OF Some] by (simp_all add: ident_def id_ok_def)
  ultimately show ?thesis
    using rest probe(1) Some by (simp add: enum_device_def functions_of_def Let_def case_prod_beta del: upt_rec_numeral)
qed

lemma enum_devices_eq:
  assumes "pci_host B cfg" and "cfg (snd x) = m"
  shows "map ident (fst (fold (\<lambda>dev. enum_device B (of_nat dev)) ds x)) = map ident (fst x) @ concat (map (functions_of m) (map of_nat ds))
    \<and> (list_all (id_ok m) (fst x) \<longrightarrow> list_all (id_ok m) (fst (fold (\<lambda>dev. enum_device B (of_nat dev)) ds x)))"
  using assms(2)
proof (induction ds arbitrary: x)
  case (Cons d ds)
  show ?case using Cons.IH [of "enum_device B (of_nat d) x"] enum_device_eq [OF assms(1) Cons.prems, of "of_nat d"] by simp
qed simp

lemma length_functions_of: "length (functions_of m d) \<le> 8"
proof -
  have "length (filter (present m d) (map of_nat [1..<8])) \<le> 7"
    using length_filter_le [of "present m d" "map of_nat [1..<8]"] by simp
  then show ?thesis by (simp add: functions_of_def del: upt_rec_numeral)
qed

lemma length_concat_le: "\<forall>x \<in> set xs. length (f x) \<le> n \<Longrightarrow> length (concat (map f xs)) \<le> n * length xs"
  by (induction xs) auto

section \<open>Probing restores the registers\<close>

definition same_cfg :: "('c \<Rightarrow> u32 \<Rightarrow> u32) \<Rightarrow> 'c \<Rightarrow> 'c \<Rightarrow> bool" where
  "same_cfg cfg c c' \<longleftrightarrow> (\<forall>x \<in> dwords. cfg c' x = cfg c x)"

lemma same_cfg_trans: "same_cfg cfg c c' \<Longrightarrow> same_cfg cfg c' c'' \<Longrightarrow> same_cfg cfg c c''"
  by (simp add: same_cfg_def)

lemma same_cfg_eq: "cfg c' = cfg c \<Longrightarrow> same_cfg cfg c c'"
  by (simp add: same_cfg_def)

lemma probe_reg_restores:
  assumes "pci_host B cfg" and "pci_bars B cfg bus dev func reg" and "i < 6"
    and "orig = cfg c (pci_address bus dev func (bar_offset i))"
  shows "same_cfg cfg c (snd (probe_reg B bus dev func i orig c))"
proof -
  let ?a = "pci_address bus dev func (bar_offset i)"
  note bar = write_bar [OF assms(2,3)]
  let ?c1 = "pciConfigWriteDword B bus dev func (bar_offset i) 0xFFFFFFFF c"
  let ?c2 = "snd (pciConfigReadDword B bus dev func (bar_offset i) ?c1)"
  have "cfg (snd (probe_reg B bus dev func i orig c)) x = cfg c x" if "x \<in> dwords" for x
    using that bar read_dword(2) [OF assms(1), of bus dev func "bar_offset i" ?c1] assms(4)
    by (cases "x = ?a") (simp_all add: probe_reg_def Let_def case_prod_beta)
  then show ?thesis by (simp add: same_cfg_def)
qed

lemma pciProbeBars_loop_restores:
  assumes "pci_host B cfg" and "pci_bars B cfg bus dev func reg"
  shows "same_cfg cfg c (snd (pciProbeBars_loop B bus dev func i (d, c)))"
proof (induction "6 - i" arbitrary: i d c rule: less_induct)
  case less
  let ?orig = "fst (pciConfigReadDword B bus dev func (bar_offset i) c)" and ?c = "snd (pciConfigReadDword B bus dev func (bar_offset i) c)"
  note keep = read_dword [OF assms(1), of bus dev func]
  show ?case
  proof (cases "i \<ge> 6")
    case True
    then show ?thesis by (simp add: pciProbeBars_loop.simps same_cfg_eq)
  next
    case False
    have probe: "same_cfg cfg c (snd (probe_reg B bus dev func j (fst (pciConfigReadDword B bus dev func (bar_offset j) c))
        (snd (pciConfigReadDword B bus dev func (bar_offset j) c))))" if "j < 6" for j c
      by (rule same_cfg_trans [OF same_cfg_eq probe_reg_restores [OF assms(1,2) that]]) (simp_all only: keep)
    have IH: "same_cfg cfg c c' \<Longrightarrow> same_cfg cfg c (snd (pciProbeBars_loop B bus dev func (i + 1) (d', c')))"
      "same_cfg cfg c c' \<Longrightarrow> same_cfg cfg c (snd (pciProbeBars_loop B bus dev func (i + 2) (d', c')))" for d' c'
      using False less [of "i + 1" c' d'] less [of "i + 2" c' d'] by (auto intro: same_cfg_trans)
    let ?c1 = "snd (probe_reg B bus dev func i ?orig ?c)"
    let ?hi = "fst (pciConfigReadDword B bus dev func (bar_offset (i + 1)) ?c1)" and ?c2 = "snd (pciConfigReadDword B bus dev func (bar_offset (i + 1)) ?c1)"
    have "same_cfg cfg c ?c" by (rule same_cfg_eq) (rule keep)
    moreover have 1: "same_cfg cfg c ?c1" using False by (intro probe) simp
    moreover have "i + 1 < 6 \<Longrightarrow> same_cfg cfg c (snd (probe_reg B bus dev func (i + 1) ?hi ?c2))"
      by (rule same_cfg_trans [OF 1 probe])
    ultimately show ?thesis
      using False IH by (subst pciProbeBars_loop.simps) (auto simp: Let_def case_prod_beta)
  qed
qed

section \<open>Properties\<close>

text \<open>
  A concrete host: an address latch and a space whose registers keep the bits of a mask, except
  the status registers, which clear the bits that are written as ones.
\<close>

definition sim_cfg :: "u32 \<times> (u32 \<Rightarrow> u32) \<Rightarrow> u32 \<Rightarrow> u32" where
  "sim_cfg c a = snd c a AND 0xFFFFF0FF"

definition sim_bus :: "(u32 \<times> (u32 \<Rightarrow> u32)) pci_bus" where
  "sim_bus = \<lparr>cfg_in = \<lambda>port c. (sim_cfg c (fst c), c),
     cfg_out = \<lambda>port v c. if port = 0xCF8 then (v, snd c)
       else if fst c AND 0xFC = 4
       then (fst c, (snd c)(fst c := (snd c (fst c) AND NOT (v AND 0xFFFF0000) AND 0xFFFF0000) OR (v AND 0xFFFF)))
       else (fst c, (snd c)(fst c := v))\<rparr>"

lemma sim_host: "pci_host sim_bus sim_cfg"
  by (auto simp: pci_host_def sim_bus_def sim_cfg_def Let_def fun_eq_iff)

lemma sim_bars: "pci_bars sim_bus sim_cfg bus dev func (\<lambda>_ v. v AND 0xFFFFF0FF)"
proof -
  have "pci_address bus dev func (0x10 + of_nat (4 * i)) AND 0xFC \<noteq> 4" if "i < 6" for i
  proof -
    have "i \<in> {0, 1, 2, 3, 4, 5}" using that by auto
    then show ?thesis by (auto simp: address_offset)
  qed
  then show ?thesis by (simp add: pci_bars_def sim_bus_def sim_cfg_def Let_def and.assoc)
qed

text \<open>One device at slot 3; everything else reads as absent.\<close>

definition sim_state :: "u32 \<times> (u32 \<Rightarrow> u32)" where
  "sim_state = (0, (\<lambda>_. 0xFFFFFFFF)(pci_address 0 3 0 0 := 0x12378086))"

text \<open>
  C25: \<open>pciEnumerate\<close> lists exactly the functions present on bus 0, each once, in the order of
  slots and functions (functions 1 to 7 only of multi-function devices), with their vendor and
  device identifiers; there are at most 256 of them, so the array of 1024 entries in \<open>kmain\<close> is
  never overrun.
\<close>

theorem pci_enumerates:
  assumes "pci_host B cfg"
  shows "map ident (fst (pciEnumerate B c)) = concat (map (functions_of (cfg c)) (map of_nat [0..<32]))
    \<and> list_all (id_ok (cfg c)) (fst (pciEnumerate B c)) \<and> length (fst (pciEnumerate B c)) \<le> 256"
proof -
  have eq: "map ident (fst (pciEnumerate B c)) = concat (map (functions_of (cfg c)) (map of_nat [0..<32]))"
    "list_all (id_ok (cfg c)) (fst (pciEnumerate B c))"
    using enum_devices_eq [OF assms, of "([], c)" "cfg c" "[0..<32]"] by (simp_all add: pciEnumerate_def del: upt_rec_numeral)
  have "length (concat (map (functions_of (cfg c)) (map of_nat [0..<32]))) \<le> 8 * length (map of_nat [0..<32] :: u8 list)"
    by (rule length_concat_le) (simp add: length_functions_of)
  moreover have "length (map of_nat [0..<32] :: u8 list) = 32" by simp
  moreover have "length (fst (pciEnumerate B c)) = length (map ident (fst (pciEnumerate B c)))" by simp
  ultimately show ?thesis using eq by simp
qed

lemma pci_enumerates_witness:
  "list_all (id_ok (sim_cfg sim_state)) (fst (pciEnumerate sim_bus sim_state)) \<and> length (fst (pciEnumerate sim_bus sim_state)) \<le> 256"
  using pci_enumerates [OF sim_host] by blast

text \<open>
  C34: probing the base address registers of a function leaves configuration space as it was, dword
  by dword: every register that was overwritten with ones is restored, for any mix of I/O, 32-bit
  and 64-bit registers. Only base address registers are written: the hypothesis says nothing of
  what a write to any other register does.
\<close>

theorem pci_bars_restored:
  assumes "pci_host B cfg" and "pci_bars B cfg bus dev func reg"
  shows "\<forall>x \<in> dwords. cfg (snd (pciProbeBars B bus dev func (d, c))) x = cfg c x"
  using pciProbeBars_loop_restores [OF assms] by (simp add: pciProbeBars_def same_cfg_def)

lemma pci_bars_restored_witness:
  "sim_cfg (snd (pciProbeBars sim_bus 0 3 0 (no_device, sim_state))) (pci_address 0 3 0 0x10) = sim_cfg sim_state (pci_address 0 3 0 0x10)"
  using pci_bars_restored [OF sim_host sim_bars] address_dword by simp

text \<open>
  The recorded size of a memory register is right only below 256 bytes: a region of \<open>2^k\<close>
  bytes is recorded as \<open>2^k\<close> for \<open>k < 8\<close> and as 0 for every larger one, because the field is one
  byte wide.
\<close>

lemma pci_bar_size:
  assumes "4 \<le> k" and "k < 32" and "flags AND 0xFFFFFFF0 = 0"
  shows "bar_size (mem_bar orig (NOT (mask k) OR flags)) = (if k < 8 then 2 ^ k else 0)"
proof -
  have low: "(0xFFFFFFF0 :: u32) = NOT (mask 4)" by (simp add: mask_eq_exp_minus_1)
  have "NOT (mask k :: u32) AND NOT (mask 4) = NOT (mask k)"
    using assms(1) by (intro bit_word_eqI) (auto simp: bit_simps)
  then have kept: "(NOT (mask k) OR flags) AND NOT (mask 4) = NOT (mask k)"
    using assms(3) unfolding low by (simp add: bit.conj_disj_distrib2)
  have "NOT ((NOT (mask k) OR flags) AND 0xFFFFFFF0) + 1 = (mask k :: u32) + 1"
    unfolding low kept by simp
  also have "\<dots> = 2 ^ k" by (simp add: mask_eq_exp_minus_1)
  finally have "NOT ((NOT (mask k) OR flags) AND 0xFFFFFFF0) + 1 = (2 ^ k :: u32)" .
  then have "bar_size (mem_bar orig (NOT (mask k) OR flags)) = ucast (2 ^ k :: u32)"
    by (simp add: mem_bar_def Let_def)
  also have "\<dots> = (2 ^ k :: u8)"
    using assms(2) by (intro bit_word_eqI) (auto simp: bit_simps)
  also have "\<dots> = (if k < 8 then 2 ^ k else 0)" by (auto simp: not_less intro: bit_word_eqI simp: bit_simps)
  finally show ?thesis .
qed

lemma pci_bar_sizes:
  "bar_size (mem_bar 0xFEB00000 (NOT (mask 7) OR 8)) = 128 \<and> bar_size (mem_bar 0xFEB00000 (NOT (mask 12) OR 8)) = 0"
  using pci_bar_size [of 7 8] pci_bar_size [of 12 8] by simp

end
