(* ===== verification/Line_Editor.thy ===== *)
theory Line_Editor
  imports Ata Keyboard
begin

text \<open>
  \<open>kernel/core/shell.c\<close>, the loop that reads a line: one key after another into \<open>chars\<close>, with
  backspace, until a newline or the end of the array. Between two keys the shell calls
  \<open>yield\<close>; what the other processes and the interrupt handlers do meanwhile is the parameter
  \<open>feed\<close> of the loop.
\<close>

text \<open>The kernel state with the disk and the keyboard.\<close>

record 'd system = "'d storage" +
  keys :: kbd

section \<open>The code\<close>

text \<open>The body of the loop once \<open>get_key\<close> has a key: whether it leaves the loop, \<open>chars\<close> and \<open>i\<close>.\<close>

definition sh_key :: "char \<Rightarrow> string \<times> nat \<Rightarrow> 'a kernel_scheme \<Rightarrow> bool \<times> (string \<times> nat) \<times> 'a kernel_scheme" where
  "sh_key c ed s =
     (let (chars, i) = ed in
      if c = BS then
        (if i > 0 then (False, (chars, i - 1), snd (putc BS s)) else (False, (chars, i), s))
      else if i \<ge> 128 - 1 then (True, (chars[i := NUL], i), s)
      else
       (let s = snd (putc c s);
            chars = chars[i := c];
            i = i + 1
        in if c = NL then (True, (chars[i - 1 := NUL], i), s) else (False, (chars, i), s)))"

partial_function (option) sh_line ::
    "(('d, 'a) system_scheme \<Rightarrow> ('d, 'a) system_scheme) \<Rightarrow> string \<times> nat \<Rightarrow> ('d, 'a) system_scheme \<Rightarrow>
     ((string \<times> nat) \<times> ('d, 'a) system_scheme) option" where
  "sh_line feed ed s =
     (case get_key (keys s) of
        (None, k) \<Rightarrow> sh_line feed ed (feed (s\<lparr>keys := k\<rparr>))
      | (Some c, k) \<Rightarrow>
          (case sh_key c ed (s\<lparr>keys := k\<rparr>) of
             (fin, ed, s) \<Rightarrow> if fin then Some (ed, s) else sh_line feed ed (feed s)))"

section \<open>What a key does\<close>

text \<open>The same without the state: the last part is what is echoed.\<close>

definition key_effect :: "char \<Rightarrow> string \<times> nat \<Rightarrow> bool \<times> (string \<times> nat) \<times> string" where
  "key_effect c ed =
     (let (chars, i) = ed in
      if c = BS then (False, (chars, i - 1), if i > 0 then [BS] else [])
      else if 127 \<le> i then (True, (chars[i := NUL], i), [])
      else if c = NL then (True, (chars[i := NUL], Suc i), [NL])
      else (False, (chars[i := c], Suc i), [c]))"

lemma sh_key_eq:
  "sh_key c ed s = (case key_effect c ed of (fin, ed, e) \<Rightarrow> (fin, ed, tty_out e s))"
  by (cases ed) (auto simp: sh_key_def key_effect_def putc_def)

fun keys_run :: "char list \<Rightarrow> string \<times> nat \<Rightarrow> ((string \<times> nat) \<times> string \<times> char list) option" where
  "keys_run [] ed = None"
| "keys_run (c # cs) ed =
     (case key_effect c ed of
        (fin, ed, e) \<Rightarrow>
          if fin then Some (ed, e, cs)
          else map_option (\<lambda>(ed, e', rest). (ed, e @ e', rest)) (keys_run cs ed))"

text \<open>The line as the user sees it: backspace takes the last character away.\<close>

definition edit_key :: "char \<Rightarrow> string \<Rightarrow> string" where
  "edit_key c t = (if c = BS then butlast t else t @ [c])"

definition edited :: "char list \<Rightarrow> string" where
  "edited ks = fold edit_key ks []"

fun echo :: "string \<Rightarrow> char list \<Rightarrow> string" where
  "echo t [] = []"
| "echo t (c # cs) = (if c = BS \<and> t = [] then [] else [c]) @ echo (edit_key c t) cs"

text \<open>No key finds the array full.\<close>

fun fits :: "string \<Rightarrow> char list \<Rightarrow> bool" where
  "fits t [] \<longleftrightarrow> length t < 127"
| "fits t (c # cs) \<longleftrightarrow> (c = BS \<or> length t < 127) \<and> fits (edit_key c t) cs"

text \<open>The array holds the line so far; what lies behind it is left over from before.\<close>

definition holds :: "string \<Rightarrow> string \<times> nat \<Rightarrow> bool" where
  "holds t ed \<longleftrightarrow> length (fst ed) = 128 \<and> snd ed = length t \<and> length t \<le> 127 \<and> take (length t) (fst ed) = t \<and> fst ed ! 127 = NUL"

lemma holds_start: "holds [] (replicate 128 NUL, 0)"
  by (simp add: holds_def)

lemma holds_key:
  assumes "holds t ed" and "c \<noteq> NL" and "c = BS \<or> length t < 127"
  shows "\<exists>ed'. key_effect c ed = (False, ed', if c = BS \<and> t = [] then [] else [c]) \<and> holds (edit_key c t) ed'"
proof (cases ed)
  case (Pair chars i)
  show ?thesis
  proof (cases "c = BS")
    case True
    have "take (length t - 1) chars = butlast t"
      using assms(1) Pair by (simp add: holds_def butlast_conv_take min_def) (metis diff_le_self min.absorb1 take_take)
    then show ?thesis using assms(1) Pair True by (auto simp: holds_def key_effect_def edit_key_def)
  next
    case False
    then have len: "length t < 127" using assms(3) by simp
    have "take (Suc (length t)) (chars[length t := c]) = t @ [c]"
      using assms(1) Pair len by (simp add: holds_def take_Suc_conv_app_nth)
    then show ?thesis using assms False len Pair by (auto simp: holds_def key_effect_def edit_key_def)
  qed
qed

lemma holds_newline:
  assumes "holds t ed" and "length t < 127" and "NUL \<notin> set t"
  shows "\<exists>chars. key_effect NL ed = (True, (chars, Suc (length t)), [NL]) \<and> cstr chars = t \<and> length chars = 128
    \<and> chars = t @ NUL # drop (Suc (length t)) (fst ed)"
proof (cases ed)
  case (Pair chars i)
  have "chars[length t := NUL] = t @ NUL # drop (Suc (length t)) chars"
    using assms(1,2) Pair by (simp add: holds_def upd_conv_take_nth_drop)
  then show ?thesis using assms Pair by (auto simp: holds_def key_effect_def cstr_append_NUL)
qed

lemma keys_run_line:
  assumes "holds t ed" and "fits t ks" and "NL \<notin> set ks" and "NUL \<notin> set (fold edit_key ks t)"
  shows "\<exists>chars. keys_run (ks @ NL # rest) ed = Some ((chars, Suc (length (fold edit_key ks t))), echo t ks @ [NL], rest)
    \<and> cstr chars = fold edit_key ks t \<and> length chars = 128"
  using assms
proof (induction ks arbitrary: t ed)
  case Nil
  then show ?case using holds_newline [of t ed] by auto
next
  case (Cons c ks)
  then obtain ed' where ed': "key_effect c ed = (False, ed', if c = BS \<and> t = [] then [] else [c])" "holds (edit_key c t) ed'"
    using holds_key [of t ed c] by auto
  from Cons.IH [OF ed'(2)] Cons.prems
  obtain chars where "keys_run (ks @ NL # rest) ed' = Some ((chars, Suc (length (fold edit_key ks (edit_key c t)))), echo (edit_key c t) ks @ [NL], rest)"
    "cstr chars = fold edit_key ks (edit_key c t)" "length chars = 128" by auto
  then show ?case using ed'(1) by auto
qed

end
