(* ===== verification/Typing.thy ===== *)
theory Typing
  imports Line_Editor
begin

text \<open>
  The keys of the shell come from the interrupt handler of the keyboard, which runs while the
  shell yields. \<open>typist\<close> is the contract of what the shell relies on; it is met by the handler of
  \<open>keyboard.c\<close> run on one scan code after another.
\<close>

section \<open>The contract\<close>

text \<open>
  \<open>pending\<close> are the characters still to come: while the shell yields they move into the ring buffer
  in order, and none arrives late for ever (\<open>lag\<close>). Yielding changes neither the memory nor the
  screen, the allocator or the disk.
\<close>

locale typist =
  fixes feed :: "('d, 'a) system_scheme \<Rightarrow> ('d, 'a) system_scheme"
    and pending :: "('d, 'a) system_scheme \<Rightarrow> char list"
    and lag :: "('d, 'a) system_scheme \<Rightarrow> nat"
    and good :: "('d, 'a) system_scheme \<Rightarrow> bool"
  assumes feed_good: "good s \<Longrightarrow> good (feed s)"
    and good_wf: "good s \<Longrightarrow> kbd_wf (keys s)"
    and feed_frame: "storage.truncate (feed s) = storage.truncate s"
    and feed_keeps: "good s \<Longrightarrow> kbd_items (keys (feed s)) @ pending (feed s) = kbd_items (keys s) @ pending s"
    and feed_progress: "good s \<Longrightarrow> kbd_items (keys s) = [] \<Longrightarrow> pending s \<noteq> [] \<Longrightarrow> kbd_items (keys (feed s)) = [] \<Longrightarrow> lag (feed s) < lag s"
    and take_good: "good s \<Longrightarrow> kbd_items (keys s) \<noteq> [] \<Longrightarrow> good (s\<lparr>keys := snd (get_key (keys s))\<rparr>)"
    and take_pending: "good s \<Longrightarrow> kbd_items (keys s) \<noteq> [] \<Longrightarrow> pending (s\<lparr>keys := snd (get_key (keys s))\<rparr>) = pending s"
    and out_good: "good (tty_out t s) = good s"
    and out_pending: "pending (tty_out t s) = pending s"

lemma truncate_simps [simp]:
  "storage.truncate (s\<lparr>keys := k\<rparr>) = storage.truncate s" "keys (tty_out t s) = keys s"
  "storage.truncate (tty_out t s) = tty_out t (storage.truncate s)" "dev (tty_out t s) = dev s"
  by (simp_all add: storage.truncate_def tty_out_def)

context typist
begin

text \<open>Waiting for a key ends once one is on its way.\<close>

lemma waits:
  assumes "good s" and "kbd_items (keys s) @ pending s = c # cs"
  shows "\<exists>t. sh_line feed ed s = sh_line feed ed t \<and> good t \<and> storage.truncate t = storage.truncate s
    \<and> kbd_items (keys t) @ pending t = c # cs \<and> kbd_items (keys t) \<noteq> []"
  using assms
proof (induction "lag s" arbitrary: s rule: less_induct)
  case less
  show ?case
  proof (cases "kbd_items (keys s) = []")
    case False
    then show ?thesis using less.prems by blast
  next
    case True
    then have "get_key (keys s) = (None, keys s)" using get_key_empty good_wf less.prems(1) by blast
    then have wait: "sh_line feed ed s = sh_line feed ed (feed s)"
      by (subst sh_line.simps) simp
    have fed: "good (feed s)" "kbd_items (keys (feed s)) @ pending (feed s) = c # cs" "storage.truncate (feed s) = storage.truncate s"
      using feed_good feed_keeps feed_frame less.prems by simp_all
    show ?thesis
    proof (cases "kbd_items (keys (feed s)) = []")
      case False
      then show ?thesis using wait fed by blast
    next
      case empty: True
      then have "lag (feed s) < lag s" using feed_progress less.prems True by simp
      from less.hyps [OF this fed(1,2)] show ?thesis using wait fed(3) by auto
    qed
  qed
qed

lemma takes_key:
  assumes "good s" and "kbd_items (keys s) @ pending s = c # cs"
  shows "\<exists>t. sh_line feed ed s = (case key_effect c ed of (fin, ed', e) \<Rightarrow>
        if fin then Some (ed', tty_out e t) else sh_line feed ed' (feed (tty_out e t)))
    \<and> good t \<and> storage.truncate t = storage.truncate s \<and> kbd_items (keys t) @ pending t = cs"
proof -
  obtain t where t: "sh_line feed ed s = sh_line feed ed t" "good t" "storage.truncate t = storage.truncate s"
    "kbd_items (keys t) @ pending t = c # cs" "kbd_items (keys t) \<noteq> []"
    using waits [OF assms] by blast
  then obtain xs where xs: "kbd_items (keys t) = c # xs" by (cases "kbd_items (keys t)") auto
  obtain k where k: "get_key (keys t) = (Some c, k)" "kbd_items k = xs"
    using get_key_items [OF good_wf [OF t(2)] xs] by (cases "get_key (keys t)") auto
  let ?t = "t\<lparr>keys := k\<rparr>"
  have "good ?t" "pending ?t = pending t" using take_good take_pending t(2,5) k(1) by (metis snd_conv)+
  moreover have "sh_line feed ed t = (case key_effect c ed of (fin, ed', e) \<Rightarrow>
        if fin then Some (ed', tty_out e ?t) else sh_line feed ed' (feed (tty_out e ?t)))"
    by (subst sh_line.simps) (simp add: k(1) sh_key_eq split: prod.split)
  ultimately show ?thesis using t k(2) xs by (intro exI [of _ ?t]) simp
qed

text \<open>The loop does what its keys do, one after the other, and returns when they end a line.\<close>

lemma sh_line_runs:
  assumes "good s" and "kbd_items (keys s) @ pending s = ks" and "keys_run ks ed = Some (ed', e, rest)"
  shows "\<exists>s'. sh_line feed ed s = Some (ed', s') \<and> good s' \<and> storage.truncate s' = tty_out e (storage.truncate s)
    \<and> kbd_items (keys s') @ pending s' = rest"
  using assms
proof (induction ks arbitrary: s ed ed' e)
  case (Cons c ks)
  obtain t where t: "sh_line feed ed s = (case key_effect c ed of (fin, ed', e) \<Rightarrow>
        if fin then Some (ed', tty_out e t) else sh_line feed ed' (feed (tty_out e t)))"
    "good t" "storage.truncate t = storage.truncate s" "kbd_items (keys t) @ pending t = ks"
    using takes_key [OF Cons.prems(1,2)] by blast
  obtain fin ed1 e1 where k: "key_effect c ed = (fin, ed1, e1)" by (cases "key_effect c ed") auto
  show ?case
  proof (cases fin)
    case True
    then show ?thesis using t k Cons.prems(3) by (auto simp: out_good out_pending)
  next
    case False
    then obtain e2 where e2: "keys_run ks ed1 = Some (ed', e2, rest)" "e = e1 @ e2" using k Cons.prems(3) by auto
    let ?u = "feed (tty_out e1 t)"
    have u: "good ?u" "kbd_items (keys ?u) @ pending ?u = ks" "storage.truncate ?u = tty_out e1 (storage.truncate s)"
      using t feed_good feed_keeps feed_frame by (simp_all add: out_good out_pending)
    from Cons.IH [OF u(1,2) e2(1)] show ?thesis using t(1) k False u(3) e2(2) by auto
  qed
qed simp

end

section \<open>The keyboard\<close>

text \<open>Scan codes waiting to be sent; each is one interrupt.\<close>

record 'd typed_system = "'d system" +
  scans :: "u8 list"

definition kbd_ports :: "u8 \<Rightarrow> u16 \<Rightarrow> u8" where
  "kbd_ports sc port = (if port = 0x64 then 1 else sc)"

definition send_scan :: "('d, 'a) typed_system_scheme \<Rightarrow> ('d, 'a) typed_system_scheme" where
  "send_scan s =
     (case scans s of [] \<Rightarrow> s
      | sc # r \<Rightarrow> s\<lparr>keys := keyboardirqh (kbd_ports sc) (keys s), scans := r\<rparr>)"

text \<open>The characters that scan codes stand for.\<close>

fun typed :: "kbd \<Rightarrow> u8 list \<Rightarrow> char list" where
  "typed k [] = []"
| "typed k (sc # r) = (case key_of (kbd_ports sc) k of None \<Rightarrow> [] | Some c \<Rightarrow> [c]) @ typed (keyboardirqh (kbd_ports sc) k) r"

definition typing_ok :: "('d, 'a) typed_system_scheme \<Rightarrow> bool" where
  "typing_ok s \<longleftrightarrow> kbd_wf (keys s) \<and> length (kbd_items (keys s) @ typed (keys s) (scans s)) \<le> 255"

lemma key_of_shift: "shift k = shift k' \<Longrightarrow> key_of inb k = key_of inb k'"
  by (simp add: key_of_def)

lemma handler_shift: "shift k = shift k' \<Longrightarrow> shift (keyboardirqh inb k) = shift (keyboardirqh inb k')"
  by (simp add: keyboardirqh_def kbd_put_def Let_def)

lemma typed_shift: "shift k = shift k' \<Longrightarrow> typed k r = typed k' r"
proof (induction r arbitrary: k k')
  case (Cons sc r)
  have "typed (keyboardirqh (kbd_ports sc) k) r = typed (keyboardirqh (kbd_ports sc) k') r"
    by (rule Cons.IH [OF handler_shift [OF Cons.prems]])
  then show ?case unfolding typed.simps key_of_shift [OF Cons.prems] by (rule arg_cong)
qed simp

lemma get_key_shift: "shift (snd (get_key k)) = shift k"
  by (simp add: get_key_def)

lemma NUL_notin_typed: "NUL \<notin> set (typed k r)"
  by (induction k r rule: typed.induct) (auto simp: key_of_def Let_def split: option.splits if_splits)

lemma send_scan_moves:
  assumes "typing_ok s"
  shows "kbd_wf (keys (send_scan s)) \<and>
    kbd_items (keys (send_scan s)) @ typed (keys (send_scan s)) (scans (send_scan s)) = kbd_items (keys s) @ typed (keys s) (scans s)"
proof (cases "scans s")
  case Nil
  then show ?thesis using assms by (simp add: send_scan_def typing_ok_def)
next
  case (Cons sc r)
  note sent = kbd_items_append [of "keys s" "kbd_ports sc"]
  have "kbd_wf (keys s)" and room: "length (kbd_items (keys s) @ typed (keys s) (sc # r)) \<le> 255"
    using assms Cons by (simp_all add: typing_ok_def)
  with sent show ?thesis
    by (cases "key_of (kbd_ports sc) (keys s)") (simp_all add: send_scan_def Cons)
qed

interpretation keyboard: typist send_scan "\<lambda>s. typed (keys s) (scans s)" "\<lambda>s. length (scans s)" typing_ok
proof
  fix s :: "('a, 'b) typed_system_scheme" and t
  show "typing_ok (send_scan s)" if "typing_ok s"
    using send_scan_moves [OF that] that by (metis typing_ok_def)
  show "kbd_wf (keys s)" if "typing_ok s" using that by (simp add: typing_ok_def)
  show "storage.truncate (send_scan s) = storage.truncate s"
    by (simp add: send_scan_def storage.truncate_def split: list.split)
  show "kbd_items (keys (send_scan s)) @ typed (keys (send_scan s)) (scans (send_scan s)) = kbd_items (keys s) @ typed (keys s) (scans s)"
    if "typing_ok s" using send_scan_moves [OF that] by (rule conjunct2)
  show "length (scans (send_scan s)) < length (scans s)" if "typed (keys s) (scans s) \<noteq> []"
    using that by (auto simp: send_scan_def split: list.split)
  assume items: "typing_ok s" "kbd_items (keys s) \<noteq> []"
  then obtain c cs where c: "kbd_items (keys s) = c # cs" by (cases "kbd_items (keys s)") auto
  have wf: "kbd_wf (keys s)" using items(1) by (simp add: typing_ok_def)
  show same: "typed (keys (s\<lparr>keys := snd (get_key (keys s))\<rparr>)) (scans (s\<lparr>keys := snd (get_key (keys s))\<rparr>)) = typed (keys s) (scans s)"
    using typed_shift [OF get_key_shift] by simp
  show "typing_ok (s\<lparr>keys := snd (get_key (keys s))\<rparr>)"
    using items(1) same get_key_wf [OF wf] get_key_items [OF wf c] c by (simp add: typing_ok_def)
qed (simp_all add: typing_ok_def tty_out_def)

end
