(* ===== verification/Shell.thy ===== *)
theory Shell
  imports Typing Vfs Uex Power_Ctl
begin

text \<open>
  \<open>kernel/core/shell.c\<close>: finding the command of a line and running it. \<open>chars\<close> is the array of
  128 characters; what lies outside the repository (the ports, the loaded program, the BIOS) and
  where the compiler puts the static data are the fields of \<open>shell_env\<close>.
\<close>

record ('d, 's) shell_env =
  disk :: "'d port_dev"
  program :: "u32 \<Rightarrow> u32 option \<Rightarrow> 's \<Rightarrow> 's option"
  bios :: "u16 \<Rightarrow> u16 \<Rightarrow> u16 \<Rightarrow> 's \<Rightarrow> bool \<times> 's"
  bios_cx :: u16
  cpu :: cpuid
  panic_regs :: cpu_regs
  superblock :: u32
  cat_buffer :: u32
  secbuf :: u32
  empty_string :: u32

definition MAX_CAT_SIZE :: u32 where "MAX_CAT_SIZE = 8192"

section \<open>Finding the command\<close>

datatype command = Version | Ls | Clear | Touch | Cat | Reboot | Shutdown | Exec | Help | Unknown | Blank

text \<open>The conditions of the \<open>if\<close> chain, in order.\<close>

definition commands :: "(string \<times> command) list" where
  "commands =
     [(''version'', Version), (''ls'', Ls), (''clear'', Clear), (''touch'', Touch), (''cat'', Cat),
      (''reboot'', Reboot), (''shutdown'', Shutdown), (''exec'', Exec), (''help'', Help)]"

text \<open>
  \<open>strcmp(strtok(chars, " "), name) == 0\<close>. As every call passes an array, the pointer \<open>strtok\<close>
  keeps between calls is never used.
\<close>

definition CMD_COMP :: "string \<Rightarrow> string \<Rightarrow> (bool \<times> string) option" where
  "CMD_COMP name chars =
     do { (p, chars, _) \<leftarrow> strtok chars (Some 0) ('' '' @ [NUL]) None;
          p \<leftarrow> p;
          r \<leftarrow> strcmp (drop p chars) (name @ [NUL]);
          Some (r = 0, chars) }"

primrec find_command :: "(string \<times> command) list \<Rightarrow> string \<Rightarrow> (command \<times> string) option" where
  "find_command [] chars = Some (if chars ! 0 \<noteq> NUL then Unknown else Blank, chars)"
| "find_command (nc # ncs) chars =
     do { (hit, chars) \<leftarrow> CMD_COMP (fst nc) chars;
          if hit then Some (snd nc, chars) else find_command ncs chars }"

section \<open>Running it\<close>

text \<open>\<open>puts\<close> of an array: \<open>None\<close> when the array has no end.\<close>

definition puts_array :: "string \<Rightarrow> 'a kernel_scheme \<Rightarrow> 'a kernel_scheme option" where
  "puts_array b s = (if terminated b then Some (snd (puts (cstr b) s)) else None)"

fun ls_loop :: "u32 \<Rightarrow> nat \<Rightarrow> nat \<Rightarrow> 'a kernel_scheme \<Rightarrow> 'a kernel_scheme option" where
  "ls_loop sb j 0 s = Some s"
| "ls_loop sb j (Suc n) s =
     do { s \<leftarrow> puts_array (name_at sb (mem s) j) s;
          ls_loop sb (j + 1) n (snd (putc NL s)) }"

definition sh_ls :: "u32 \<Rightarrow> 'a kernel_scheme \<Rightarrow> 'a kernel_scheme option" where
  "sh_ls sb s = ls_loop sb 0 (unat (file_count sb (mem s))) s"

text \<open>The argument of \<open>cat\<close> is \<open>chars + 4\<close>; the unused \<open>rounded_size\<close> is left out.\<close>

definition sh_cat ::
    "'d port_dev \<Rightarrow> u32 \<Rightarrow> u32 \<Rightarrow> string \<Rightarrow> ('d, 'a) storage_scheme \<Rightarrow> ('d, 'a) storage_scheme option" where
  "sh_cat D sb buf chars s =
     do { p \<leftarrow> kfs_find sb (drop 4 chars) s;
          case p of
            None \<Rightarrow> Some (snd (printf (''cat: %s: not found'' @ [NL]) [VStr (cstr (drop 4 chars))] s))
          | Some f \<Rightarrow>
              if file_size (mem s) f > MAX_CAT_SIZE
              then Some (snd (printf (''cat: file too large (max %d bytes)'' @ [NL]) [VWord MAX_CAT_SIZE] s))
              else do { (r, s) \<leftarrow> kfs_read D sb (name_from sb (mem s) f) buf s;
                        if r < 0 then Some (snd (puts (''kfs: ioerr'' @ [NL]) s))
                        else (let s = fold (\<lambda>j s. snd (putc (char_of_byte (mem s (buf + of_nat j))) s)) [0..<unat (file_size (mem s) f)] s
                              in Some (snd (putc NL s))) } }"

definition help_text :: string where
  "help_text =
     ''Available commands:'' @ [NL] @
     '' version      - show kernel version'' @ [NL] @
     '' ls           - list files in kfs'' @ [NL] @
     '' cat <file>   - display file contents'' @ [NL] @
     '' exec <file>  - execute UEX file'' @ [NL] @
     '' clear        - clear the screen'' @ [NL] @
     '' help         - show this help message'' @ [NL] @
     '' touch <file> - create an empty file'' @ [NL] @
     '' reboot       - reboot the system'' @ [NL] @
     '' shutdown     - power off the system'' @ [NL]"

definition run_command ::
    "('d, ('d, 'a) storage_scheme) shell_env \<Rightarrow> command \<Rightarrow> string \<Rightarrow> ('d, 'a) storage_scheme \<Rightarrow> ('d, 'a) storage_scheme option" where
  "run_command E c chars s =
     (case c of
        Version \<Rightarrow> Some (snd (putc NL (snd (puts infoKernelVersion s))))
      | Ls \<Rightarrow> sh_ls (superblock E) s
      | Clear \<Rightarrow> Some (snd (clear s))
      | Touch \<Rightarrow> map_option snd (kfs_write (disk E) (superblock E) (drop 6 chars) (empty_string E) 0 s)
      | Cat \<Rightarrow> sh_cat (disk E) (superblock E) (cat_buffer E) chars s
      | Reboot \<Rightarrow> Some (reboot s)
      | Shutdown \<Rightarrow> Some (shutdown (bios E) (bios_cx E) (cpu E) (panic_regs E) s)
      | Exec \<Rightarrow>
          do { (r, s) \<leftarrow> exec_file (disk E) (program E) (superblock E) (secbuf E) (drop 5 chars) s;
               Some (if r = ERR_FORMAT then snd (puts (''exec: format error'' @ [NL]) s) else s) }
      | Help \<Rightarrow> Some (snd (puts help_text s))
      | Unknown \<Rightarrow> Some (snd (printf (''%s: command not found'' @ [NL]) [VStr (cstr chars)] s))
      | Blank \<Rightarrow> Some s)"

text \<open>One turn of the endless loop of \<open>sh\<close>, and \<open>n\<close> of them.\<close>

definition sh_turn ::
    "('d, ('d, 'a) system_scheme) shell_env \<Rightarrow> (('d, 'a) system_scheme \<Rightarrow> ('d, 'a) system_scheme) \<Rightarrow>
     ('d, 'a) system_scheme \<Rightarrow> ('d, 'a) system_scheme option" where
  "sh_turn E feed s =
     (let s = snd (puts ''> '' s);
          chars = replicate 128 NUL
      in do { ((chars, i), s) \<leftarrow> sh_line feed (chars, 0) s;
              (c, chars) \<leftarrow> find_command commands chars;
              run_command E c chars s })"

primrec sh ::
    "('d, ('d, 'a) system_scheme) shell_env \<Rightarrow> (('d, 'a) system_scheme \<Rightarrow> ('d, 'a) system_scheme) \<Rightarrow>
     nat \<Rightarrow> ('d, 'a) system_scheme \<Rightarrow> ('d, 'a) system_scheme option" where
  "sh E feed 0 s = Some s"
| "sh E feed (Suc n) s = do { s \<leftarrow> sh_turn E feed s; sh E feed n s }"

section \<open>Which command a line is\<close>

text \<open>
  The word a line starts with. An array holding a line is cut after it: the array then holds the
  word, and behind its end the rest of the line.
\<close>

abbreviation first_word :: "string \<Rightarrow> string" where
  "first_word t \<equiv> token ('' '' @ [NUL]) t"

definition command_of :: "string \<Rightarrow> command" where
  "command_of w = (case map_of commands w of Some c \<Rightarrow> c | None \<Rightarrow> if w \<noteq> [] then Unknown else Blank)"

lemma CMD_COMP_word:
  assumes "NUL \<notin> set name"
  shows "CMD_COMP name (first_word t @ NUL # r) = Some (first_word t = name, first_word t @ NUL # r)"
proof -
  have "strcmp (first_word t @ NUL # r) (name @ [NUL]) = Some x \<Longrightarrow> (x = 0) = (first_word t = name)" for x
    using strcmp_spec [of "first_word t @ NUL # r" "name @ [NUL]"] assms by (auto simp: cstr_token cstr_append_NUL)
  moreover obtain x where "strcmp (first_word t @ NUL # r) (name @ [NUL]) = Some x"
    using strcmp_defined [of "first_word t @ NUL # r" "name @ [NUL]"] by auto
  moreover have "strtok (first_word t @ NUL # r) (Some 0) ('' '' @ [NUL]) None = Some (Some 0, first_word t @ NUL # r, None)"
    by (rule strtok_again) simp
  ultimately show ?thesis by (simp add: CMD_COMP_def)
qed

lemma find_command_word:
  assumes "\<forall>nc \<in> set ncs. NUL \<notin> set (fst nc)"
  shows "find_command ncs (first_word t @ NUL # r) =
    Some (case map_of ncs (first_word t) of Some c \<Rightarrow> c | None \<Rightarrow> if first_word t \<noteq> [] then Unknown else Blank, first_word t @ NUL # r)"
  using assms
proof (induction ncs)
  case Nil
  have "(first_word t @ NUL # r) ! 0 \<noteq> NUL \<longleftrightarrow> first_word t \<noteq> []"
    using NUL_notin_token [of "'' '' @ [NUL]" t] by (cases "first_word t") (auto simp del: takeWhile.simps takeWhile_eq_Nil_iff)
  then show ?case by simp
next
  case (Cons nc ncs)
  then show ?case using CMD_COMP_word [of "fst nc" t r] by (cases nc) auto
qed

lemma CMD_COMP_first:
  assumes "terminated chars"
  shows "\<exists>r. (\<exists>d. chars = first_word chars @ d # r) \<and> (\<forall>name. NUL \<notin> set name \<longrightarrow>
    CMD_COMP name chars = CMD_COMP name (first_word chars @ NUL # r))"
proof -
  obtain r nx where r: "strtok chars (Some 0) ('' '' @ [NUL]) None = Some (Some 0, first_word chars @ NUL # r, nx)"
    "\<exists>d. chars = first_word chars @ d # r"
    using strtok_first [OF assms, of "'' '' @ [NUL]" None] by auto
  have "strtok (first_word chars @ NUL # r) (Some 0) ('' '' @ [NUL]) None = Some (Some 0, first_word chars @ NUL # r, None)"
    by (rule strtok_again) simp
  then have "CMD_COMP name chars = CMD_COMP name (first_word chars @ NUL # r)" for name
    using r(1) by (simp add: CMD_COMP_def)
  then show ?thesis using r(2) by blast
qed

lemma commands_words: "\<forall>nc \<in> set commands. NUL \<notin> set (fst nc)"
  by (simp add: commands_def)

lemma find_command_eq:
  assumes "terminated chars"
  shows "\<exists>r. find_command commands chars = Some (command_of (first_word chars), first_word chars @ NUL # r)
    \<and> (\<exists>d. chars = first_word chars @ d # r)"
proof -
  obtain r where r: "\<exists>d. chars = first_word chars @ d # r"
    "\<forall>name. NUL \<notin> set name \<longrightarrow> CMD_COMP name chars = CMD_COMP name (first_word chars @ NUL # r)"
    using CMD_COMP_first [OF assms] by blast
  have "find_command commands chars = find_command commands (first_word chars @ NUL # r)"
    using r(2) by (simp add: commands_def)
  also have "\<dots> = Some (command_of (first_word chars), first_word chars @ NUL # r)"
    using find_command_word [OF commands_words, of chars r] by (simp only: command_of_def)
  finally show ?thesis using r(1) by blast
qed

end
