(* ===== verification/Image.thy ===== *)
theory Image
  imports Statics Interrupts
begin

text \<open>
  The interrupt descriptor table as the processor finds it in memory: 256 entries of eight bytes
  (\<open>idt_entry_t\<close>, packed), and the address of each.
\<close>

definition gate_bytes :: "idt_entry \<Rightarrow> u8 list" where
  "gate_bytes e = bytes_of 2 (unat (offset_low e)) @ bytes_of 2 (unat (selector e)) @ bytes_of 1 (unat (zero_byte e))
     @ bytes_of 1 (unat (type_attr e)) @ bytes_of 2 (unat (offset_high e))"

definition entry_of :: "u8 list \<Rightarrow> idt_entry" where
  "entry_of bs =
     \<lparr>offset_low = of_nat (value_of (take 2 bs)), selector = of_nat (value_of (take 2 (drop 2 bs))),
      zero_byte = of_nat (value_of (take 1 (drop 4 bs))), type_attr = of_nat (value_of (take 1 (drop 5 bs))),
      offset_high = of_nat (value_of (take 2 (drop 6 bs)))\<rparr>"

definition gate_at :: "symbols \<Rightarrow> nat \<Rightarrow> u32" where
  "gate_at y n = idt_symbol y + of_nat (8 * n)"

text \<open>The table's entries as variables, and the table read back.\<close>

definition idt_variables :: "symbols \<Rightarrow> idt_entry list \<Rightarrow> variable list" where
  "idt_variables y t = map (\<lambda>n. (gate_at y n, gate_bytes (t ! n))) [0..<length t]"

definition load_idt :: "symbols \<Rightarrow> memory \<Rightarrow> idt_entry list" where
  "load_idt y m = map (\<lambda>n. entry_of (peek m (gate_at y n) 8)) [0..<IDT_SIZE]"

lemma length_gate_bytes [simp]: "length (gate_bytes e) = 8"
  by (simp add: gate_bytes_def)

lemma entry_of_gate_bytes [simp]: "entry_of (gate_bytes e) = e"
proof -
  have w: "unat x < 256 ^ 2" for x :: u16 using unsigned_less [of x, where ?'a = nat] by simp
  have b: "unat x < 256 ^ 1" for x :: u8 using unsigned_less [of x, where ?'a = nat] by simp
  have "of_nat (unat x mod 256) = x" for x :: u8 using b [of x] by simp
  then show ?thesis by (simp add: entry_of_def gate_bytes_def value_bytes [OF w])
qed

lemma load_idt_nth: "n < 256 \<Longrightarrow> load_idt y m ! n = entry_of (peek m (gate_at y n) 8)"
  by (simp add: load_idt_def IDT_SIZE_def)

lemma gate_region: "n < 256 \<Longrightarrow> region (gate_at y n) 8 \<subseteq> region (idt_symbol y) 2048"
  using region_offset [of "idt_symbol y" "8 * n" 8] region_mono [of "8 * n + 8" 2048 "idt_symbol y"]
  unfolding gate_at_def by simp

lemma gates_apart: "n < k \<Longrightarrow> k < 256 \<Longrightarrow> region (gate_at y n) 8 \<inter> region (gate_at y k) 8 = {}"
proof (rule ccontr)
  assume nk: "n < k" "k < 256" and "region (gate_at y n) 8 \<inter> region (gate_at y k) 8 \<noteq> {}"
  then obtain i j where "i < 8" "j < 8" "idt_symbol y + of_nat (8 * n + i) = idt_symbol y + of_nat (8 * k + j)"
    by (auto simp: region_def gate_at_def add.assoc)
  moreover from this nk have "8 * n + i = 8 * k + j" by (subst offset_eq_iff [symmetric]) auto
  ultimately show False using nk by presburger
qed

lemma idt_apart: "length t \<le> 256 \<Longrightarrow> apart (idt_variables y t)"
  by (auto simp: apart_def idt_variables_def extent_def sorted_wrt_iff_nth_less gates_apart)

lemma idt_extents: "v \<in> set (idt_variables y t) \<Longrightarrow> length t \<le> 256 \<Longrightarrow> extent v \<subseteq> region (idt_symbol y) 2048"
proof -
  assume "v \<in> set (idt_variables y t)" "length t \<le> 256"
  moreover from this obtain n where "n < length t" "v = (gate_at y n, gate_bytes (t ! n))" by (auto simp: idt_variables_def)
  ultimately show ?thesis using gate_region [of n y] by (simp add: extent_def)
qed

end
