(* ===== verification/Init.thy ===== *)
theory Init
  imports Shell E820 Lib_Misc Tty Image Pci Sched
begin

text \<open>
  \<open>kernel/core/init.c\<close> and \<open>kernel/core/entry.s\<close>: \<open>kmain\<close> brings the components up in order and
  hands over to the scheduler; the two demonstration tasks. The state is the one of the shell with
  the fields of the interrupt and terminal components and the configuration space of the PCI bus;
  \<open>on_int\<close> and \<open>on_tty\<close> run an operation of those components on its part of the state. Mounting
  reads 512 bytes over the 328-byte superblock, so the variables linked behind it are stored to
  memory before and fetched after (\<open>spill\<close>, \<open>fetch\<close>).
\<close>

section \<open>The whole state\<close>

record ('d, 'c) machine_state = "'d system" +
  int_fields :: "unit int_state_ext"
  tty_fields :: "unit tty_state_ext fb_state_ext"
  config :: 'c

definition on_int :: "(int_state \<Rightarrow> int_state) \<Rightarrow> ('d, 'c, 'a) machine_state_scheme \<Rightarrow> ('d, 'c, 'a) machine_state_scheme" where
  "on_int f s =
     (let t = f ((kernel.extend (kernel.truncate s) (int_fields s))\<lparr>keyboard := keys s\<rparr>)
      in s\<lparr>mem := mem t, con := con t, ports := ports t, ticks := ticks t, halted := halted t, stuck := stuck t,
           keys := keyboard t, int_fields := kernel.more t\<rparr>)"

text \<open>The interrupt component's part of the state.\<close>

definition ints :: "('d, 'c, 'a) machine_state_scheme \<Rightarrow> int_state" where
  "ints s = kernel.extend (kernel.truncate s) (int_fields s)"

definition on_tty :: "(tty_state \<Rightarrow> tty_state) \<Rightarrow> ('d, 'c, 'a) machine_state_scheme \<Rightarrow> ('d, 'c, 'a) machine_state_scheme" where
  "on_tty f s =
     (let t = f (kernel.extend (kernel.truncate s) (tty_fields s))
      in s\<lparr>mem := mem t, con := con t, ports := ports t, ticks := ticks t, halted := halted t, stuck := stuck t,
           tty_fields := kernel.more t\<rparr>)"

section \<open>kmain\<close>

text \<open>
  What \<open>kmain\<close> is linked against or finds: the argument of \<open>kmain\<close>, the first values of the mask
  ports, addresses, the PCI ports, what the array \<open>pcis\<close> on the stack held before. The addresses
  include those of the variables in the files linked behind \<open>kfs.c\<close>.
\<close>

record ('d, 'c) boot_env =
  vbe :: u32
  mask_ports :: "u16 \<Rightarrow> u8"
  stubs :: symbols
  boot_cpu :: cpuid
  boot_regs :: cpu_regs
  bus :: "'c pci_bus"
  pcis :: "pci_Out list"
  boot_disk :: "'d port_dev"
  boot_superblock :: u32
  ptable :: u32
  task1_entry :: u32
  sh_entry :: u32
  ticks_at :: u32
  idt_ptr_at :: u32
  pmm_vars :: pmm_layout

definition buildDate :: string where "buildDate = ''10/23/2025''"

text \<open>The loop over the 1024 entries, those included that \<open>pciEnumerate\<close> did not fill.\<close>

definition pci_line :: "nat \<Rightarrow> pci_Out \<Rightarrow> 'a kernel_scheme \<Rightarrow> 'a kernel_scheme" where
  "pci_line i p s =
     (if vendor (pci p) \<noteq> 0
      then snd (printf (''device %d   bus: %d dev: %d func: %d   vendor: %x device: %x'' @ [NL])
             [VWord (of_nat i), VWord (ucast (out_bus p)), VWord (ucast (out_dev p)), VWord (ucast (out_func p)),
              VWord (ucast (vendor (pci p))), VWord (ucast (device (pci p)))] (klog ''PCI '' s))
      else s)"

definition pci_list :: "pci_Out list \<Rightarrow> 'a kernel_scheme \<Rightarrow> 'a kernel_scheme" where
  "pci_list ps s = fold (\<lambda>i. pci_line i (ps ! i)) [0..<1024] s"

definition banner :: "'a kernel_scheme \<Rightarrow> 'a kernel_scheme" where
  "banner s =
     (let s = tty_out [NL] s;
          s = klog '' - system44 v'' s;
          s = snd (puts infoKernelVersion s);
          s = snd (puts '' ('' s);
          s = snd (puts buildDate s)
      in snd (puts ('') -'' @ [NL]) s))"

text \<open>
  The variables of \<open>interrupts.c\<close> (the table, its pointer \<open>idt_ptr\<close> and the tick counter) and of
  \<open>pmm.c\<close>: their bytes, the state with them stored to memory, and with their values taken from it.
\<close>

definition kernel_variables :: "('d, 'c) boot_env \<Rightarrow> ('d, 'c, 'a) machine_state_scheme \<Rightarrow> variable list" where
  "kernel_variables E s =
     (ticks_at E, bytes_of 4 (unat (ticks s)))
     # (idt_ptr_at E, bytes_of 2 (unat (idt_limit (ints s))) @ bytes_of 4 (unat (idt_base (ints s))))
     # pmm_variables (pmm_vars E) s @ idt_variables (stubs E) (idt (ints s))"

definition spill :: "('d, 'c) boot_env \<Rightarrow> ('d, 'c, 'a) machine_state_scheme \<Rightarrow> ('d, 'c, 'a) machine_state_scheme" where
  "spill E s = s\<lparr>mem := store_vars (kernel_variables E s) (mem s)\<rparr>"

definition fetch_ints :: "('d, 'c) boot_env \<Rightarrow> memory \<Rightarrow> int_state \<Rightarrow> int_state" where
  "fetch_ints E m t =
     t\<lparr>idt := load_idt (stubs E) m, idt_limit := of_nat (value_of (peek m (idt_ptr_at E) 2)),
       idt_base := of_nat (value_of (peek m (idt_ptr_at E + 2) 4))\<rparr>"

definition fetch :: "('d, 'c) boot_env \<Rightarrow> ('d, 'c, 'a) machine_state_scheme \<Rightarrow> ('d, 'c, 'a) machine_state_scheme" where
  "fetch E s = load_pmm (pmm_vars E) (s\<lparr>ticks := of_nat (value_of (peek (mem s) (ticks_at E) 4)),
     int_fields := kernel.more (fetch_ints E (mem s) (ints s))\<rparr>)"

text \<open>
  Up to \<open>m_scheduler\<close>, which does not return; \<open>None\<close> when the disk keeps the kernel waiting. A
  failed \<open>kfs_mount\<close> panics and \<open>kmain\<close> goes no further.
\<close>

definition kmain :: "('d, 'c) boot_env \<Rightarrow> ('d, 'c, 'a) machine_state_scheme \<Rightarrow> ('d, 'c, 'a) machine_state_scheme option" where
  "kmain E s =
     (let s = on_tty (tty_init (vbe E)) s;
          s = banner s;
          s = pitsetfreq 1000 s;
          s = on_int (int_init (mask_ports E) (stubs E)) s;
          s = klog ''cpu: '' s;
          s = cpuident (boot_cpu E) s;
          s = mmp s;
          s = pmm_init s;
          (found, c) = pciEnumerate (bus E) (config s);
          s = s\<lparr>config := c\<rparr>;
          s = pci_list (found @ drop (length found) (pcis E)) s
      in do { (_, s) \<leftarrow> kfs_mount (boot_disk E) (boot_cpu E) (boot_regs E) (boot_superblock E) (spill E s);
              let s = fetch E s;
              Some (if halted s then s
                    else (let s = sched_init (ptable E) s;
                              s = snd (task_l_spawn (ptable E) (task1_entry E) s)
                          in snd (task_l_spawn (ptable E) (sh_entry E) s))) })"

section \<open>The demonstration tasks\<close>

definition task_round :: "string \<Rightarrow> (nat \<Rightarrow> u32) \<Rightarrow> nat \<Rightarrow> 'a fb_state_scheme \<Rightarrow> (nat \<times> 'a fb_state_scheme) option" where
  "task_round label obs n s =
     (let mid = SCREEN_WIDTH div 2;
          s = fbcstr mid mid [BS] 0x000000 FONT_BASIC8X8 s;
          s = fbcstr (mid - of_nat (16 * CHAR_W)) mid label 0xFFFFFF FONT_BASIC8X8 s;
          s = fbcstr mid mid [char_of (48 + n)] 0xFFFFFF FONT_BASIC8X8 s
      in do { _ \<leftarrow> usleep obs 100; Some ((n + 1) mod 10, s) })"

definition task1 :: "(nat \<Rightarrow> u32) \<Rightarrow> nat \<Rightarrow> 'a fb_state_scheme \<Rightarrow> (nat \<times> 'a fb_state_scheme) option" where
  "task1 obs n s = task_round ''TASK 1 Counter:'' obs n s"

definition task2 :: "(nat \<Rightarrow> u32) \<Rightarrow> nat \<Rightarrow> 'a fb_state_scheme \<Rightarrow> (nat \<times> 'a fb_state_scheme) option" where
  "task2 obs n s = task_round ''TASK 2 Counter:'' obs n s"

end
