(* ===== verification/Shell_Props.thy ===== *)
theory Shell_Props
  imports Shell
begin

text \<open>
  Properties of the shell: what a typed line becomes, which command it runs, and a whole turn from
  the scan codes of the keyboard to the text of a file on the screen.
\<close>

section \<open>A typed line\<close>

lemma truncate_fields:
  assumes "storage.truncate t = tty_out e (storage.truncate s)"
  shows "mem t = mem s" "dev t = dev s" "con t = con s @ map Out e" "halted t = halted s" "stuck t = stuck s"
  using arg_cong [OF assms, of mem] arg_cong [OF assms, of dev] arg_cong [OF assms, of con]
    arg_cong [OF assms, of halted] arg_cong [OF assms, of stuck]
  by (simp_all add: storage.truncate_def tty_out_def)

lemma typed_line:
  assumes "typing_ok s" and "kbd_items (keys s) @ typed (keys s) (scans s) = ks @ NL # rest"
    and "fits [] ks" and "NL \<notin> set ks" and "NUL \<notin> set (edited ks)"
  shows "\<exists>chars s'. sh_line send_scan (replicate 128 NUL, 0) s = Some ((chars, Suc (length (edited ks))), s')
    \<and> cstr chars = edited ks \<and> length chars = 128 \<and> typing_ok s' \<and> storage.truncate s' = tty_out (echo [] ks @ [NL]) (storage.truncate s)
    \<and> kbd_items (keys s') @ typed (keys s') (scans s') = rest"
proof -
  obtain chars where chars: "keys_run (ks @ NL # rest) (replicate 128 NUL, 0) = Some ((chars, Suc (length (edited ks))), echo [] ks @ [NL], rest)"
    "cstr chars = edited ks" "length chars = 128"
    using keys_run_line [OF holds_start assms(3,4), of rest] assms(5) by (auto simp: edited_def)
  from keyboard.sh_line_runs [OF assms(1,2) chars(1)] chars(2,3) show ?thesis by auto
qed

lemma plain_keys:
  "BS \<notin> set ks \<Longrightarrow> fold edit_key ks t = t @ ks \<and> echo t ks = ks \<and> (length t + length ks < 127 \<longrightarrow> fits t ks)"
  by (induction ks arbitrary: t) (auto simp: edit_key_def)

text \<open>Typing on an array of zeros, then going back over \<open>k\<close> characters.\<close>

lemma keys_run_plain:
  "BS \<notin> set ks \<Longrightarrow> NL \<notin> set ks \<Longrightarrow> length t + length ks \<le> 127 \<Longrightarrow>
   keys_run (ks @ ms) (t @ replicate (128 - length t) NUL, length t)
   = map_option (\<lambda>(ed, e, rest). (ed, ks @ e, rest)) (keys_run ms ((t @ ks) @ replicate (128 - length (t @ ks)) NUL, length (t @ ks)))"
proof (induction ks arbitrary: t)
  case Nil
  then show ?case by (simp add: option.map_ident_strong split: prod.split)
next
  case (Cons c ks)
  have "replicate (128 - length t) NUL = NUL # replicate (128 - Suc (length t)) NUL"
    using Cons.prems by (simp add: Suc_diff_le Suc_diff_Suc flip: replicate_Suc)
  then have "key_effect c (t @ replicate (128 - length t) NUL, length t) = (False, ((t @ [c]) @ replicate (128 - length (t @ [c])) NUL, length (t @ [c])), [c])"
    using Cons.prems by (auto simp: key_effect_def)
  then show ?case using Cons.IH [of "t @ [c]"] Cons.prems
    by (simp add: option.map_comp comp_def split_def)
qed

lemma keys_run_back:
  "k \<le> i \<Longrightarrow> keys_run (replicate k BS @ ms) (chars, i)
   = map_option (\<lambda>(ed, e, rest). (ed, replicate k BS @ e, rest)) (keys_run ms (chars, i - k))"
proof (induction k arbitrary: i)
  case 0
  then show ?case by (simp add: option.map_ident_strong split: prod.split)
next
  case (Suc k)
  then show ?case by (cases i) (simp_all add: key_effect_def option.map_comp comp_def split_def)
qed

section \<open>The command of a line\<close>

lemma first_word_cut:
  assumes "CHR '' '' \<notin> set w" and "NUL \<notin> set w" and "c = CHR '' '' \<or> c = NUL"
  shows "first_word (w @ c # r) = w"
  using assms by (induction w) (auto simp: is_delim_def)

lemma find_command_cut:
  assumes "terminated (w @ c # r)" and "CHR '' '' \<notin> set w" and "NUL \<notin> set w" and "c = CHR '' '' \<or> c = NUL"
  shows "find_command commands (w @ c # r) = Some (command_of w, w @ NUL # r)"
  using find_command_eq [OF assms(1)] first_word_cut [OF assms(2-4)] by auto

text \<open>The array of a line made of a word, a space and an argument.\<close>

lemma line_split:
  assumes "cstr chars = w @ CHR '' '' # arg" and "length (w @ CHR '' '' # arg) < length chars"
  obtains r where "chars = w @ CHR '' '' # r" "cstr r = arg" "terminated r"
proof -
  obtain r where r: "chars = (w @ [CHR '' '']) @ r"
    using assms(1) cstr_take [of chars] append_take_drop_id [of "length (cstr chars)" chars] by (metis append.assoc append_Cons append_Nil)
  have notin: "NUL \<notin> set w" using NUL_notin_cstr [of chars] assms(1) by simp
  then have shape: "cstr ((w @ [CHR '' '']) @ u) = (w @ [CHR '' '']) @ cstr u" for u
    by (induction w) auto
  then have arg: "cstr r = arg" using assms(1) r shape by simp
  have "terminated r"
  proof (rule ccontr)
    assume "\<not> terminated r"
    then have "cstr r = r" by (simp add: cstr_def terminated_def takeWhile_eq_all_conv) metis
    then show False using assms(2) r arg by simp
  qed
  then show thesis using that r arg by simp
qed

section \<open>cat\<close>

lemma putc_loop:
  "fold (\<lambda>j s. tty_out [char_of_byte (mem s (buf + of_nat j))] s) [0..<n] s = tty_out (map char_of_byte (peek (mem s) buf n)) s"
proof (induction n)
  case (Suc n)
  then show ?case by (simp add: peek_def)
qed (simp add: peek_def)

lemma found_entry:
  assumes "kfs_wf sb (mem s)" and "terminated name" and "kfs_find sb name s = Some (Some f)"
  obtains i where "i < 8" "f = file_at sb i" "kfs_find sb (name_from sb (mem s) f) s = Some (Some f)"
proof -
  obtain i where i: "List.find (\<lambda>j. file_name sb (mem s) j = cstr name) [0..<unat (file_count sb (mem s))] = Some i" "f = file_at sb i"
    using kfs_find_eq [OF assms(1,2)] assms(3)
    by (cases "List.find (\<lambda>j. file_name sb (mem s) j = cstr name) [0..<unat (file_count sb (mem s))]") auto
  then have "i < unat (file_count sb (mem s))" "file_name sb (mem s) i = cstr name" unfolding find_upt_Some by blast+
  then have i8: "i < 8" "terminated (raw_name sb (mem s) i)" using assms(1) by (auto simp: kfs_wf_def)
  note nm = name_at_text [OF i8]
  have "kfs_find sb (name_from sb (mem s) f) s = kfs_find sb name s"
    using kfs_find_cong [OF assms(1) nm(1) assms(2)] nm(2) name_from_entry [OF i8(1)] i(2) \<open>file_name sb (mem s) i = cstr name\<close> by simp
  then show thesis using that i8(1) i(2) assms(3) by simp
qed

lemma sh_cat_shows:
  assumes "ata_ready D view lag cap (dev s)" and "kfs_wf sb (mem s)" and "terminated (drop 4 chars)"
    and "kfs_find sb (drop 4 chars) s = Some (Some f)" and "n = unat (file_size (mem s) f)" and "0 < n" and "n \<le> 8192"
    and "k = unat (sectors_of (file_size (mem s) f))" and "l = unat (start_lba (mem s) f)" and "l + k \<le> cap"
    and "region sb 328 \<inter> region buf (512 * k) = {}"
  shows "\<exists>m d. sh_cat D sb buf chars s = Some (tty_out (map char_of_byte (take n (ata.contents view (dev s) l k)) @ [NL]) (s\<lparr>mem := m, dev := d\<rparr>))
    \<and> ata_ready D view lag cap d \<and> {a. m a \<noteq> mem s a} \<subseteq> region buf (512 * k)"
proof -
  obtain i where i: "i < 8" "f = file_at sb i" and self: "kfs_find sb (name_from sb (mem s) f) s = Some (Some f)"
    by (rule found_entry [OF assms(2-4)])
  have "unat (file_size (mem s) f + 511) = n + 511"
    using assms(5,7) by (simp add: unat_word_ariths)
  then have k: "k = (n + 511) div 512" using assms(8) by (simp add: sectors_of_def unat_div)
  then have kb: "0 < k" "k < 256" "n \<le> 512 * k" using assms(6,7) by linarith+
  let ?m = "poke buf (ata.contents view (dev s) l k) (mem s)"
  obtain d where d: "kfs_read D sb (name_from sb (mem s) f) buf s = Some (int k, s\<lparr>mem := ?m, dev := d\<rparr>)" "ata_ready D view lag cap d"
    using kfs_read_ready [OF refl assms(1) self assms(8) kb(1,2)] assms(9,10) by auto
  have len: "length (ata.contents view (dev s) l k) = 512 * k" using ata.length_contents [OF assms(1,10)] .
  have "mem s x = ?m x" if "x \<in> region sb 328" for x
    using that assms(11) len by (simp add: poke_outside disjoint_iff)
  moreover have "f + 36 + of_nat j \<in> region sb 328" if "j < 4" for j
  proof -
    have "f + 36 + of_nat j = sb + of_nat (44 + 40 * i + j)" using i by (simp add: file_at_def algebra_simps)
    moreover have "sb + of_nat (44 + 40 * i + j) \<in> region sb 328" using that i(1) by (intro region_memberI) simp
    ultimately show ?thesis by (simp only:)
  qed
  ultimately have "file_size ?m f = file_size (mem s) f"
    unfolding file_size_def by (intro ld32_cong ballI) (auto simp: region_def)
  moreover have "peek ?m buf n = take n (ata.contents view (dev s) l k)"
    using peek_nested [of 0 n "ata.contents view (dev s) l k" buf "mem s"] len kb by simp
  moreover have "\<not> file_size (mem s) f > MAX_CAT_SIZE"
    using assms(5,7) by (simp add: MAX_CAT_SIZE_def word_less_nat_alt)
  moreover have frame: "{a. ?m a \<noteq> mem s a} \<subseteq> region buf (512 * k)"
    using poke_outside [of _ buf "ata.contents view (dev s) l k" "mem s"] len by auto
  ultimately have "sh_cat D sb buf chars s = Some (tty_out (map char_of_byte (take n (ata.contents view (dev s) l k)) @ [NL]) (s\<lparr>mem := ?m, dev := d\<rparr>))"
    using assms(4,5) d(1) by (simp add: sh_cat_def putc_loop putc_def)
  then show ?thesis using d(2) frame by blast
qed

section \<open>Bounds\<close>

text \<open>Before each key: the array of 128 ends in NUL and \<open>i\<close> is below its end.\<close>

definition in_array :: "string \<times> nat \<Rightarrow> bool" where
  "in_array ed \<longleftrightarrow> length (fst ed) = 128 \<and> snd ed \<le> 127 \<and> fst ed ! 127 = NUL"

lemma key_in_array:
  assumes "in_array ed" and "key_effect c ed = (fin, ed', e)"
  shows "if fin then length (fst ed') = 128 \<and> terminated (fst ed') \<and> snd ed' \<le> 127 else in_array ed'"
proof -
  obtain chars i where ed: "ed = (chars, i)" by fastforce
  have "terminated (chars[i := NUL])"
    using assms(1) ed by (simp add: in_array_def terminated_def set_update_memI)
  then show ?thesis using assms ed by (auto simp: in_array_def key_effect_def split: if_splits)
qed

lemma sh_line_keeps:
  assumes "sh_line feed ed s = Some r"
  shows "in_array ed \<longrightarrow> length (fst (fst r)) = 128 \<and> terminated (fst (fst r)) \<and> snd (fst r) \<le> 127"
proof (rule sh_line.raw_induct [where P = "\<lambda>feed ed s r. in_array ed \<longrightarrow> length (fst (fst r)) = 128 \<and> terminated (fst (fst r)) \<and> snd (fst r) \<le> 127", OF _ assms])
  fix f and feed :: "('a, 'b) system_scheme \<Rightarrow> ('a, 'b) system_scheme" and ed s r
  assume IH: "\<And>feed ed s r. f feed ed s = Some r \<Longrightarrow> in_array ed \<longrightarrow> length (fst (fst r)) = 128 \<and> terminated (fst (fst r)) \<and> snd (fst r) \<le> 127"
    and body: "(case get_key (keys s) of
        (None, k) \<Rightarrow> f feed ed (feed (s\<lparr>keys := k\<rparr>))
      | (Some c, k) \<Rightarrow>
          (case sh_key c ed (s\<lparr>keys := k\<rparr>) of
             (fin, ed, s) \<Rightarrow> if fin then Some (ed, s) else f feed ed (feed s))) = Some r"
  obtain g k where g: "get_key (keys s) = (g, k)" by fastforce
  show "in_array ed \<longrightarrow> length (fst (fst r)) = 128 \<and> terminated (fst (fst r)) \<and> snd (fst r) \<le> 127"
  proof (cases g)
    case None
    then show ?thesis using IH body g by simp
  next
    case (Some c)
    obtain fin ed1 e where key: "key_effect c ed = (fin, ed1, e)" by (cases "key_effect c ed") auto
    show ?thesis
    proof (cases fin)
      case True
      then have "r = (ed1, tty_out e (s\<lparr>keys := k\<rparr>))" using body g Some key by (simp add: sh_key_eq)
      then show ?thesis using key_in_array [OF _ key] True by auto
    next
      case False
      then have "f feed ed1 (feed (tty_out e (s\<lparr>keys := k\<rparr>))) = Some r"
        using body g Some key by (simp add: sh_key_eq)
      from IH [OF this] show ?thesis using key_in_array [OF _ key] False by auto
    qed
  qed
qed

section \<open>A user at the keyboard\<close>

text \<open>A machine on which scan codes are about to be typed: \<open>cat notes\<close>, with or without going back.\<close>

definition at_desk :: "u8 list \<Rightarrow> 'd storage \<Rightarrow> 'd typed_system" where
  "at_desk scs s = \<lparr>mem = mem s, con = con s, ports = ports s, ticks = ticks s, halted = halted s, stuck = stuck s,
     bitmap = bitmap s, bitmap_size = bitmap_size s, max_pages = max_pages s, last_free_page = last_free_page s, dev = dev s,
     keys = kbd_boot, scans = scs\<rparr>"

lemma at_desk_simps [simp]:
  "mem (at_desk scs s) = mem s" "dev (at_desk scs s) = dev s" "con (at_desk scs s) = con s"
  "keys (at_desk scs s) = kbd_boot" "scans (at_desk scs s) = scs"
  by (simp_all add: at_desk_def)

definition cat_notes :: "u8 list" where
  "cat_notes = [0x2E, 0xAE, 0x1E, 0x9E, 0x14, 0x94, 0x39, 0xB9, 0x31, 0xB1, 0x18, 0x98, 0x14, 0x94, 0x12, 0x92, 0x1F, 0x9F]"

lemma typed_cat_notes:
  "typed kbd_boot (cat_notes @ [0x1C]) = ''cat notes'' @ [NL]"
  "typed kbd_boot (cat_notes @ replicate 6 0x0E @ [0x1C]) = ''cat notes'' @ replicate 6 BS @ [NL]"
  by code_simp+

definition demo_env :: "(drive \<times> nat, (drive \<times> nat) typed_system) shell_env" where
  "demo_env = \<lparr>disk = pio, program = (\<lambda>_ _. Some), bios = (\<lambda>_ _ _. Pair True), bios_cx = 0, cpu = (\<lambda>_. (0, 0, 0, 0)),
     panic_regs = \<lparr>r_eax = 0, r_ebx = 0, r_ecx = 0, r_edx = 0, r_esi = 0, r_edi = 0, r_ebp = 0, r_esp = 0, r_eip = 0, r_cs = 8, r_eflags = 2\<rparr>,
     superblock = 0x20000, cat_buffer = 0x60000, secbuf = 0x70000, empty_string = 0x30000\<rparr>"

lemma kbd_items_boot [simp]: "kbd_items kbd_boot = []" "kbd_wf kbd_boot"
  by (simp_all add: kbd_items_def kbd_count_def kbd_boot_def kbd_wf_def KBDBUF_def)

lemma at_desk_ok: "length (typed kbd_boot scs) \<le> 255 \<Longrightarrow> typing_ok (at_desk scs s)"
  by (simp add: typing_ok_def)

section \<open>Properties\<close>

text \<open>
  C27: reading a line. When the scan codes still to come, after the characters already buffered,
  stand for the keys \<open>ks\<close> and a newline, the loop of \<open>sh\<close> returns (its waiting ends) and the
  array holds \<open>ks\<close> with every backspace applied; the screen has shown each key that had an
  effect, and no key typed after the newline is lost.
\<close>

theorem shell_reads_line:
  assumes "typing_ok s" and "kbd_items (keys s) @ typed (keys s) (scans s) = ks @ NL # rest"
    and "fits [] ks" and "NL \<notin> set ks" and "NUL \<notin> set (edited ks)"
  shows "\<exists>chars s'. sh_line send_scan (replicate 128 NUL, 0) s = Some ((chars, Suc (length (edited ks))), s')
    \<and> cstr chars = edited ks \<and> con s' = con s @ map Out (echo [] ks @ [NL])
    \<and> kbd_items (keys s') @ typed (keys s') (scans s') = rest"
  using typed_line [OF assms] truncate_fields(3) by blast

lemma shell_reads_line_witness:
  "\<exists>chars s'. sh_line send_scan (replicate 128 NUL, 0) (at_desk (cat_notes @ replicate 6 0x0E @ [0x1C]) disk_state) = Some ((chars, 4), s') \<and> cstr chars = ''cat''"
proof -
  let ?ks = "''cat notes'' @ replicate 6 BS" and ?s = "at_desk (cat_notes @ replicate 6 0x0E @ [0x1C]) disk_state"
  have ed: "edited ?ks = ''cat''" by (simp add: edited_def edit_key_def numeral_eq_Suc)
  have "fits [] ?ks" by (simp add: edit_key_def numeral_eq_Suc)
  moreover have "kbd_items (keys ?s) @ typed (keys ?s) (scans ?s) = ?ks @ NL # []" by (simp add: typed_cat_notes)
  moreover have "typing_ok ?s" by (rule at_desk_ok) (simp add: typed_cat_notes)
  moreover have "NL \<notin> set ?ks" "NUL \<notin> set (edited ?ks)" unfolding ed by simp_all
  ultimately have "\<exists>chars s'. sh_line send_scan (replicate 128 NUL, 0) ?s = Some ((chars, Suc (length (edited ?ks))), s') \<and> cstr chars = edited ?ks"
    using shell_reads_line [of ?s ?ks "[]"] by blast
  then show ?thesis unfolding ed by (simp add: eval_nat_numeral)
qed

text \<open>
  C28: a line is never read out of its array. Whatever happens while the shell yields, a line that
  \<open>sh_line\<close> returns lies in 128 characters with an end, and finding its command neither leaves
  the array nor changes its length.
\<close>

theorem shell_line_in_bounds:
  assumes "sh_line feed (replicate 128 NUL, 0) s = Some ((chars, i), s')"
  shows "length chars = 128 \<and> terminated chars \<and> i \<le> 127 \<and> (\<exists>c chars'. find_command commands chars = Some (c, chars') \<and> length chars' = 128)"
proof -
  have chars: "length chars = 128" "terminated chars" "i \<le> 127"
    using sh_line_keeps [OF assms] by (simp_all add: in_array_def)
  obtain r d where r: "find_command commands chars = Some (command_of (first_word chars), first_word chars @ NUL # r)" "chars = first_word chars @ d # r"
    using find_command_eq [OF chars(2)] by blast
  then have "length (first_word chars @ NUL # r) = 128" using chars(1) by (metis length_append length_Cons)
  then show ?thesis using chars r(1) by blast
qed

lemma shell_line_in_bounds_witness:
  "\<exists>chars i s'. sh_line send_scan (replicate 128 NUL, 0) (at_desk (cat_notes @ [0x1C]) disk_state) = Some ((chars, i), s')
    \<and> length chars = 128 \<and> terminated chars"
proof -
  have "fits [] ''cat notes''" by (simp add: edit_key_def)
  then obtain chars s' where "sh_line send_scan (replicate 128 NUL, 0) (at_desk (cat_notes @ [0x1C]) disk_state) = Some ((chars, Suc (length (edited ''cat notes''))), s')"
    using typed_line [OF at_desk_ok [of "cat_notes @ [0x1C]" disk_state], of "''cat notes''" "[]"]
    by (auto simp: typed_cat_notes edited_def edit_key_def)
  from this shell_line_in_bounds [OF this] show ?thesis by blast
qed

text \<open>
  Which command a line runs. The first word, up to the first space, is looked up among the
  nine names; anything else that is not empty is unknown. The argument, behind the space, is left
  in the array at the position the commands read it from.
\<close>

lemma shell_finds_command:
  assumes "CHR '' '' \<notin> set w" and "NUL \<notin> set w" and "NUL \<notin> set arg"
  shows "find_command commands (w @ NUL # r) = Some (command_of w, w @ NUL # r)
    \<and> find_command commands (w @ CHR '' '' # arg @ NUL # r) = Some (command_of w, w @ NUL # arg @ NUL # r)
    \<and> cstr (drop (Suc (length w)) (w @ NUL # arg @ NUL # r)) = arg"
  using find_command_cut [OF _ assms(1,2), of NUL r] find_command_cut [OF _ assms(1,2), of "CHR '' ''" "arg @ NUL # r"]
    cstr_append_NUL [OF assms(3)] by simp_all

text \<open>
  C4: from the keyboard to the screen. On a working disk, typing \<open>cat\<close>, a space, the name of a file of at
  most 8192 bytes and a newline makes one turn of the shell: it returns, having shown the prompt,
  the line, the bytes of the file and a newline; of the memory only the buffer of \<open>cat\<close> changes.
\<close>

theorem shell_cat_shows_file:
  assumes "typing_ok s" and "kbd_items (keys s) @ typed (keys s) (scans s) = (''cat '' @ name) @ NL # rest"
    and "set name \<inter> {NUL, BS, NL} = {}" and "length name < 122"
    and "ata_ready (disk E) view lag cap (dev s)" and "kfs_wf (superblock E) (mem s)"
    and "kfs_find (superblock E) (name @ [NUL]) s = Some (Some f)"
    and "n = unat (file_size (mem s) f)" and "0 < n" and "n \<le> 8192"
    and "k = unat (sectors_of (file_size (mem s) f))" and "l = unat (start_lba (mem s) f)" and "l + k \<le> cap"
    and "region (superblock E) 328 \<inter> region (cat_buffer E) (512 * k) = {}"
  shows "\<exists>s'. sh_turn E send_scan s = Some s'
    \<and> con s' = con s @ map Out (''> cat '' @ name @ [NL] @ map char_of_byte (take n (ata.contents view (dev s) l k)) @ [NL])
    \<and> kbd_items (keys s') @ typed (keys s') (scans s') = rest \<and> {a. mem s' a \<noteq> mem s a} \<subseteq> region (cat_buffer E) (512 * k)"
proof -
  let ?ks = "''cat '' @ name" and ?s = "tty_out ''> '' s"
  have plain: "edited ?ks = ?ks" "echo [] ?ks = ?ks" "fits [] ?ks" "NL \<notin> set ?ks" "NUL \<notin> set (edited ?ks)"
    using plain_keys [of ?ks "[]"] assms(3,4) by (auto simp: edited_def)
  have start: "typing_ok ?s" "kbd_items (keys ?s) @ typed (keys ?s) (scans ?s) = ?ks @ NL # rest"
    using assms(1,2) by (simp_all add: keyboard.out_good) (simp add: tty_out_def)
  obtain chars s1 where line: "sh_line send_scan (replicate 128 NUL, 0) ?s = Some ((chars, Suc (length (edited ?ks))), s1)"
    "cstr chars = edited ?ks" "length chars = 128" "storage.truncate s1 = tty_out (echo [] ?ks @ [NL]) (storage.truncate ?s)"
    "kbd_items (keys s1) @ typed (keys s1) (scans s1) = rest"
    using typed_line [OF start plain(3-5)] by blast
  have s1: "mem s1 = mem s" "dev s1 = dev s" "con s1 = con s @ map Out (''> '' @ ?ks @ [NL])"
    using truncate_fields [OF line(4)] plain(2) by simp_all
  obtain r where r: "chars = ''cat'' @ CHR '' '' # r" "cstr r = name" "terminated r"
    using line_split [of chars "''cat''" name] line(2,3) plain(1) assms(4) by auto
  have cmd: "find_command commands chars = Some (Cat, ''cat'' @ NUL # r)"
    using find_command_cut [of "''cat''" "CHR '' ''" r] r by (simp add: command_of_def commands_def)
  have arg: "drop 4 (''cat'' @ NUL # r) = r" by simp
  have "kfs_find (superblock E) r s1 = kfs_find (superblock E) (name @ [NUL]) s1"
    using kfs_find_cong [of "superblock E" s1 r "name @ [NUL]"] assms(3,6) r s1(1) by (simp add: cstr_append_NUL)
  also have "\<dots> = Some (Some f)" using assms(7) s1(1) by (simp add: kfs_find_def)
  finally have found: "kfs_find (superblock E) r s1 = Some (Some f)" .
  obtain m d where shown: "sh_cat (disk E) (superblock E) (cat_buffer E) (''cat'' @ NUL # r) s1
      = Some (tty_out (map char_of_byte (take n (ata.contents view (dev s) l k)) @ [NL]) (s1\<lparr>mem := m, dev := d\<rparr>))"
    "{a. m a \<noteq> mem s a} \<subseteq> region (cat_buffer E) (512 * k)"
    using sh_cat_shows [of "disk E" view lag cap s1 "superblock E" "''cat'' @ NUL # r" f n k l "cat_buffer E"] assms(5,6,8-14) arg r(3) found s1
    by auto
  let ?s' = "tty_out (map char_of_byte (take n (ata.contents view (dev s) l k)) @ [NL]) (s1\<lparr>mem := m, dev := d\<rparr>)"
  have "sh_turn E send_scan s = Some ?s'"
    using line(1) cmd shown(1) by (simp add: sh_turn_def puts_def run_command_def)
  moreover have "con ?s' = con s @ map Out (''> cat '' @ name @ [NL] @ map char_of_byte (take n (ata.contents view (dev s) l k)) @ [NL])"
    using s1(3) by simp
  moreover have "kbd_items (keys ?s') @ typed (keys ?s') (scans ?s') = rest" using line(5) by (simp add: tty_out_def)
  ultimately show ?thesis using shown(2) by (intro exI [of _ ?s']) simp
qed

lemma shell_cat_shows_file_witness:
  "\<exists>(s :: (drive \<times> nat) typed_system) s' text. sh_turn (demo_env) send_scan s = Some s'
    \<and> con s' = con s @ map Out (''> cat notes'' @ [NL] @ text @ [NL]) \<and> length text = 5"
proof -
  obtain s1 :: "(drive \<times> nat) storage" where s1: "ata_ready pio fst snd 1000 (dev s1)" "kfs_wf 0x20000 (mem s1)" "kfs_dir 0x20000 (mem s1) = [(''notes'', 1, 5)]"
    by (rule one_file) blast
  let ?s = "at_desk (cat_notes @ [0x1C]) s1"
  obtain f where f: "kfs_find 0x20000 (''notes'' @ [NUL]) ?s = Some (Some f)" "start_lba (mem s1) f = 1" "file_size (mem s1) f = 5"
    using kfs_find_new [of "0x20000" ?s "''notes'' @ [NUL]" "[]" 1 5] s1(2,3) by auto
  have len: "length (ata.contents fst (dev s1) 1 1) = 512" using ata.length_contents [OF s1(1), of 1 1] by simp
  have apart: "region 0x20000 328 \<inter> region 0x60000 512 = ({} :: u32 set)"
    by (rule regions_disjoint) simp_all
  have "\<exists>s'. sh_turn demo_env send_scan ?s = Some s'
    \<and> con s' = con ?s @ map Out (''> cat '' @ ''notes'' @ [NL] @ map char_of_byte (take 5 (ata.contents fst (dev ?s) 1 1)) @ [NL])
    \<and> kbd_items (keys s') @ typed (keys s') (scans s') = [] \<and> {a. mem s' a \<noteq> mem ?s a} \<subseteq> region (cat_buffer demo_env) (512 * 1)"
    by (rule shell_cat_shows_file [where name = "''notes''" and f = f and cap = 1000])
      (use s1 f apart in \<open>simp_all add: at_desk_ok typed_cat_notes demo_env_def sectors_small\<close>)
  then obtain s' where "sh_turn demo_env send_scan ?s = Some s'"
    "con s' = con ?s @ map Out (''> cat notes'' @ [NL] @ map char_of_byte (take 5 (ata.contents fst (dev s1) 1 1)) @ [NL])" by auto
  moreover have "length (map char_of_byte (take 5 (ata.contents fst (dev s1) 1 1))) = 5" using len by simp
  ultimately show ?thesis by blast
qed

text \<open>
  C38: the argument of a command may be one the user took back. Typing \<open>cat\<close> and a name, erasing
  the name and the space and pressing return gives the line \<open>cat\<close>, yet the argument that the
  command reads is still the whole name.
\<close>

theorem shell_stale_argument:
  assumes "typing_ok s" and "kbd_items (keys s) @ typed (keys s) (scans s) = (''cat '' @ name @ replicate (Suc (length name)) BS) @ NL # rest"
    and "set name \<inter> {NUL, BS, NL} = {}" and "length name < 122"
  shows "\<exists>chars chars' s'. sh_line send_scan (replicate 128 NUL, 0) s = Some ((chars, 4), s') \<and> cstr chars = ''cat''
    \<and> find_command commands chars = Some (Cat, chars') \<and> cstr (drop 4 chars') = name"
proof -
  let ?t = "''cat '' @ name"
  let ?tail = "name @ replicate (128 - length ?t) NUL"
  have plain: "BS \<notin> set ?t" "NL \<notin> set ?t" "length ?t \<le> 127" using assms(3,4) by auto
  let ?ms = "replicate (Suc (length name)) BS @ NL # rest"
  have "keys_run (?t @ ?ms) (replicate 128 NUL, 0) = map_option (\<lambda>(ed, e, rest). (ed, ?t @ e, rest)) (keys_run ?ms (''cat'' @ CHR '' '' # ?tail, length ?t))"
    using keys_run_plain [of ?t "[]" ?ms] plain by simp
  moreover have "keys_run ?ms (''cat'' @ CHR '' '' # ?tail, length ?t)
    = map_option (\<lambda>(ed, e, rest). (ed, replicate (Suc (length name)) BS @ e, rest)) (keys_run (NL # rest) (''cat'' @ CHR '' '' # ?tail, 3))"
    using keys_run_back [of "Suc (length name)" "length ?t" "NL # rest" "''cat'' @ CHR '' '' # ?tail"] by simp
  moreover have "keys_run (NL # rest) (''cat'' @ CHR '' '' # ?tail, 3) = Some ((''cat'' @ NUL # ?tail, 4), [NL], rest)"
    by (simp add: key_effect_def)
  ultimately obtain e where run: "keys_run (?t @ ?ms) (replicate 128 NUL, 0) = Some ((''cat'' @ NUL # ?tail, 4), e, rest)" by simp
  obtain s' where "sh_line send_scan (replicate 128 NUL, 0) s = Some ((''cat'' @ NUL # ?tail, 4), s')"
    using keyboard.sh_line_runs [OF assms(1,2), of "(replicate 128 NUL, 0)" "(''cat'' @ NUL # ?tail, 4)" e rest] run by auto
  moreover have "find_command commands (''cat'' @ NUL # ?tail) = Some (Cat, ''cat'' @ NUL # ?tail)"
    using find_command_cut [of "''cat''" NUL ?tail] by (simp add: command_of_def commands_def)
  moreover have "cstr (drop 4 (''cat'' @ NUL # ?tail)) = name"
  proof -
    have "replicate (128 - length ?t) NUL = NUL # replicate (127 - length ?t) NUL"
      using plain(3) by (simp add: Suc_diff_le flip: replicate_Suc)
    then show ?thesis using cstr_append_NUL [of name "replicate (127 - length ?t) NUL"] assms(3) by simp
  qed
  moreover have "cstr (''cat'' @ NUL # ?tail) = ''cat''" by simp
  ultimately show ?thesis by blast
qed

lemma shell_stale_argument_witness:
  "\<exists>chars chars' s'. sh_line send_scan (replicate 128 NUL, 0) (at_desk (cat_notes @ replicate 6 0x0E @ [0x1C]) disk_state) = Some ((chars, 4), s')
    \<and> cstr chars = ''cat'' \<and> find_command commands chars = Some (Cat, chars') \<and> cstr (drop 4 chars') = ''notes''"
proof (rule shell_stale_argument [where rest = "[]"])
  let ?s = "at_desk (cat_notes @ replicate 6 0x0E @ [0x1C]) disk_state"
  show "typing_ok ?s" by (rule at_desk_ok) (simp add: typed_cat_notes)
  have "Suc (length ''notes'') = 6" by simp
  then show "kbd_items (keys ?s) @ typed (keys ?s) (scans ?s) = (''cat '' @ ''notes'' @ replicate (Suc (length ''notes'')) BS) @ [NL]"
    by (simp only: at_desk_simps typed_cat_notes kbd_items_boot) simp
qed simp_all

end
