(* ===== verification/Boot.thy ===== *)
theory Boot
  imports Init Stubs Shell_Props
begin

text \<open>
  What \<open>kmain\<close> hands to the scheduler. Each step before the last three leaves the disk alone and
  does not halt the machine; what the interrupt component was set to stays.
\<close>

section \<open>What the steps leave alone\<close>

text \<open>A reading of the state that no output shows in, and one that no write to memory shows in either.\<close>

definition silent :: "('a kernel_scheme \<Rightarrow> 'b) \<Rightarrow> bool" where
  "silent f \<longleftrightarrow> (\<forall>s c. f (s\<lparr>con := c\<rparr>) = f s) \<and> (\<forall>s p. f (s\<lparr>ports := p\<rparr>) = f s) \<and> (\<forall>s b. f (s\<lparr>stuck := b\<rparr>) = f s)"

definition blind :: "('a kernel_scheme \<Rightarrow> 'b) \<Rightarrow> bool" where
  "blind f \<longleftrightarrow> silent f \<and> (\<forall>s m. f (s\<lparr>mem := m\<rparr>) = f s)"

lemma silent_simps:
  assumes "silent f"
  shows "f (s\<lparr>con := c\<rparr>) = f s" "f (s\<lparr>ports := p\<rparr>) = f s" "f (s\<lparr>stuck := b\<rparr>) = f s"
    "f (tty_out t s) = f s" "f (snd (printf fmt args s)) = f s" "f (klog t s) = f s" "f (outb port v s) = f s"
  using assms by (simp_all add: silent_def tty_out_def printf_state klog_eq outb_def)

lemma blind_simps:
  assumes "blind f"
  shows "f (s\<lparr>mem := m\<rparr>) = f s" "silent f" "f (s\<lparr>con := c\<rparr>) = f s" "f (s\<lparr>ports := p\<rparr>) = f s" "f (s\<lparr>stuck := b\<rparr>) = f s"
    "f (tty_out t s) = f s" "f (snd (printf fmt args s)) = f s" "f (klog t s) = f s" "f (outb port v s) = f s"
proof -
  show sil: "silent f" and "f (s\<lparr>mem := m\<rparr>) = f s" using assms by (simp_all add: blind_def)
  show "f (s\<lparr>con := c\<rparr>) = f s" "f (s\<lparr>ports := p\<rparr>) = f s" "f (s\<lparr>stuck := b\<rparr>) = f s"
    "f (tty_out t s) = f s" "f (snd (printf fmt args s)) = f s" "f (klog t s) = f s" "f (outb port v s) = f s"
    by (rule silent_simps [OF sil])+
qed

lemma silent_steps:
  assumes "silent f"
  shows "f (banner s) = f s" "f (pitsetfreq hz s) = f s" "f (cpuident c s) = f s" "f (mmp s) = f s" "f (pci_list ps s) = f s"
proof -
  note out = silent_simps [OF assms]
  show "f (banner s) = f s" by (simp add: banner_def Let_def puts_def out)
  show "f (pitsetfreq hz s) = f s" by (simp add: pitsetfreq_def Let_def out)
  show "f (cpuident c s) = f s" unfolding cpuident_def out by (rule refl)
  show "f (mmp s) = f s" unfolding mmp_eq by (rule out)
  show "f (pci_list ps s) = f s" unfolding pci_list_def by (rule fold_frame) (simp add: pci_line_def out)
qed

lemma blind_fb_fill:
  assumes "blind (f :: 'a fb_state_scheme \<Rightarrow> 'b)"
  shows "f (fb_fill c s) = f s"
proof -
  have "f (fb_fill_row y c s) = f s" for y s
    unfolding fb_fill_row_def Let_def
    by (auto intro!: fold_frame simp: blind_simps [OF assms])
  then show ?thesis unfolding fb_fill_def by (auto intro!: fold_frame)
qed

lemma blind_bitmap:
  assumes "blind (f :: 'a pmm_state_scheme \<Rightarrow> 'b)"
  shows "f (pmm_mark s) = f s"
proof -
  have set: "f (BITMAP_SET b s) = f s" "f (BITMAP_CLEAR b s) = f s" for b s
    by (simp_all add: BITMAP_SET_def BITMAP_CLEAR_def blind_simps [OF assms])
  have "f (free_region i s) = f s" for i s
    unfolding free_region_def Let_def by (auto intro!: fold_frame simp: set)
  then have regions: "f (fold free_region xs s) = f s" for xs s by (rule fold_frame)
  have "f (reserve_bitmap s) = f s" for s
    unfolding reserve_bitmap_def Let_def by (rule fold_frame) (rule set)
  then show ?thesis unfolding pmm_mark_def Let_def set
    by (simp only: regions) (rule fold_frame, simp only: blind_simps [OF assms])
qed

lemma blind_pmm_init:
  assumes "blind (f :: 'a pmm_state_scheme \<Rightarrow> 'b)"
    and "\<And>s n k. f (s\<lparr>max_pages := n, bitmap_size := k\<rparr>) = f s" "\<And>s a. f (s\<lparr>bitmap := a\<rparr>) = f s"
  shows "f (pmm_init s) = f s"
proof -
  have "f (snd (max_addr_step i x)) = f (snd x)" for i x
    by (simp add: max_addr_step_def Let_def blind_simps [OF assms(1)] split: prod.split)
  then have "f (snd (fold max_addr_step xs x)) = f (snd x)" for xs x by (rule fold_frame)
  then have loop: "fold max_addr_step xs (0, s) = (k, t) \<Longrightarrow> f t = f s" for xs s k t by (metis snd_conv)
  show ?thesis unfolding pmm_init_def Let_def
    by (auto split: prod.split option.split dest!: loop simp: blind_simps [OF assms(1)] blind_bitmap [OF assms(1)] assms(2,3) pmm_set_size_def Let_def)
qed

lemma idt_extend: "idt (kernel.extend k (kernel.more t)) = idt t" for t :: int_state
  by (cases t) (simp add: kernel.defs)

lemma ints_cong:
  "int_fields s' = int_fields s \<Longrightarrow> idt (ints s') = idt (ints s)"
proof -
  assume "int_fields s' = int_fields s"
  moreover have "kernel.more (ints s) = int_fields s" by (simp add: ints_def kernel.defs)
  ultimately have "ints s' = kernel.extend (kernel.truncate s') (kernel.more (ints s))" by (simp add: ints_def)
  then show ?thesis by (simp only: idt_extend)
qed

lemma tty_init_halted: "halted (tty_init v s) = halted s"
proof -
  have "blind halted" by (simp add: blind_def silent_def)
  then have "halted (fb_fill c t) = halted t" for c and t :: "'a tty_state_scheme" by (rule blind_fb_fill)
  then show ?thesis by (simp add: tty_init_def fb_init_def Let_def)
qed

lemma on_tty_fields:
  "dev (on_tty (tty_init v) s) = dev s" "halted (on_tty (tty_init v) s) = halted s" "int_fields (on_tty (tty_init v) s) = int_fields s"
  "keys (on_tty (tty_init v) s) = keys s"
  by (simp_all add: on_tty_def Let_def tty_init_halted kernel.defs)

lemma int_init_halted: "halted (int_init inb y s) = halted s"
proof -
  have "halted (fold (\<lambda>i. setgate (of_nat i) h) xs t) = halted t" for h xs and t :: "'a int_state_scheme"
    by (rule fold_frame) (simp add: setgate_def)
  then show ?thesis by (simp add: int_init_def Let_def pic_setm_def pic_remap_def setgate_def [of _ _ "fold _ _ _"] setgate_def)
qed

lemma int_init_length: "length (idt (int_init inb y s)) = length (idt s)"
proof -
  have "length (idt (fold (\<lambda>i. setgate (of_nat i) h) xs t)) = length (idt t)" for h xs and t :: "'a int_state_scheme"
    by (rule fold_frame) (simp add: setgate_def)
  then show ?thesis by (simp add: int_init_def Let_def pic_setm_def pic_remap_def setgate_def [of _ _ "fold _ _ _"] setgate_def)
qed

lemma on_int_fields:
  "dev (on_int (int_init inb y) s) = dev s" "halted (on_int (int_init inb y) s) = halted s"
  "idt (ints (on_int (int_init inb y) s)) = idt (int_init inb y ((ints s)\<lparr>keyboard := keys s\<rparr>))"
proof -
  show "dev (on_int (int_init inb y) s) = dev s" "halted (on_int (int_init inb y) s) = halted s"
    by (simp_all add: on_int_def Let_def int_init_halted) (simp_all add: kernel.defs)
  show "idt (ints (on_int (int_init inb y) s)) = idt (int_init inb y ((ints s)\<lparr>keyboard := keys s\<rparr>))"
    by (simp add: on_int_def Let_def ints_def idt_extend)
qed

section \<open>The process table\<close>

lemma spawn_keeps_cell:
  assumes "List.find (\<lambda>i. cget pt (state_cell i) s = state_code UNUSED) [0..<NPROC] = Some i"
    and "c < 1026 * i" and "c < 8208"
  shows "cget pt c (snd (task_l_spawn pt fn s)) = cget pt c s"
proof -
  have "i < 8" using assms(1) by (simp add: find_upt_Some NPROC_def)
  then show ?thesis using assms by (simp add: task_l_spawn_def Let_def cells)
qed

lemma find_unused:
  assumes "i < 8" and "pstate pt s i = state_code UNUSED" and "\<forall>j < i. pstate pt s j \<noteq> state_code UNUSED"
  shows "List.find (\<lambda>i. cget pt (state_cell i) s = state_code UNUSED) [0..<NPROC] = Some i"
  using assms by (simp add: find_upt_Some pstate_def NPROC_def)

text \<open>Process \<open>i\<close> is about to start at \<open>fn\<close>: its context is on its stack and returns there.\<close>

definition starts_at :: "u32 \<Rightarrow> 'a kernel_scheme \<Rightarrow> nat \<Rightarrow> u32 \<Rightarrow> bool" where
  "starts_at pt s i fn \<longleftrightarrow> pstate pt s i = state_code RUNNABLE \<and> cget pt (context_cell i) s = cell_at pt (stack_cell i 1001)
    \<and> cget pt (stack_cell i 1005) s = fn"

lemma spawn_at:
  assumes "i < 8" and "pstate pt s i = state_code UNUSED" and "\<forall>j < i. pstate pt s j \<noteq> state_code UNUSED"
  shows "starts_at pt (snd (task_l_spawn pt fn s)) i fn \<and> (\<forall>j < 8. j \<noteq> i \<longrightarrow> pstate pt (snd (task_l_spawn pt fn s)) j = pstate pt s j)"
proof -
  obtain v s' where sp: "task_l_spawn pt fn s = (v, s')" by fastforce
  then show ?thesis
  proof (cases rule: task_l_spawn_cases)
    case full
    then show ?thesis using assms by blast
  next
    case (slot k)
    then have "k = i" using assms by (metis nat_neq_iff)
    then show ?thesis using slot sp by (simp add: starts_at_def)
  qed
qed

lemma two_spawned:
  defines "s1 \<equiv> \<lambda>pt a s. snd (task_l_spawn pt a (sched_init pt s))"
  shows "starts_at pt (snd (task_l_spawn pt b (s1 pt a s))) 0 a \<and> starts_at pt (snd (task_l_spawn pt b (s1 pt a s))) 1 b
    \<and> (\<forall>i < 8. 2 \<le> i \<longrightarrow> pstate pt (snd (task_l_spawn pt b (s1 pt a s))) i = state_code UNUSED)"
proof -
  have fresh: "i < 8 \<Longrightarrow> pstate pt (sched_init pt s) i = state_code UNUSED" for i by (rule sched_init_cells)
  have first: "starts_at pt (s1 pt a s) 0 a" "\<forall>j < 8. j \<noteq> 0 \<longrightarrow> pstate pt (s1 pt a s) j = state_code UNUSED"
    using spawn_at [of 0 pt "sched_init pt s" a] fresh unfolding s1_def by auto
  have busy: "pstate pt (s1 pt a s) 0 \<noteq> state_code UNUSED" using first(1) by (simp add: starts_at_def)
  then have second: "starts_at pt (snd (task_l_spawn pt b (s1 pt a s))) 1 b"
    "\<forall>j < 8. j \<noteq> 1 \<longrightarrow> pstate pt (snd (task_l_spawn pt b (s1 pt a s))) j = pstate pt (s1 pt a s) j"
    using spawn_at [of 1 pt "s1 pt a s" b] first(2) by auto
  have "List.find (\<lambda>i. cget pt (state_cell i) (s1 pt a s) = state_code UNUSED) [0..<NPROC] = Some 1"
    using first(2) busy by (intro find_unused) auto
  then have "cget pt c (snd (task_l_spawn pt b (s1 pt a s))) = cget pt c (s1 pt a s)" if "c < 1026" for c
    using that by (intro spawn_keeps_cell) auto
  then have "starts_at pt (snd (task_l_spawn pt b (s1 pt a s))) 0 a"
    using first(1) second(2) by (simp add: starts_at_def context_cell_def stack_cell_def)
  then show ?thesis using second first(2) by auto
qed

section \<open>The steps together\<close>

text \<open>What the mounting reads and what the interrupt component holds, before the scheduler starts.\<close>

abbreviation kept :: "('d, 'c, 'a) machine_state_scheme \<Rightarrow> 'd \<times> bool \<times> unit int_state_ext" where
  "kept s \<equiv> (dev s, halted s, int_fields s)"

lemma blind_kept: "blind (kept :: ('d, 'c, 'a) machine_state_scheme \<Rightarrow> _)"
  by (simp add: blind_def silent_def)

text \<open>The steps before the allocator is set up, and those before the disk is mounted.\<close>

definition before_pmm :: "('d, 'c) boot_env \<Rightarrow> ('d, 'c, 'a) machine_state_scheme \<Rightarrow> ('d, 'c, 'a) machine_state_scheme" where
  "before_pmm E s =
     (let s = on_tty (tty_init (vbe E)) s;
          s = banner s;
          s = pitsetfreq 1000 s;
          s = on_int (int_init (mask_ports E) (stubs E)) s;
          s = klog ''cpu: '' s;
          s = cpuident (boot_cpu E) s
      in mmp s)"

definition before_mount :: "('d, 'c) boot_env \<Rightarrow> ('d, 'c, 'a) machine_state_scheme \<Rightarrow> ('d, 'c, 'a) machine_state_scheme" where
  "before_mount E s =
     (let s = pmm_init (before_pmm E s);
          (found, c) = pciEnumerate (bus E) (config s);
          s = s\<lparr>config := c\<rparr>
      in pci_list (found @ drop (length found) (pcis E)) s)"

lemma kmain_split:
  "kmain E s = do { (_, s) \<leftarrow> kfs_mount (boot_disk E) (boot_cpu E) (boot_regs E) (boot_superblock E) (spill E (before_mount E s));
     let s = fetch E s;
     Some (if halted s then s
           else snd (task_l_spawn (ptable E) (sh_entry E) (snd (task_l_spawn (ptable E) (task1_entry E) (sched_init (ptable E) s))))) }"
  unfolding kmain_def before_mount_def before_pmm_def by (simp only: Let_def prod.case_eq_if)

lemma kept_steps:
  fixes s :: "('d, 'c, 'a) machine_state_scheme"
  shows "kept (klog t s) = kept s" "kept (banner s) = kept s" "kept (pitsetfreq hz s) = kept s" "kept (cpuident c s) = kept s"
    "kept (mmp s) = kept s" "kept (pci_list ps s) = kept s" "kept (pmm_init s) = kept s" "kept (s\<lparr>config := x\<rparr>) = kept s"
proof -
  note sil = blind_simps(2) [OF blind_kept]
  show "kept (klog t s) = kept s" by (rule silent_simps [OF sil])
  show "kept (banner s) = kept s" "kept (pitsetfreq hz s) = kept s" "kept (cpuident c s) = kept s"
    "kept (mmp s) = kept s" "kept (pci_list ps s) = kept s" by (rule silent_steps [OF sil])+
  show "kept (pmm_init s) = kept s" by (rule blind_pmm_init [OF blind_kept]) simp_all
qed simp

text \<open>The stub a vector leads to.\<close>

definition stub_of :: "symbols \<Rightarrow> nat \<Rightarrow> u32" where
  "stub_of y n = (if n = 0 then isr0_stub y else if n = 0x20 then irq0_stub y else if n = 0x21 then irq1_stub y
     else if n = 0x80 then syscall_stub y else isr_default_stub y)"

lemma before_mount_kept:
  shows "dev (before_mount E s) = dev s" and "halted (before_mount E s) = halted s"
    and "length (idt (ints s)) = 256 \<Longrightarrow> n < 256 \<Longrightarrow> gate_target (idt (ints (before_mount E s)) ! n) = stub_of (stubs E) n"
proof -
  let ?t = "on_tty (tty_init (vbe E)) s"
  let ?p = "pitsetfreq 1000 (banner ?t)"
  let ?i = "on_int (int_init (mask_ports E) (stubs E)) ?p"
  have t: "kept ?p = kept s" using on_tty_fields [of "vbe E" s] by (simp only: kept_steps)
  have last: "kept (before_mount E s) = kept ?i"
    unfolding before_mount_def before_pmm_def Let_def by (simp only: kept_steps prod.case_eq_if)
  then show "dev (before_mount E s) = dev s" "halted (before_mount E s) = halted s"
    using t on_int_fields(1,2) [of "mask_ports E" "stubs E" ?p] by simp_all
  assume n: "length (idt (ints s)) = 256" "n < 256"
  have "idt (ints ?p) = idt (ints s)" using t by (intro ints_cong) simp
  then have "length (idt ((ints ?p)\<lparr>keyboard := keys ?p\<rparr>)) = 256" using n(1) by simp
  from int_init_idt [OF this n(2), of "mask_ports E" "stubs E"]
  have "gate_target (idt (ints ?i) ! n) = stub_of (stubs E) n" by (simp only: on_int_fields stub_of_def)
  moreover have "idt (ints (before_mount E s)) = idt (ints ?i)" using last by (intro ints_cong) simp
  ultimately show "gate_target (idt (ints (before_mount E s)) ! n) = stub_of (stubs E) n" by simp
qed

lemma before_mount_table: "length (idt (ints s)) = 256 \<Longrightarrow> length (idt (ints (before_mount E s))) = 256"
proof -
  assume n: "length (idt (ints s)) = 256"
  let ?p = "pitsetfreq 1000 (banner (on_tty (tty_init (vbe E)) s))"
  let ?i = "on_int (int_init (mask_ports E) (stubs E)) ?p"
  have "kept ?p = kept s" using on_tty_fields [of "vbe E" s] by (simp only: kept_steps)
  then have "idt (ints ?p) = idt (ints s)" by (intro ints_cong) simp
  then have "length (idt (int_init (mask_ports E) (stubs E) ((ints ?p)\<lparr>keyboard := keys ?p\<rparr>))) = 256"
    using n by (simp add: int_init_length)
  then have "length (idt (ints ?i)) = 256" by (simp only: on_int_fields)
  moreover have "kept (before_mount E s) = kept ?i"
    unfolding before_mount_def before_pmm_def Let_def by (simp only: kept_steps prod.case_eq_if)
  then have "idt (ints (before_mount E s)) = idt (ints ?i)" by (intro ints_cong) simp
  ultimately show ?thesis by simp
qed

text \<open>
  Where things are in the kernel's image, each apart from the others; the kernel's memory is these
  and the 512 bytes mounting writes from the superblock on.
\<close>

definition image_parts :: "('d, 'c) boot_env \<Rightarrow> (u32 \<times> nat) list" where
  "image_parts E = [(boot_superblock E, 328), (ptable E, 32840), (ticks_at E, 4), (idt_ptr_at E, 6), (at_bitmap (pmm_vars E), 4),
     (at_bitmap_size (pmm_vars E), 4), (at_max_pages (pmm_vars E), 8), (at_last_free_page (pmm_vars E), 8), (idt_symbol (stubs E), 2048)]"

definition layout_ok :: "('d, 'c) boot_env \<Rightarrow> bool" where
  "layout_ok E \<longleftrightarrow> sorted_wrt (\<lambda>(a, n) (b, k). region a n \<inter> region b k = {}) (image_parts E)"

definition kernel_memory :: "('d, 'c) boot_env \<Rightarrow> u32 set" where
  "kernel_memory E = (\<Union>(a, n) \<in> set (image_parts E). region a n) \<union> region (boot_superblock E) 512"

lemma apart_append: "apart (vs @ ws) \<longleftrightarrow> apart vs \<and> apart ws \<and> (\<forall>v \<in> set vs. \<forall>w \<in> set ws. extent v \<inter> extent w = {})"
  by (simp add: apart_def sorted_wrt_append)

lemma kernel_apart:
  assumes "layout_ok E" and "length (idt (ints s)) = 256"
  shows "apart (kernel_variables E s)"
proof -
  let ?vs = "(ticks_at E, bytes_of 4 (unat (ticks s)))
     # (idt_ptr_at E, bytes_of 2 (unat (idt_limit (ints s))) @ bytes_of 4 (unat (idt_base (ints s)))) # pmm_variables (pmm_vars E) s"
  have "apart ?vs" and off: "\<forall>v \<in> set ?vs. extent v \<inter> region (idt_symbol (stubs E)) 2048 = {}"
    using assms(1) by (simp_all add: layout_ok_def image_parts_def apart_def extent_def pmm_variables_def)
  moreover have "extent w \<subseteq> region (idt_symbol (stubs E)) 2048" if "w \<in> set (idt_variables (stubs E) (idt (ints s)))" for w
    by (rule idt_extents [OF that]) (simp add: assms(2))
  then have "\<forall>v \<in> set ?vs. \<forall>w \<in> set (idt_variables (stubs E) (idt (ints s))). extent v \<inter> extent w = {}"
    using off by blast
  ultimately have "apart (?vs @ idt_variables (stubs E) (idt (ints s)))"
    using idt_apart [of "idt (ints s)" "stubs E"] assms(2) unfolding apart_append by simp
  then show ?thesis by (simp add: kernel_variables_def)
qed

lemma kernel_extents:
  assumes "v \<in> set (kernel_variables E s)" and "length (idt (ints s)) = 256"
  shows "extent v \<subseteq> kernel_memory E"
proof (cases "v \<in> set (idt_variables (stubs E) (idt (ints s)))")
  case True
  then have "extent v \<subseteq> region (idt_symbol (stubs E)) 2048" by (rule idt_extents) (simp add: assms(2))
  then show ?thesis by (auto simp: kernel_memory_def image_parts_def)
next
  case False
  then show ?thesis using assms(1) by (auto simp: kernel_variables_def kernel_memory_def image_parts_def pmm_variables_def extent_def)
qed

text \<open>The table after the mounting: the entries the sector does not reach, and those it replaces.\<close>

lemma fetch_idt: "idt (ints (fetch E s)) = load_idt (stubs E) (mem s)"
proof -
  have "ints (fetch E s) = kernel.extend (kernel.truncate (fetch E s)) (kernel.more (fetch_ints E (mem s) (ints s)))"
    by (simp add: ints_def fetch_def load_pmm_def)
  then show ?thesis by (simp only: idt_extend) (simp add: fetch_ints_def)
qed

lemma fetch_gate:
  assumes "layout_ok E" and "length (idt (ints s)) = 256" and "length bs = 512" and "n < 256"
  shows "region (gate_at (stubs E) n) 8 \<inter> region (boot_superblock E) 512 = {} \<Longrightarrow>
      idt (ints (fetch E ((spill E s)\<lparr>mem := poke (boot_superblock E) bs (mem (spill E s)), dev := d\<rparr>))) ! n = idt (ints s) ! n"
    and "gate_at (stubs E) n = boot_superblock E + of_nat k \<Longrightarrow> k \<le> 504 \<Longrightarrow>
      idt (ints (fetch E ((spill E s)\<lparr>mem := poke (boot_superblock E) bs (mem (spill E s)), dev := d\<rparr>))) ! n = entry_of (take 8 (drop k bs))"
proof -
  let ?m = "poke (boot_superblock E) bs (mem (spill E s))"
  let ?v = "(gate_at (stubs E) n, gate_bytes (idt (ints s) ! n))"
  have get: "idt (ints (fetch E ((spill E s)\<lparr>mem := ?m, dev := d\<rparr>))) ! n = entry_of (peek ?m (gate_at (stubs E) n) 8)"
    using assms(4) by (simp add: fetch_idt load_idt_nth)
  show "idt (ints (fetch E ((spill E s)\<lparr>mem := ?m, dev := d\<rparr>))) ! n = idt (ints s) ! n"
    if off: "region (gate_at (stubs E) n) 8 \<inter> region (boot_superblock E) 512 = {}"
  proof -
    have "?v \<in> set (kernel_variables E s)" using assms(2,4) by (simp add: kernel_variables_def idt_variables_def)
    moreover have "\<forall>x \<in> extent ?v. ?m x = store_vars (kernel_variables E s) (mem s) x"
      using off assms(3) by (auto simp: extent_def spill_def intro!: poke_outside)
    ultimately have "peek ?m (fst ?v) (length (snd ?v)) = snd ?v"
      using load_stored [OF kernel_apart [OF assms(1,2)], of ?v ?m "mem s"] by simp
    then show ?thesis unfolding get by simp
  qed
  show "idt (ints (fetch E ((spill E s)\<lparr>mem := ?m, dev := d\<rparr>))) ! n = entry_of (take 8 (drop k bs))"
    if "gate_at (stubs E) n = boot_superblock E + of_nat k" "k \<le> 504"
    using peek_nested [of k 8 bs "boot_superblock E" "mem (spill E s)"] that assms(3) unfolding get by simp
qed

text \<open>Mounting, spawning and the table keep the interrupt component and the \<open>halted\<close> flag.\<close>

lemma kept_spawn:
  fixes s :: "('d, 'c, 'a) machine_state_scheme"
  shows "kept (snd (task_l_spawn pt fn s)) = kept s" "kept (sched_init pt s) = kept s"
proof -
  have set: "kept (cset pt c v s) = kept s" for c v and s :: "('d, 'c, 'a) machine_state_scheme"
    by (simp add: cset_def)
  show "kept (snd (task_l_spawn pt fn s)) = kept s"
    by (simp add: task_l_spawn_def Let_def cset_def split: option.split)
  have "kept (fold (\<lambda>i. cset pt (state_cell i) v) xs s) = kept s" for v xs and s :: "('d, 'c, 'a) machine_state_scheme"
    by (rule fold_frame) (rule set)
  then show "kept (sched_init pt s) = kept s"
    unfolding sched_init_def Let_def set kept_steps by (simp only: set kept_steps)
qed

lemma magic_bytes:
  assumes "take 4 bs = [0x4B, 0x46, 0x53, 0x30]" and "length bs \<le> 2 ^ 32"
  shows "sb_magic sb (poke sb bs m) = KFS_MAGIC"
proof -
  have "4 \<le> length bs" using arg_cong [OF assms(1), of length] by simp
  then have "peek (poke sb bs m) sb 4 = [0x4B, 0x46, 0x53, 0x30]"
    using peek_nested [of 0 4 bs sb m] assms by simp
  moreover have "[0..<4] = [0, 1, 2, 3 :: nat]" by (simp add: upt_rec)
  ultimately have "poke sb bs m sb = 0x4B" "poke sb bs m (sb + 1) = 0x46" "poke sb bs m (sb + 2) = 0x53" "poke sb bs m (sb + 3) = 0x30"
    by (simp_all add: peek_def)
  then show ?thesis by (simp add: sb_magic_def ld32_def le32_def KFS_MAGIC_def)
qed

text \<open>The end of \<open>kmain\<close>: the table is set up and its two processes are spawned.\<close>

definition start_tasks :: "('d, 'c) boot_env \<Rightarrow> 'a kernel_scheme \<Rightarrow> 'a kernel_scheme" where
  "start_tasks E s =
     snd (task_l_spawn (ptable E) (sh_entry E) (snd (task_l_spawn (ptable E) (task1_entry E) (sched_init (ptable E) s))))"

lemma start_tasks_table:
  "sched_inv (ptable E) (Scan 0, start_tasks E s)"
  "starts_at (ptable E) (start_tasks E s) 0 (task1_entry E)" "starts_at (ptable E) (start_tasks E s) 1 (sh_entry E)"
  "i < 8 \<Longrightarrow> 2 \<le> i \<Longrightarrow> pstate (ptable E) (start_tasks E s) i = state_code UNUSED"
  using two_spawned [of "ptable E" "sh_entry E" "task1_entry E" s]
  by (auto simp: start_tasks_def intro: sched_spawn_inv sched_init_inv)

lemma kmain_runs:
  assumes "ata_ready (boot_disk E) view lag cap (dev s)" and "1 \<le> cap"
    and "take 4 (sector_of view (dev s) 0) = [0x4B, 0x46, 0x53, 0x30]" and "\<not> halted s"
  defines "b \<equiv> spill E (before_mount E s)"
  shows "\<exists>d. kmain E s = Some (start_tasks E (fetch E (b\<lparr>mem := poke (boot_superblock E) (sector_of view (dev s) 0) (mem b), dev := d\<rparr>)))"
proof -
  let ?bs = "ata.contents view (dev s) 0 1"
  have dev: "dev b = dev s" "halted b = halted s" by (simp_all add: b_def spill_def before_mount_kept)
  have len: "length ?bs = 512" using ata.length_contents [OF assms(1), of 0 1] assms(2) by simp
  have bs: "?bs = sector_of view (dev s) 0" by (simp only: ata.contents_one)
  have "take 4 ?bs = [0x4B, 0x46, 0x53, 0x30]" using assms(3) by (simp only: bs)
  then have magic: "sb_magic (boot_superblock E) (poke (boot_superblock E) ?bs (mem b)) = KFS_MAGIC"
    by (rule magic_bytes) (simp only: len, simp)
  obtain d where d: "kfs_mount (boot_disk E) (boot_cpu E) (boot_regs E) (boot_superblock E) b
      = Some (0, b\<lparr>mem := poke (boot_superblock E) ?bs (mem b), dev := d\<rparr>)"
    using kfs_mount_ready [OF dev(1) assms(1,2) refl, where sb = "boot_superblock E" and cpuid = "boot_cpu E" and regs = "boot_regs E"]
    by (simp only: magic simp_thms if_True) blast
  have "halted (fetch E (b\<lparr>mem := m, dev := d\<rparr>)) = halted s" for m by (simp add: fetch_def load_pmm_def dev)
  then show ?thesis using assms(4) d unfolding bs by (auto simp: kmain_split b_def [symmetric] start_tasks_def Let_def)
qed

section \<open>Properties\<close>

text \<open>
  C12: the kernel starts. On a disk that works and whose first sector starts with the magic number,
  \<open>kmain\<close> reaches \<open>m_scheduler\<close> without a panic; there the process table satisfies the
  scheduler's invariant and holds two processes about to run, the counter task at slot 0 and the
  shell at slot 1. \<open>int_init\<close> led every interrupt vector to its stub, but mounting read 512 bytes
  to the superblock of 328: a vector whose entry lies outside these 512 bytes still leads to its
  stub, and an entry that lies inside them is now what the sector holds there.
\<close>

theorem kmain_starts:
  assumes "ata_ready (boot_disk E) view lag cap (dev s)" and "1 \<le> cap"
    and "take 4 (sector_of view (dev s) 0) = [0x4B, 0x46, 0x53, 0x30]"
    and "\<not> halted s" and "length (idt (ints s)) = 256" and "layout_ok E"
  shows "\<exists>s'. kmain E s = Some s' \<and> \<not> halted s' \<and> sched_inv (ptable E) (Scan 0, s')
    \<and> starts_at (ptable E) s' 0 (task1_entry E) \<and> starts_at (ptable E) s' 1 (sh_entry E)
    \<and> (\<forall>i \<in> {2..<8}. pstate (ptable E) s' i = state_code UNUSED)
    \<and> (\<forall>n < 256. region (gate_at (stubs E) n) 8 \<inter> region (boot_superblock E) 512 = {} \<longrightarrow>
         gate_target (idt (ints s') ! n) = stub_of (stubs E) n)
    \<and> (\<forall>n < 256. \<forall>k \<le> 504. gate_at (stubs E) n = boot_superblock E + of_nat k \<longrightarrow>
         idt (ints s') ! n = entry_of (take 8 (drop k (sector_of view (dev s) 0))))"
proof -
  let ?b = "before_mount E s"
  let ?bs = "sector_of view (dev s) 0"
  obtain d where run: "kmain E s = Some (start_tasks E (fetch E ((spill E ?b)\<lparr>mem := poke (boot_superblock E) ?bs (mem (spill E ?b)), dev := d\<rparr>)))"
    using kmain_runs [OF assms(1-4)] by blast
  let ?m = "fetch E ((spill E ?b)\<lparr>mem := poke (boot_superblock E) ?bs (mem (spill E ?b)), dev := d\<rparr>)"
  have kept: "kept (start_tasks E ?m) = kept ?m" unfolding start_tasks_def by (simp only: kept_spawn)
  then have "\<not> halted (start_tasks E ?m)" using assms(4) by (simp add: before_mount_kept fetch_def load_pmm_def spill_def)
  moreover have same: "idt (ints (start_tasks E ?m)) = idt (ints ?m)" using kept by (intro ints_cong) simp
  have "length (ata.contents view (dev s) 0 1) = 512" using ata.length_contents [OF assms(1), of 0 1] assms(2) by simp
  then have "length ?bs = 512" by (simp only: ata.contents_one)
  note gates = fetch_gate [OF assms(6) before_mount_table [OF assms(5), where E = E] this, where d = d, folded same]
  have "\<forall>n < 256. region (gate_at (stubs E) n) 8 \<inter> region (boot_superblock E) 512 = {} \<longrightarrow>
         gate_target (idt (ints (start_tasks E ?m)) ! n) = stub_of (stubs E) n"
    using gates(1) before_mount_kept(3) [OF assms(5), where E = E] by simp
  moreover have "\<forall>n < 256. \<forall>k \<le> 504. gate_at (stubs E) n = boot_superblock E + of_nat k \<longrightarrow>
         idt (ints (start_tasks E ?m)) ! n = entry_of (take 8 (drop k ?bs))"
    using gates(2) by blast
  ultimately show ?thesis using run start_tasks_table [where E = E and s = ?m] by (intro exI [of _ "start_tasks E ?m"]) simp
qed

text \<open>A machine with a formatted disk, as the boot loader leaves it.\<close>

definition formatted :: drive where
  "formatted = blank_disk\<lparr>image := (\<lambda>_. replicate 256 0)(0 := 0x464B # 0x3053 # replicate 254 0)\<rparr>"

definition powered_on :: "(drive \<times> nat, u32 \<times> (u32 \<Rightarrow> u32)) machine_state" where
  "powered_on = \<lparr>mem = (\<lambda>_. 0), con = [], ports = [], ticks = 0, halted = False, stuck = False,
     bitmap = 0, bitmap_size = 0, max_pages = 0, last_free_page = 0, dev = (formatted, 5), keys = kbd_boot,
     int_fields = kernel.more boot_int,
     tty_fields = kernel.more \<lparr>mem = (\<lambda>_. 0), con = [], ports = [], ticks = 0, halted = False, stuck = False,
       fb_addr = 0, fb_width = 0, fb_height = 0, fb_pitch = 0, fb_bpp = 0, cx = 0, cy = 0\<rparr>,
     config = sim_state\<rparr>"

definition demo_boot :: "(drive \<times> nat, u32 \<times> (u32 \<Rightarrow> u32)) boot_env" where
  "demo_boot = \<lparr>vbe = 0x7E00, mask_ports = (\<lambda>_. 0xFF), stubs = boot_symbols, boot_cpu = (\<lambda>_. (0, 0, 0, 0)),
     boot_regs = panic_regs demo_env, bus = sim_bus, pcis = replicate 1024 \<lparr>pci = no_device, out_bus = 0, out_dev = 0, out_func = 0\<rparr>,
     boot_disk = pio, boot_superblock = 0x20000, ptable = 0x30000, task1_entry = 0x12000, sh_entry = 0x13000,
     ticks_at = 0x20968, idt_ptr_at = 0x20960,
     pmm_vars = \<lparr>at_bitmap = 0x20970, at_bitmap_size = 0x20974, at_max_pages = 0x20978, at_last_free_page = 0x20980\<rparr>\<rparr>"

lemma demo_layout: "layout_ok demo_boot"
  unfolding layout_ok_def image_parts_def by (simp add: demo_boot_def boot_symbols_def, intro conjI)
    (rule regions_disjoint regions_disjoint [THEN trans [OF Int_commute]]; simp; fail)+

text \<open>
  The build links \<open>interrupts.o\<close> behind \<open>kfs.o\<close>, so the table may follow the superblock, as here at the
  next multiple of 32. The keyboard's vector is then out of reach of the sector; the divide error's
  starts at its byte 352, and \<open>scripts/genkfs.py\<close> fills the sector with zeros from byte 328 on.
\<close>

lemma kmain_starts_witness:
  "\<exists>s'. kmain demo_boot powered_on = Some s' \<and> \<not> halted s' \<and> starts_at 0x30000 s' 1 0x13000 \<and> gate_target (idt (ints s') ! 0x21) = 0x11030
    \<and> gate_target (idt (ints s') ! 0) = 0 \<and> stub_of (stubs demo_boot) 0 = 0x11010"
proof -
  have "ata_ready pio fst snd 1000 (dev powered_on)"
    by (simp add: ata_ready_def pio_drive powered_on_def formatted_def blank_disk_def)
  moreover have "take 4 (sector_of fst (dev powered_on) 0) = [0x4B, 0x46, 0x53, 0x30]"
    by (simp add: sector_of_def powered_on_def formatted_def word_bytes_def byte_n_def drop_bit_eq_div)
  moreover have "length (idt (ints powered_on)) = 256"
    by (simp add: ints_def powered_on_def idt_extend) (simp add: boot_int_def)
  ultimately obtain s' where s': "kmain demo_boot powered_on = Some s'" "\<not> halted s'" "starts_at 0x30000 s' 1 0x13000"
    "\<forall>n < 256. region (gate_at boot_symbols n) 8 \<inter> region 0x20000 512 = {} \<longrightarrow> gate_target (idt (ints s') ! n) = stub_of boot_symbols n"
    "\<forall>n < 256. \<forall>k \<le> 504. gate_at boot_symbols n = 0x20000 + of_nat k \<longrightarrow>
         idt (ints s') ! n = entry_of (take 8 (drop k (sector_of fst (dev powered_on) 0)))"
    using kmain_starts [of demo_boot fst snd 1000 powered_on] demo_layout by (simp add: demo_boot_def) (auto simp: powered_on_def)
  have "region 0x20268 8 \<inter> region 0x20000 512 = {}" by (subst Int_commute, rule regions_disjoint) simp_all
  then have "gate_target (idt (ints s') ! 0x21) = 0x11030" using s'(4) by (simp add: gate_at_def boot_symbols_def stub_of_def)
  moreover have zeros: "word_bytes (replicate n 0) = replicate (2 * n) 0" for n by (induction n) (simp_all add: word_bytes_def byte_n_def)
  then have "take 8 (drop 352 (sector_of fst (dev powered_on) 0)) = replicate 8 0"
    by (simp add: powered_on_def formatted_def sector_of_def word_bytes_def zeros [unfolded word_bytes_def])
  then have "idt (ints s') ! 0 = entry_of (replicate 8 0)" using s'(5) [rule_format, of 0 352] by (simp add: gate_at_def boot_symbols_def)
  then have "gate_target (idt (ints s') ! 0) = 0" by (simp add: entry_of_def gate_target_def numeral_2_eq_2)
  moreover have "stub_of (stubs demo_boot) 0 = 0x11010" by (simp add: stub_of_def demo_boot_def boot_symbols_def)
  ultimately show ?thesis using s'(1-3) by blast
qed

end
