(* ===== verification/Boot_Props.thy ===== *)
theory Boot_Props
  imports Boot
begin

text \<open>
  From the process table \<open>kmain\<close> leaves to the shell: what a switch to a new process needs of
  memory, and that the scheduler makes it.
\<close>

section \<open>From the table to the shell\<close>

text \<open>Only the context pointer and the five-cell frame of a process decide where a switch to it goes.\<close>

lemma switch_starts:
  assumes "cget pt (context_cell i) t = cell_at pt (stack_cell i 1001)" and "cget pt (stack_cell i 1005) t = fn"
    and "(region (esp r - 28) 28 \<union> region old 4) \<inter> region (cell_at pt (stack_cell i 1001)) 20 = {}"
  shows "eip (fst (swtch_call f old (cget pt (context_cell i) t) ret (r, t))) = fn"
    and "esp (fst (swtch_call f old (cget pt (context_cell i) t) ret (r, t))) = cell_at pt (stack_cell i 1006)"
proof -
  let ?new = "cell_at pt (stack_cell i 1001)"
  have "\<forall>a \<in> region ?new 20. mem (snd (swtch_call f old ?new ret (r, t))) a = mem t a"
    using assms(3) by (auto intro!: swtch_frame)
  from ld32_frame [OF this, of 16] have "ld32 (mem (snd (swtch_call f old ?new ret (r, t)))) (?new + 16) = ld32 (mem t) (?new + 16)" by simp
  moreover have at: "?new + of_nat (4 * n) = cell_at pt (stack_cell i (1001 + n))" for n
    by (simp add: cell_at_def stack_cell_def)
  ultimately show "eip (fst (swtch_call f old (cget pt (context_cell i) t) ret (r, t))) = fn"
    using assms(1,2) at [of 4] by (simp add: swtch_call_regs cget_def)
  show "esp (fst (swtch_call f old (cget pt (context_cell i) t) ret (r, t))) = cell_at pt (stack_cell i 1006)"
    using assms(1) at [of 5] by (simp add: swtch_call_regs)
qed

lemma starts_at_kept:
  assumes "starts_at pt s i fn"
    and "\<forall>a \<in> region (cell_at pt (context_cell i)) 4 \<union> region (cell_at pt (stack_cell i 1001)) 20. mem t a = mem s a"
  shows "cget pt (context_cell i) t = cell_at pt (stack_cell i 1001)" and "cget pt (stack_cell i 1005) t = fn"
proof -
  have "ld32 (mem t) (cell_at pt (context_cell i)) = ld32 (mem s) (cell_at pt (context_cell i))"
    using assms(2) by (intro ld32_cong) blast
  then show "cget pt (context_cell i) t = cell_at pt (stack_cell i 1001)" using assms(1) by (simp add: starts_at_def cget_def)
  have "ld32 (mem t) (cell_at pt (stack_cell i 1001) + of_nat 16) = ld32 (mem s) (cell_at pt (stack_cell i 1001) + of_nat 16)"
    using assms(2) by (intro ld32_frame [where n = 20]) auto
  then show "cget pt (stack_cell i 1005) t = fn" using assms(1)
    by (simp add: starts_at_def cget_def cell_at_def stack_cell_def ac_simps)
qed

section \<open>Properties\<close>

text \<open>
  C13: from power-on to the shell. When \<open>kmain\<close> hands over to the scheduler, the counter task and
  the shell each get a turn in any eight steps of its loop, such runs exist, and the switch to
  the shell's context, as long as nobody wrote it, starts \<open>sh\<close>.
\<close>

theorem boot_reaches_shell:
  fixes s :: "('d, 'c, 'a) machine_state_scheme"
  assumes "ata_ready (boot_disk E) view lag cap (dev s)" and "1 \<le> cap"
    and "take 4 (sector_of view (dev s) 0) = [0x4B, 0x46, 0x53, 0x30]" and "\<not> halted s"
  shows "\<exists>s'. kmain E s = Some s'
    \<and> (\<forall>ls y. sched_run (ptable E) (Scan 0, s') ls y \<and> 8 \<le> sum_list (map counts ls) \<longrightarrow> {Turn 0, Turn 1} \<subseteq> set ls)
    \<and> (\<exists>ls y. sched_run (ptable E) (Scan 0, s') ls y \<and> 8 \<le> sum_list (map counts ls))
    \<and> (\<forall>(t :: ('d, 'c, 'a) machine_state_scheme) f r old ret.
         (\<forall>a \<in> region (cell_at (ptable E) (context_cell 1)) 4 \<union> region (cell_at (ptable E) (stack_cell 1 1001)) 20. mem t a = mem s' a)
         \<and> (region (esp r - 28) 28 \<union> region old 4) \<inter> region (cell_at (ptable E) (stack_cell 1 1001)) 20 = {}
       \<longrightarrow> eip (fst (swtch_call f old (cget (ptable E) (context_cell 1) t) ret (r, t))) = sh_entry E)"
proof -
  obtain u where run: "kmain E s = Some (start_tasks E u)"
    using kmain_runs [OF assms] by blast
  define k where "k = start_tasks E u"
  have inv: "sched_inv (ptable E) (Scan 0, k)" and starts: "starts_at (ptable E) k 0 (task1_entry E)" "starts_at (ptable E) k 1 (sh_entry E)"
    unfolding k_def by (rule start_tasks_table)+
  have "Turn j \<in> set ls" if "sched_run (ptable E) (Scan 0, k) ls y" "8 \<le> sum_list (map counts ls)" "j \<in> {0, 1}" for ls y j
  proof -
    have "pstate (ptable E) k j \<noteq> state_code UNUSED" "j < 8" using starts that(3) by (auto simp: starts_at_def)
    then show ?thesis
      using sched_run_distance [OF that(1) inv, of j] that(2) distance_less [of j "Scan 0"] by auto
  qed
  moreover have "eip (fst (swtch_call f old (cget (ptable E) (context_cell 1) t) ret (r, t))) = sh_entry E"
    if "\<forall>a \<in> region (cell_at (ptable E) (context_cell 1)) 4 \<union> region (cell_at (ptable E) (stack_cell 1 1001)) 20. mem t a = mem k a"
      "(region (esp r - 28) 28 \<union> region old 4) \<inter> region (cell_at (ptable E) (stack_cell 1 1001)) 20 = {}" for t f r old ret
    by (rule switch_starts(1) [OF starts_at_kept [OF starts(2) that(1)] that(2)])
  ultimately show ?thesis
    using run sched_goes_on [OF inv, of 8] unfolding k_def [symmetric] by (intro exI [of _ k]) auto
qed

lemma boot_reaches_shell_witness:
  "\<exists>s' ls y. kmain demo_boot powered_on = Some s' \<and> sched_run 0x30000 (Scan 0, s') ls y \<and> {Turn 0, Turn 1} \<subseteq> set ls
    \<and> (\<forall>f. eip (fst (swtch_call f 0x9000 (cget 0x30000 (context_cell 1) s') 0x4444 (task_regs 0x80000, s'))) = 0x13000)"
proof -
  have ready: "ata_ready pio fst snd 1000 (dev powered_on)"
    by (simp add: ata_ready_def pio_drive powered_on_def formatted_def blank_disk_def)
  have magic: "take 4 (sector_of fst (dev powered_on) 0) = [0x4B, 0x46, 0x53, 0x30]"
    by (simp add: sector_of_def powered_on_def formatted_def word_bytes_def byte_n_def drop_bit_eq_div)
  have live: "\<not> halted powered_on" by (simp add: powered_on_def)
  have "region (esp (task_regs 0x80000) - 28) 28 \<inter> region (cell_at 0x30000 (stack_cell 1 1001)) 20 = {}"
    by (subst Int_commute, rule regions_disjoint) (simp_all add: task_regs_def cell_at_def stack_cell_def)
  then have clear: "(region (esp (task_regs 0x80000) - 28) 28 \<union> region 0x9000 4) \<inter> region (cell_at 0x30000 (stack_cell 1 1001)) 20 = {}"
    unfolding Int_Un_distrib2 by (simp only: Un_empty_left) (rule regions_disjoint; simp add: cell_at_def stack_cell_def)
  have demo: "boot_disk demo_boot = pio" "ptable demo_boot = 0x30000" "sh_entry demo_boot = 0x13000" by (simp_all add: demo_boot_def)
  obtain s' where s': "kmain demo_boot powered_on = Some s'"
      and fair: "\<forall>ls y. sched_run 0x30000 (Scan 0, s') ls y \<and> 8 \<le> sum_list (map counts ls) \<longrightarrow> {Turn 0, Turn 1} \<subseteq> set ls"
      and runs: "\<exists>ls y. sched_run 0x30000 (Scan 0, s') ls y \<and> 8 \<le> sum_list (map counts ls)"
      and starts: "\<forall>(t :: (drive \<times> nat, u32 \<times> (u32 \<Rightarrow> u32)) machine_state) f r old ret.
         (\<forall>a \<in> region (cell_at 0x30000 (context_cell 1)) 4 \<union> region (cell_at 0x30000 (stack_cell 1 1001)) 20. mem t a = mem s' a)
         \<and> (region (esp r - 28) 28 \<union> region old 4) \<inter> region (cell_at 0x30000 (stack_cell 1 1001)) 20 = {}
       \<longrightarrow> eip (fst (swtch_call f old (cget 0x30000 (context_cell 1) t) ret (r, t))) = 0x13000"
    using boot_reaches_shell [of demo_boot fst snd 1000 powered_on, unfolded demo, OF ready one_le_numeral magic live] by blast
  from runs fair obtain ls y where "sched_run 0x30000 (Scan 0, s') ls y" "{Turn 0, Turn 1} \<subseteq> set ls" by blast
  moreover have "\<forall>f. eip (fst (swtch_call f 0x9000 (cget 0x30000 (context_cell 1) s') 0x4444 (task_regs 0x80000, s'))) = 0x13000"
    by (intro allI, rule starts [rule_format]) (use clear in blast)
  ultimately show ?thesis using s' by blast
qed

end
