(* ===== verification/Boot_Memory.thy ===== *)
theory Boot_Memory
  imports Boot Pmm_Props
begin

text \<open>
  The page allocator in the state \<open>kmain\<close> hands over: nothing the kernel does between \<open>pmm_init\<close> and
  the scheduler disturbs it, so its promises hold for the running system - among which is not
  that the kernel's own pages stay its own.
\<close>

section \<open>The allocator's fields through kmain\<close>

abbreviation alloc_fields :: "'a pmm_state_scheme \<Rightarrow> u32 \<times> nat \<times> nat \<times> nat" where
  "alloc_fields s \<equiv> (bitmap s, bitmap_size s, max_pages s, last_free_page s)"

lemma silent_alloc: "silent (\<lambda>s. (mem s, alloc_fields s))" and blind_alloc: "blind alloc_fields"
  by (simp_all add: blind_def silent_def)

lemma blind_tasks:
  assumes "blind f"
  shows "f (start_tasks E s) = f s"
proof -
  have set: "f (cset pt c v s) = f s" for pt c v s by (simp add: cset_def blind_simps [OF assms])
  have spawn: "f (snd (task_l_spawn pt fn s)) = f s" for pt fn s
    by (simp add: task_l_spawn_def Let_def set split: option.split)
  have "f (fold (\<lambda>i. cset pt (state_cell i) v) xs s) = f s" for pt v xs s by (rule fold_frame) (rule set)
  then have "f (sched_init pt s) = f s" for pt s
    unfolding sched_init_def Let_def set by (simp only: blind_simps [OF assms])
  then show ?thesis by (simp only: start_tasks_def spawn)
qed

text \<open>The process table is 8210 cells; setting up and spawning write to no other memory.\<close>

lemma cset_outside: "c < 8210 \<Longrightarrow> a \<notin> region pt 32840 \<Longrightarrow> mem (cset pt c v s) a = mem s a"
  using region_offset [of pt "4 * c" 4] region_mono [of "4 * c + 4" 32840 pt]
  by (auto simp: cset_def cell_at_def intro!: st32_outside)

lemma tasks_outside:
  assumes "a \<notin> region (ptable E) 32840"
  shows "mem (start_tasks E s) a = mem s a"
proof -
  note out = cset_outside [OF _ assms]
  have spawn: "mem (snd (task_l_spawn (ptable E) fn s)) a = mem s a" for fn s
    by (auto simp: task_l_spawn_def Let_def out cells find_upt_Some NPROC_def split: option.split)
  have clear: "mem (fold (\<lambda>i. cset (ptable E) (state_cell i) v) [0..<NPROC] s) a = mem s a" for v s
    by (rule fold_invariant [where Q = "\<lambda>i. i < 8" and P = "\<lambda>t. mem t a = mem s a"]) (simp_all add: NPROC_def out cells)
  have "mem (sched_init (ptable E) s) a = mem s a" for s
    by (simp add: sched_init_def Let_def out clear klog_eq current_cell_def sched_context_cell_def tty_out_def)
  then show ?thesis by (simp only: start_tasks_def spawn)
qed

text \<open>Up to \<open>pmm_init\<close> only the terminal has written to memory.\<close>

lemma int_init_mem: "mem (int_init inb y s) = mem s"
proof -
  have "mem (fold (\<lambda>i. setgate (of_nat i) h) xs t) = mem t" for h xs and t :: "'a int_state_scheme"
    by (rule fold_frame) (simp add: setgate_def)
  then show ?thesis by (simp add: int_init_def Let_def pic_setm_def pic_remap_def setgate_def [of _ _ "fold _ _ _"] setgate_def)
qed

lemma on_int_mem: "mem (on_int (int_init inb y) s) = mem s"
  by (simp add: on_int_def Let_def int_init_mem) (simp add: kernel.defs)

lemma before_pmm_alloc:
  "mem (before_pmm E s) = mem (on_tty (tty_init (vbe E)) s)" "alloc_fields (before_pmm E s) = alloc_fields s"
proof -
  note out = silent_simps [OF silent_alloc] silent_steps [OF silent_alloc]
  let ?t = "on_tty (tty_init (vbe E)) s"
  let ?p = "pitsetfreq 1000 (banner ?t)"
  let ?i = "on_int (int_init (mask_ports E) (stubs E)) ?p"
  have "(mem (before_pmm E s), alloc_fields (before_pmm E s)) = (mem ?i, alloc_fields ?i)"
    unfolding before_pmm_def Let_def by (simp only: out)
  moreover have "(mem ?p, alloc_fields ?p) = (mem ?t, alloc_fields ?t)" by (simp only: out)
  moreover have "mem ?i = mem ?p" "alloc_fields ?i = alloc_fields ?p" by (simp_all only: on_int_mem) (simp add: on_int_def Let_def)
  moreover have "alloc_fields ?t = alloc_fields s" by (simp add: on_tty_def Let_def)
  ultimately show "mem (before_pmm E s) = mem ?t" "alloc_fields (before_pmm E s) = alloc_fields s" by simp_all
qed

lemma before_mount_alloc:
  "mem (before_mount E s) = mem (pmm_init (before_pmm E s))"
  "alloc_fields (before_mount E s) = alloc_fields (pmm_init (before_pmm E s))"
proof -
  let ?q = "pmm_init (before_pmm E s)"
  obtain found c where "pciEnumerate (bus E) (config ?q) = (found, c)" by fastforce
  then have "before_mount E s = pci_list (found @ drop (length found) (pcis E)) (?q\<lparr>config := c\<rparr>)"
    by (simp add: before_mount_def Let_def)
  then have "(mem (before_mount E s), alloc_fields (before_mount E s)) = (mem ?q, alloc_fields ?q)"
    using silent_steps(5) [OF silent_alloc, of "found @ drop (length found) (pcis E)" "?q\<lparr>config := c\<rparr>"] by simp
  then show "mem (before_mount E s) = mem ?q" "alloc_fields (before_mount E s) = alloc_fields ?q" by simp_all
qed

section \<open>The allocator after kmain\<close>

lemma bitmap_kept:
  assumes "\<forall>x \<in> region (bitmap q) (bitmap_size q). mem t x = mem q x" and "alloc_fields t = alloc_fields q"
    and "pmm_wf q" and "metadata_safe q" and "0 < max_pages q"
  shows "p < max_pages q \<Longrightarrow> BITMAP_TEST t p = BITMAP_TEST q p" and "pmm_wf t" and "metadata_safe t"
proof -
  have size: "max_pages q \<le> 8 * bitmap_size q" using assms(4) by (simp add: metadata_safe_def)
  show same: "p < max_pages q \<Longrightarrow> BITMAP_TEST t p = BITMAP_TEST q p" for p
  proof -
    assume "p < max_pages q"
    then have "bitmap_at q p \<in> region (bitmap q) (bitmap_size q)" using size by (auto simp: bitmap_at_def)
    then show ?thesis using assms(1,2) by (simp add: BITMAP_TEST_def bitmap_at_def)
  qed
  show "pmm_wf t" using assms(2,3,5) same [of 0] by (simp add: pmm_wf_def)
  show "metadata_safe t" using assms(2,4) same by (simp add: metadata_safe_def)
qed

lemma pmm_variables_cong: "alloc_fields s = alloc_fields t \<Longrightarrow> pmm_variables Y s = pmm_variables Y t"
  by (simp add: pmm_variables_def)

text \<open>Mounting, with the variables stored before and fetched after it.\<close>

lemma fetch_alloc:
  assumes "layout_ok E" and "length (idt (ints b)) = 256" and "pmm_fits b" and "length bs = 512"
    and "region (boot_superblock E) 512 \<inter> pmm_cells (pmm_vars E) = {}"
  shows "alloc_fields (fetch E ((spill E b)\<lparr>mem := poke (boot_superblock E) bs (mem (spill E b)), dev := d\<rparr>)) = alloc_fields b"
proof -
  let ?m = "poke (boot_superblock E) bs (mem (spill E b))"
  have "\<forall>x \<in> pmm_cells (pmm_vars E). ?m x = store_vars (kernel_variables E b) (mem b) x"
    using assms(4,5) by (auto simp: spill_def intro!: poke_outside)
  moreover have "set (pmm_variables (pmm_vars E) b) \<subseteq> set (kernel_variables E b)" by (auto simp: kernel_variables_def)
  ultimately show ?thesis
    using load_pmm_stored [OF kernel_apart [OF assms(1,2)] _ assms(3) refl, where m = "mem b" and Y = "pmm_vars E"
        and t = "(spill E b)\<lparr>mem := ?m, dev := d, ticks := of_nat (value_of (peek ?m (ticks_at E) 4)),
          int_fields := kernel.more (fetch_ints E ?m (ints ((spill E b)\<lparr>mem := ?m, dev := d\<rparr>)))\<rparr>"]
    by (simp add: fetch_def)
qed

lemma fetch_mem: "mem (fetch E s) = mem s"
  by (simp add: fetch_def load_pmm_def)

lemma kmain_allocator:
  assumes "ata_ready (boot_disk E) view lag cap (dev s)" and "1 \<le> cap"
    and "take 4 (sector_of view (dev s) 0) = [0x4B, 0x46, 0x53, 0x30]" and "\<not> halted s"
    and "length (idt (ints s)) = 256" and "layout_ok E" and "region (boot_superblock E) 512 \<inter> pmm_cells (pmm_vars E) = {}"
  defines "q \<equiv> pmm_init (before_pmm E s)"
  assumes "kernel_memory E \<inter> region (bitmap q) (bitmap_size q) = {}" and "pmm_fits q"
  shows "\<exists>s'. kmain E s = Some s' \<and> alloc_fields s' = alloc_fields q
    \<and> (\<forall>x \<in> region (bitmap q) (bitmap_size q). mem s' x = mem q x)"
proof -
  let ?bs = "sector_of view (dev s) 0"
  let ?b = "before_mount E s"
  let ?m = "poke (boot_superblock E) ?bs (mem (spill E ?b))"
  obtain d where run: "kmain E s = Some (start_tasks E (fetch E ((spill E ?b)\<lparr>mem := ?m, dev := d\<rparr>)))"
    using kmain_runs [OF assms(1-4)] by blast
  let ?u = "fetch E ((spill E ?b)\<lparr>mem := ?m, dev := d\<rparr>)"
  have "length (ata.contents view (dev s) 0 1) = 512" using ata.length_contents [OF assms(1), of 0 1] assms(2) by simp
  then have len: "length ?bs = 512" by (simp only: ata.contents_one)
  note table = before_mount_table [OF assms(5), where E = E]
  have alloc: "alloc_fields ?b = alloc_fields q" using before_mount_alloc(2) [of E s] by (simp only: q_def)
  have "mem (start_tasks E ?u) x = mem q x" if "x \<in> region (bitmap q) (bitmap_size q)" for x
  proof -
    have x: "x \<notin> kernel_memory E" using that assms(9) by blast
    then have "x \<notin> region (ptable E) 32840" "x \<notin> region (boot_superblock E) (length ?bs)"
      using len by (simp_all add: kernel_memory_def image_parts_def)
    moreover have "mem (spill E ?b) x = mem ?b x"
      using x kernel_extents [OF _ table] by (auto simp: spill_def intro!: store_vars_outside)
    ultimately show ?thesis by (simp add: tasks_outside poke_outside fetch_mem before_mount_alloc(1) q_def)
  qed
  moreover have "pmm_fits ?b" using alloc assms(10) by (simp add: pmm_fits_def)
  then have "alloc_fields (start_tasks E ?u) = alloc_fields q"
    using fetch_alloc [OF assms(6) table _ len assms(7)] alloc unfolding blind_tasks [OF blind_alloc] by metis
  ultimately show ?thesis using run by (intro exI conjI) auto
qed

text \<open>
  The hypotheses about the map, on what the screen clearing leaves of it, and about the image: its
  parts do not overlap, the memory the owners of blocks keep off (\<open>own\<close>) contains them, and the
  sector read at the superblock does not reach the allocator's variables.
\<close>

definition boot_map_ok :: "memory \<Rightarrow> u32 set \<Rightarrow> nat \<Rightarrow> bool" where
  "boot_map_ok m own i \<longleftrightarrow> init_ok m i \<and> plain_map m \<and> 4096 \<le> max_end m (e820_count m)
     \<and> own \<inter> region (base_low (e820_at m i)) (bitmap_bytes (max_end m (e820_count m) div PAGE_SIZE)) = {}"

definition boot_image_ok :: "('d, 'c) boot_env \<Rightarrow> u32 set \<Rightarrow> bool" where
  "boot_image_ok E own \<longleftrightarrow> layout_ok E \<and> kernel_memory E \<subseteq> own \<and> region (boot_superblock E) 512 \<inter> pmm_cells (pmm_vars E) = {}"

lemma boot_image_layout: "boot_image_ok E own \<Longrightarrow> pmm_layout_ok (pmm_vars E) own"
  by (auto simp: boot_image_ok_def pmm_layout_ok_def layout_ok_def image_parts_def kernel_memory_def pmm_cells_def)

lemma kmain_allocator_ok:
  assumes "ata_ready (boot_disk E) view lag cap (dev s)" and "1 \<le> cap"
    and "take 4 (sector_of view (dev s) 0) = [0x4B, 0x46, 0x53, 0x30]" and "\<not> halted s"
    and "length (idt (ints s)) = 256" and "last_free_page s = 0"
    and "boot_map_ok (mem (on_tty (tty_init (vbe E)) s)) own i" and "boot_image_ok E own"
  defines "q \<equiv> pmm_init (before_pmm E s)"
  shows "\<exists>s'. kmain E s = Some s' \<and> alloc_fields s' = alloc_fields q \<and> pmm_wf s' \<and> metadata_safe s'
    \<and> (\<forall>p < max_pages q. BITMAP_TEST s' p = BITMAP_TEST q p) \<and> own \<inter> region (bitmap q) (bitmap_size q) = {}"
proof -
  have ok: "init_ok (mem (before_pmm E s)) i" "plain_map (mem (before_pmm E s))"
    "4096 \<le> max_end (mem (before_pmm E s)) (e820_count (mem (before_pmm E s)))"
    "own \<inter> region (bitmap q) (bitmap_size q) = {}"
    and fresh: "last_free_page (before_pmm E s) = 0"
    using assms(6,7) pmm_init_used(4,7) [of "before_pmm E s" i] before_pmm_alloc [of E s]
    by (simp_all add: boot_map_ok_def q_def)
  have safe: "pmm_wf q" "metadata_safe q"
    using pmm_init_safe [OF ok(1) fresh init_ok_aligned [OF ok(1,2)]] by (simp_all add: q_def)
  have pos: "0 < max_pages q" using pmm_init_used(1) [OF ok(1)] ok(3) by (simp add: q_def PAGE_SIZE_def)
  have "max_pages q \<le> 2 ^ 20" "last_free_page q \<le> max_pages q" using safe(1) by (simp_all add: pmm_wf_def)
  moreover have "bitmap_size q = bitmap_bytes (max_pages q)" using pmm_init_used(1,7) [OF ok(1)] by (simp add: q_def)
  ultimately have fits: "pmm_fits q" using bitmap_bytes_bounds(2) [of "max_pages q"] by (simp add: pmm_fits_def)
  have image: "layout_ok E" "region (boot_superblock E) 512 \<inter> pmm_cells (pmm_vars E) = {}" "kernel_memory E \<inter> region (bitmap q) (bitmap_size q) = {}"
    using assms(8) ok(4) by (auto simp: boot_image_ok_def)
  obtain s' where s': "kmain E s = Some s'" "alloc_fields s' = alloc_fields q" "\<forall>x \<in> region (bitmap q) (bitmap_size q). mem s' x = mem q x"
    using kmain_allocator [OF assms(1-5) image(1,2)] image(3) fits unfolding q_def by blast
  from s'(1,2) bitmap_kept [OF s'(3,2) safe pos] ok(4) show ?thesis by blast
qed

section \<open>Low memory\<close>

lemma max_end_ge: "j < k \<Longrightarrow> usable m j \<Longrightarrow> unat (region_end (e820_at m j)) \<le> max_end m k"
  by (induction k) (auto simp: max_end_def less_Suc_eq le_max_iff_disj)

text \<open>Conventional memory is entry \<open>j\<close>, from address 0, as the BIOS reports it; the bitmap is above 1 MiB.\<close>

definition low_ram :: "memory \<Rightarrow> nat \<Rightarrow> bool" where
  "low_ram m j \<longleftrightarrow> j < e820_count m \<and> usable m j \<and> base_low (e820_at m j) = 0 \<and> base_high (e820_at m j) = 0
     \<and> length_high (e820_at m j) = 0 \<and> length_low (e820_at m j) \<le> 0x100000"

lemma low_pages_free:
  assumes ok: "init_ok (mem s) i" and high: "0x100000 \<le> base_low (e820_at (mem s) i)" and low: "low_ram (mem s) j"
    and p: "0 < p" "p < unat (length_low (e820_at (mem s) j)) div 4096"
  shows "p < max_pages (pmm_init s)" and "\<not> BITMAP_TEST (pmm_init s) p"
proof -
  let ?e = "e820_at (mem s) j"
  have "region_end ?e = length_low ?e" using low by (simp add: low_ram_def region_end_def)
  then have "unat (length_low ?e) \<le> max_end (mem s) (e820_count (mem s))"
    using low max_end_ge [of j "e820_count (mem s)" "mem s"] by (simp add: low_ram_def)
  then have n: "p < max_end (mem s) (e820_count (mem s)) div PAGE_SIZE"
    unfolding PAGE_SIZE_def by (rule less_le_trans [OF p(2) div_le_mono])
  have "unat (length_low ?e) \<le> unat (0x100000 :: u32)" "unat (0x100000 :: u32) \<le> unat (base_low (e820_at (mem s) i))"
    using low high by (simp_all only: low_ram_def word_le_nat_alt)
  then have "unat (length_low ?e) div 4096 \<le> 256" "256 \<le> unat (base_low (e820_at (mem s) i)) div 4096" by simp_all
  then have "p \<notin> bitmap_pages (pmm_init s)" using p(2) pmm_init_used(4) [OF ok] by (auto simp: bitmap_pages_def PAGE_SIZE_def Let_def)
  moreover have "p \<in> region_pages (mem s) j" "usable (mem s) j" "j < e820_count (mem s)"
    using low p by (simp_all add: low_ram_def region_pages_def PAGE_SIZE_def)
  ultimately show "\<not> BITMAP_TEST (pmm_init s) p" using pmm_init_used(5) [OF ok n] p(1) by blast
  show "p < max_pages (pmm_init s)" using n pmm_init_used(1) [OF ok] by simp
qed

lemma first_block_low:
  assumes "init_ok (mem s) i" and "0x100000 \<le> base_low (e820_at (mem s) i)" and "low_ram (mem s) j" and "last_free_page s = 0"
    and "n \<noteq> 0" and "unat n < unat (length_low (e820_at (mem s) j)) div 4096"
    and t: "alloc_fields t = alloc_fields (pmm_init s)" "\<And>p. p < max_pages (pmm_init s) \<Longrightarrow> BITMAP_TEST t p = BITMAP_TEST (pmm_init s) p"
  shows "fst (pmm_alloc n t) = 0x1000"
proof -
  note free = low_pages_free [OF assms(1-3)]
  have n: "0 < unat n" using assms(5) by (simp add: unat_gt_0)
  have room: "unat n < max_pages (pmm_init s)" by (rule free(1) [OF n assms(6)])
  have "BITMAP_TEST t 0" using pmm_init_used(8) [OF assms(1)] t(2) [of 0] room by simp
  moreover have "\<not> BITMAP_TEST t p" if "p \<in> {1..<1 + unat n}" for p
    using free [of p] t(2) [of p] that assms(6) by simp
  ultimately have "first_fit t (unat n) 0 (max_pages t) = Some 1"
    using n room t(1) by (auto simp: first_fit_def find_upt_Some free_run_def)
  moreover have "last_free_page t = 0" using pmm_init_used(2) [OF assms(1)] assms(4) t(1) by simp
  ultimately show ?thesis using assms(5) by (simp add: pmm_alloc_eq take_pages_def page_address_def PAGE_SIZE_def Let_def)
qed

text \<open>The map of a small machine: 636 KiB of conventional memory and two pages at 1 MiB.\<close>

definition pc_memory :: memory where
  "pc_memory = st16 MMAPCOUNT 2 (st32 0x8008 0x9F000 (st32 0x8010 1
     (st32 0x8014 0x100000 (st32 0x801C 0x2000 (st32 0x8024 1 (\<lambda>_. 0))))))"

lemma pc_map:
  "e820_count pc_memory = 2"
  "e820_at pc_memory 0 = \<lparr>base_low = 0, base_high = 0, length_low = 0x9F000, length_high = 0, e_type = 1\<rparr>"
  "e820_at pc_memory (Suc 0) = \<lparr>base_low = 0x100000, base_high = 0, length_low = 0x2000, length_high = 0, e_type = 1\<rparr>"
proof -
  have "le32 0 0 0 0 = 0" by (simp add: le32_def)
  then show "e820_count pc_memory = 2"
    "e820_at pc_memory 0 = \<lparr>base_low = 0, base_high = 0, length_low = 0x9F000, length_high = 0, e_type = 1\<rparr>"
    "e820_at pc_memory (Suc 0) = \<lparr>base_low = 0x100000, base_high = 0, length_low = 0x2000, length_high = 0, e_type = 1\<rparr>"
    by (simp_all add: pc_memory_def e820_count_def e820_at_def ld16_def st16_def ld32_def st32_def MMAPCOUNT_def MMAPADDR_def)
qed

lemma pc_init_ok: "init_ok pc_memory 1"
proof -
  have "[0..<2] = [0, Suc 0]" by (simp add: numeral_2_eq_2)
  then show ?thesis
    by (simp add: init_ok_def pc_map max_end_def usable_def region_end_def place_in_def bitmap_bytes_def PAGE_SIZE_def)
qed

text \<open>An image from \<open>0x10000\<close> to \<open>0x40000\<close>.\<close>

lemma pc_boot_map: "boot_map_ok pc_memory (region 0x10000 0x30000) 1"
proof -
  have "[0..<2] = [0, Suc 0]" by (simp add: numeral_2_eq_2)
  then have top: "max_end pc_memory 2 = 0x102000" by (simp add: max_end_def pc_map usable_def region_end_def)
  have "region 0x10000 0x30000 \<inter> region 0x100000 33 = {}" by (rule regions_disjoint; simp)
  moreover have "j < 2 \<Longrightarrow> j = 0 \<or> j = Suc 0" for j :: nat by arith
  then have "plain_map pc_memory" unfolding plain_map_def pc_map(1) by (force simp: pc_map)
  ultimately show ?thesis using pc_init_ok top
    by (simp add: boot_map_ok_def pc_map bitmap_bytes_def PAGE_SIZE_def)
qed

lemma pc_image: "boot_image_ok demo_boot (region 0x10000 0x30000)"
proof -
  have sub: "n + k \<le> 0x30000 \<Longrightarrow> region (0x10000 + of_nat n) k \<subseteq> region 0x10000 0x30000" for n k
    using region_offset [of "0x10000" n k] region_mono [of "n + k" "0x30000" "0x10000"] by blast
  have "kernel_memory demo_boot \<subseteq> region 0x10000 0x30000"
    using sub [of "0x10000" 328] sub [of "0x10000" 512] sub [of "0x20000" 32840] sub [of "0x10968" 4] sub [of "0x10960" 6] sub [of "0x10970" 4]
      sub [of "0x10974" 4] sub [of "0x10978" 8] sub [of "0x10980" 8] sub [of "0x10160" 2048]
    by (simp add: kernel_memory_def image_parts_def demo_boot_def boot_symbols_def)
  moreover have "region 0x20000 512 \<inter> region 0x20970 4 = {}" "region 0x20000 512 \<inter> region 0x20974 4 = {}"
    "region 0x20000 512 \<inter> region 0x20978 8 = {}" "region 0x20000 512 \<inter> region 0x20980 8 = {}"
    by (rule regions_disjoint; simp)+
  then have "region (boot_superblock demo_boot) 512 \<inter> pmm_cells (pmm_vars demo_boot) = {}"
    by (simp add: pmm_cells_def demo_boot_def Int_Un_distrib)
  ultimately show ?thesis using demo_layout by (simp add: boot_image_ok_def)
qed

lemma pc_machine:
  "mem (on_tty (tty_init (vbe demo_boot)) (powered_on\<lparr>mem := pc_memory\<rparr>)) = pc_memory"
proof -
  have "ld16 pc_memory 0x7E12 = 0"
    by (simp add: pc_memory_def ld16_def st16_def st32_def MMAPCOUNT_def le16_def)
  then have "fb_init 0x7E00 t = t" if "mem t = pc_memory" for t :: tty_state using that by (simp add: fb_init_def)
  then show ?thesis
    by (simp add: on_tty_def Let_def tty_init_def demo_boot_def fb_fill_def powered_on_def kernel.defs)
qed

section \<open>Properties\<close>

text \<open>
  C17: \<open>pmm_init\<close> does not keep the kernel's memory. When the map reports conventional memory and the
  bitmap lies above 1 MiB, the first request that fits below is answered with page 1, and one of
  16 pages or more holds address \<open>0x10000\<close>, where the image is linked and loaded (one of 8, the E820
  map itself): its owner writes over the kernel's code.
\<close>

theorem pmm_gives_kernel_away:
  assumes "init_ok (mem s) i" and "0x100000 \<le> base_low (e820_at (mem s) i)" and "low_ram (mem s) j" and "last_free_page s = 0"
    and "n \<noteq> 0" and "unat n < unat (length_low (e820_at (mem s) j)) div 4096"
  shows "fst (pmm_alloc n (pmm_init s)) = 0x1000 \<and> (8 \<le> unat n \<longrightarrow> MMAPADDR \<in> region 0x1000 (4096 * unat n))
    \<and> (16 \<le> unat n \<longrightarrow> 0x10000 \<in> region 0x1000 (4096 * unat n))"
  using first_block_low [OF assms refl refl] region_memberI [of "0x7000" "4096 * unat n" "0x1000"] region_memberI [of "0xF000" "4096 * unat n" "0x1000"]
  by (simp add: MMAPADDR_def)

lemma pmm_gives_kernel_away_witness:
  "fst (pmm_alloc 16 (pmm_init (boot_state\<lparr>mem := pc_memory\<rparr>))) = 0x1000 \<and> (0x10000 :: u32) \<in> region 0x1000 (4096 * 16)"
  using pmm_gives_kernel_away [of "boot_state\<lparr>mem := pc_memory\<rparr>" 1 0 16] pc_init_ok
  by (simp add: pc_map low_ram_def usable_def boot_state_def)

text \<open>
  C14: the allocator in the running system. Once \<open>kmain\<close> has reached the scheduler, any sequence of
  \<open>pmm_alloc\<close>, \<open>pmm_free\<close> of live blocks and writes into them keeps the live blocks apart, marked,
  off the bitmap and on pages every byte of which is RAM in the E820 map: what \<open>kmain\<close> does after
  \<open>pmm_init\<close> (the PCI list, mounting with the sector that overruns the superblock, the process
  table) leaves the allocator alone. This holds of owners that keep off the kernel's own memory
  \<open>own\<close> - the allocator does not keep it from them (C17) - when the bitmap is not placed there and
  the sector does not reach the allocator's variables.
\<close>

theorem boot_blocks_safe:
  assumes "ata_ready (boot_disk E) view lag cap (dev s)" and "1 \<le> cap"
    and "take 4 (sector_of view (dev s) 0) = [0x4B, 0x46, 0x53, 0x30]" and "\<not> halted s"
    and "length (idt (ints s)) = 256" and "last_free_page s = 0"
    and "mem (on_tty (tty_init (vbe E)) s) = m" and "boot_map_ok m own i" and "boot_image_ok E own"
  shows "\<exists>s'. kmain E s = Some s' \<and> (\<forall>t L. pmm_run (pmm_vars E) own s' t L \<longrightarrow> live_blocks (BITMAP_TEST t) (max_pages t) L
    \<and> (\<forall>b \<in> set L. \<forall>p \<in> block b. p \<notin> bitmap_pages s' \<and> page_ram m p))"
proof -
  let ?s = "before_pmm E s"
  have m: "mem ?s = m" "last_free_page ?s = 0" using assms(6,7) before_pmm_alloc [of E s] by simp_all
  have ok: "init_ok (mem ?s) i" "plain_map (mem ?s)" using assms(8) m(1) by (simp_all add: boot_map_ok_def)
  obtain s' where s': "kmain E s = Some s'" "alloc_fields s' = alloc_fields (pmm_init ?s)" "pmm_wf s'" "metadata_safe s'"
    "\<forall>p < max_pages (pmm_init ?s). BITMAP_TEST s' p = BITMAP_TEST (pmm_init ?s) p"
    "own \<inter> region (bitmap (pmm_init ?s)) (bitmap_size (pmm_init ?s)) = {}"
    using kmain_allocator_ok [OF assms(1-6) _ assms(9)] assms(7,8) by blast
  from s'(2) have same: "bitmap s' = bitmap (pmm_init ?s)" "bitmap_size s' = bitmap_size (pmm_init ?s)" "max_pages s' = max_pages (pmm_init ?s)"
    by simp_all
  from s'(5) same(3) have "\<forall>p < max_pages s'. BITMAP_TEST s' p = BITMAP_TEST (pmm_init ?s) p" by simp
  note blocks = pmm_blocks_from [OF ok(1) m(2) ok(2) same s'(3,4) this boot_image_layout [OF assms(9)] s'(6), unfolded m(1)]
  show ?thesis using s'(1) blocks by blast
qed

lemma boot_blocks_safe_witness:
  "\<exists>s' t. kmain demo_boot (powered_on\<lparr>mem := pc_memory\<rparr>) = Some s'
    \<and> pmm_run (pmm_vars demo_boot) (region 0x10000 0x30000) s' t [(0x1000, 16)]
    \<and> live_blocks (BITMAP_TEST t) (max_pages t) [(0x1000, 16)] \<and> page_ram pc_memory 1"
proof -
  let ?s = "powered_on\<lparr>mem := pc_memory\<rparr>"
  let ?b = "before_pmm demo_boot ?s"
  have ready: "ata_ready (boot_disk demo_boot) fst snd 1000 (dev ?s)"
    by (simp add: ata_ready_def pio_drive powered_on_def formatted_def blank_disk_def demo_boot_def)
  have magic: "take 4 (sector_of fst (dev ?s) 0) = [0x4B, 0x46, 0x53, 0x30]"
    by (simp add: sector_of_def powered_on_def formatted_def word_bytes_def byte_n_def drop_bit_eq_div)
  have rest: "\<not> halted ?s" "last_free_page ?s = 0" by (simp_all add: powered_on_def)
  have table: "length (idt (ints ?s)) = 256" by (simp add: ints_def powered_on_def idt_extend) (simp add: boot_int_def)
  note all = ready _ magic rest(1) table rest(2)
  have mem: "mem ?b = pc_memory" "last_free_page ?b = 0" using before_pmm_alloc [of demo_boot ?s] pc_machine rest(2) by simp_all
  obtain s' where s': "kmain demo_boot ?s = Some s'" "alloc_fields s' = alloc_fields (pmm_init ?b)"
    "\<forall>p < max_pages (pmm_init ?b). BITMAP_TEST s' p = BITMAP_TEST (pmm_init ?b) p"
    using kmain_allocator_ok [OF all _ pc_image, of 1] pc_boot_map pc_machine by auto
  have "fst (pmm_alloc 16 s') = 0x1000"
    by (rule first_block_low [of ?b 1 0]) (use mem pc_init_ok s'(2,3) in \<open>simp_all add: pc_map low_ram_def usable_def\<close>)
  then have run: "pmm_run (pmm_vars demo_boot) (region 0x10000 0x30000) s' (snd (pmm_alloc 16 s')) [(0x1000, 16)]"
    by (intro pmm_run.alloc [OF pmm_run.start]) (simp_all add: prod_eq_iff)
  have one: "1 \<in> block (0x1000, 16)" by (simp add: block_def)
  from boot_blocks_safe [OF all pc_machine pc_boot_map pc_image] s'(1) run
  have "live_blocks (BITMAP_TEST (snd (pmm_alloc 16 s'))) (max_pages (snd (pmm_alloc 16 s'))) [(0x1000, 16)]
      \<and> (\<forall>p \<in> block (0x1000, 16). page_ram pc_memory p)" by auto
  with one run s'(1) show ?thesis by blast
qed

end
