(* ===== verification/Floating.thy ===== *)
theory Floating
  imports Prelude Complex_Main "HOL-Library.Monad_Syntax"
begin

text \<open>
  \<open>kernel/lib/math.c\<close>: the reciprocal square root from the bits of a single-precision number, two
  Newton steps, and the square root from it. A float is the word of its bits (IEEE single), its
  value a rational number, \<open>None\<close> for infinities and NaNs. The processor's arithmetic is the
  parameter \<open>fpu\<close>; \<open>ieee\<close> is what the standard says of it: results that are not too small or too
  large are off by a factor of at most 1 plus or minus \<open>2 ^ -24\<close>.
\<close>

section \<open>Single-precision numbers\<close>

definition float_val :: "u32 \<Rightarrow> rat option" where
  "float_val w =
     (let sign = (if bit w 31 then - 1 else 1);
          biased = unat w div 2 ^ 23 mod 256;
          fraction = unat w mod 2 ^ 23
      in if biased = 255 then None
         else if biased = 0 then Some (sign * of_nat fraction / 2 ^ 149)
         else Some (sign * of_nat (2 ^ 23 + fraction) * 2 ^ biased / 2 ^ 150))"

record fpu =
  fmul :: "rat \<Rightarrow> rat \<Rightarrow> rat option"
  fsub :: "rat \<Rightarrow> rat \<Rightarrow> rat option"
  fdiv :: "rat \<Rightarrow> rat \<Rightarrow> rat option"

definition in_range :: "rat \<Rightarrow> bool" where
  "in_range e \<longleftrightarrow> 1 / 2 ^ 126 \<le> \<bar>e\<bar> \<and> \<bar>e\<bar> < 2 ^ 127"

definition rounds_to :: "rat option \<Rightarrow> rat \<Rightarrow> bool" where
  "rounds_to r e \<longleftrightarrow> (in_range e \<longrightarrow> (case r of None \<Rightarrow> False | Some r \<Rightarrow> \<bar>r - e\<bar> \<le> \<bar>e\<bar> / 2 ^ 24))"

definition ieee :: "fpu \<Rightarrow> bool" where
  "ieee F \<longleftrightarrow> (\<forall>a b. rounds_to (fmul F a b) (a * b) \<and> rounds_to (fsub F a b) (a - b)
     \<and> (b \<noteq> 0 \<longrightarrow> rounds_to (fdiv F a b) (a / b)))"

section \<open>math.c\<close>

text \<open>One line \<open>y = y * (1.5F - (x * y * y))\<close>.\<close>

definition newton :: "fpu \<Rightarrow> rat \<Rightarrow> rat \<Rightarrow> rat option" where
  "newton F x y =
     do { a \<leftarrow> fmul F x y;
          a \<leftarrow> fmul F a y;
          a \<leftarrow> fsub F (3 / 2) a;
          fmul F y a }"

text \<open>\<open>*(long*)&y\<close> is the word of bits, \<open>i >> 1\<close> the arithmetic shift of a signed \<open>long\<close>.\<close>

definition isqrt :: "fpu \<Rightarrow> u32 \<Rightarrow> rat option" where
  "isqrt F num =
     do { y \<leftarrow> float_val num;
          x \<leftarrow> fmul F y (1 / 2);
          y \<leftarrow> float_val (0x5f3759df - signed_drop_bit 1 num);
          y \<leftarrow> newton F x y;
          newton F x y }"

text \<open>
  \<open>1.0\<close> is a \<open>double\<close>, so \<open>fdiv\<close> is here a division in double (or x87) precision followed by the
  conversion to \<open>float\<close>; the two roundings together are still within \<open>2 ^ -24\<close>.
\<close>

definition float_sqrt :: "fpu \<Rightarrow> u32 \<Rightarrow> rat option" where
  "float_sqrt F num = do { r \<leftarrow> isqrt F num; fdiv F 1 r }"

section \<open>The first guess\<close>

text \<open>
  With \<open>L = 2 ^ 23\<close>, the magic constant is \<open>190 * L + c\<close>. The mantissas \<open>A\<close> of the guess and \<open>B\<close> of the
  number make \<open>2 * A + B\<close> nearly constant, so \<open>A * A * B\<close> is bounded by the third power of its third,
  and from below by its values at the ends of the interval.
\<close>

lemma third_power:
  fixes A B :: int
  assumes "0 \<le> A" and "0 \<le> B" and "2 * A + B \<le> 3 * t"
  shows "A ^ 2 * B \<le> t ^ 3"
proof -
  have "A ^ 2 * B \<le> A ^ 2 * (3 * t - 2 * A)" using assms(3) by (intro mult_left_mono) simp_all
  moreover have "0 \<le> (t - A) ^ 2 * (t + 2 * A)" using assms by (intro mult_nonneg_nonneg) simp_all
  ultimately show ?thesis by (simp add: power2_eq_square power3_eq_cube algebra_simps)
qed

abbreviation L :: int where "L \<equiv> 8388608"
abbreviation c0 :: int where "c0 \<equiv> 3627487"

text \<open>The three shapes: even exponent without and with a borrow, odd exponent.\<close>

lemma guess_even:
  fixes g f :: int
  assumes "0 \<le> g" and "g \<le> c0" and "2 * g \<le> f" and "f \<le> 2 * g + 1"
  shows "93 * 2 ^ 70 \<le> 100 * ((L + c0 - g) ^ 2 * (L + f))" and "100 * ((L + c0 - g) ^ 2 * (L + f)) \<le> 107 * 2 ^ 70"
proof -
  define w where "w = c0 - g"
  have w: "0 \<le> w" "w \<le> c0" using assms by (simp_all add: w_def)
  have "(L + w) ^ 2 * (L + 2 * c0 - 2 * w) \<le> (L + w) ^ 2 * (L + f)"
    using assms(3) by (intro mult_left_mono) (simp_all add: w_def)
  moreover have "0 \<le> w * (4 * L * c0 + w * (2 * c0 - 3 * L) - 2 * w ^ 2)"
  proof (intro mult_nonneg_nonneg w(1))
    have "w ^ 2 \<le> c0 ^ 2" using w by (intro power_mono) simp_all
    then show "0 \<le> 4 * L * c0 + w * (2 * c0 - 3 * L) - 2 * w ^ 2" using w by simp
  qed
  then have "L ^ 2 * (L + 2 * c0) \<le> (L + w) ^ 2 * (L + 2 * c0 - 2 * w)"
    by (simp add: power2_eq_square algebra_simps)
  ultimately show "93 * 2 ^ 70 \<le> 100 * ((L + c0 - g) ^ 2 * (L + f))" by (simp add: w_def algebra_simps)
  have "(L + c0 - g) ^ 2 * (L + f) \<le> (L + 2418325) ^ 3"
    using assms by (intro third_power) simp_all
  then show "100 * ((L + c0 - g) ^ 2 * (L + f)) \<le> 107 * 2 ^ 70" by (simp add: mult.commute)
qed

lemma guess_borrow:
  fixes g f :: int
  assumes "c0 < g" and "2 * g < L" and "2 * g \<le> f" and "f < L"
  shows "93 * 2 ^ 72 \<le> 100 * ((2 * L + c0 - g) ^ 2 * (L + f))" and "100 * ((2 * L + c0 - g) ^ 2 * (L + f)) \<le> 107 * 2 ^ 72"
proof -
  define w where "w = g - c0"
  have w: "0 \<le> w" "2 * w < L - 2 * c0" using assms by (simp_all add: w_def)
  have "(2 * L - w) ^ 2 * (L + 2 * c0 + 2 * w) \<le> (2 * L - w) ^ 2 * (L + f)"
    using assms(3) by (intro mult_left_mono) (simp_all add: w_def)
  moreover have "0 \<le> w * (4 * L ^ 2 - 8 * L * c0 - 8 * L * w + w * (L + 2 * c0) + 2 * w ^ 2)"
    using w by (intro mult_nonneg_nonneg add_nonneg_nonneg) simp_all
  then have "4 * L ^ 2 * (L + 2 * c0) \<le> (2 * L - w) ^ 2 * (L + 2 * c0 + 2 * w)"
    by (simp add: power2_eq_square algebra_simps)
  ultimately show "93 * 2 ^ 72 \<le> 100 * ((2 * L + c0 - g) ^ 2 * (L + f))" by (simp add: w_def algebra_simps)
  have "(2 * L + c0 - g) ^ 2 * (L + f) \<le> (2 * L) ^ 2 * (2 * L)"
    using assms by (intro mult_mono power_mono) simp_all
  then show "100 * ((2 * L + c0 - g) ^ 2 * (L + f)) \<le> 107 * 2 ^ 72" by (simp add: mult.commute)
qed

lemma guess_odd:
  fixes g f :: int
  assumes "0 \<le> f" and "f < L" and "2 * g \<le> L + f" and "L + f \<le> 2 * g + 1"
  shows "93 * 2 ^ 71 \<le> 100 * ((2 * L + c0 - g) ^ 2 * (L + f))" and "100 * ((2 * L + c0 - g) ^ 2 * (L + f)) \<le> 107 * 2 ^ 71"
proof -
  define w where "w = g - 4194304"
  define D where "D = 12582912 + c0"
  have w: "0 \<le> w" "2 * w \<le> L" using assms by (simp_all add: w_def)
  have A: "2 * L + c0 - g = D - w" by (simp add: w_def D_def)
  have "(D - w) ^ 2 * (L + 2 * w) \<le> (D - w) ^ 2 * (L + f)"
    using assms(3) by (intro mult_left_mono) (simp_all add: w_def)
  moreover have "0 \<le> w * (2 * D ^ 2 - 2 * D * L - 4 * D * w + w * L + 2 * w ^ 2)"
  proof (intro mult_nonneg_nonneg w(1))
    have "0 \<le> (4194304 - w) * (4 * D - 2 * L - 2 * w)" using w by (intro mult_nonneg_nonneg) (simp_all add: D_def)
    then show "0 \<le> 2 * D ^ 2 - 2 * D * L - 4 * D * w + w * L + 2 * w ^ 2"
      by (simp add: D_def power2_eq_square algebra_simps)
  qed
  then have "D ^ 2 * L \<le> (D - w) ^ 2 * (L + 2 * w)"
    by (simp add: power2_eq_square algebra_simps)
  ultimately show "93 * 2 ^ 71 \<le> 100 * ((2 * L + c0 - g) ^ 2 * (L + f))" unfolding A by (simp add: D_def mult.commute)
  have "(2 * L + c0 - g) ^ 2 * (L + f) \<le> (L + 5214762) ^ 3"
    using assms by (intro third_power) simp_all
  then show "100 * ((2 * L + c0 - g) ^ 2 * (L + f)) \<le> 107 * 2 ^ 71" by (simp add: mult.commute)
qed

section \<open>The guess on the bits\<close>

lemma sign_bit: "bit w 31 \<longleftrightarrow> 2 ^ 31 \<le> unat (w :: u32)"
proof -
  have "bit (unat w) 31 \<longleftrightarrow> bit w 31" by (simp add: bit_unsigned_iff)
  then have "bit w 31 \<longleftrightarrow> odd (unat w div 2 ^ 31)" by (simp only: bit_iff_odd)
  moreover have "unat w div 2 ^ 31 < 2" using unat_u32_less(1) [of w] by (simp add: less_mult_imp_div_less)
  ultimately show ?thesis by (cases "unat w < 2 ^ 31") (auto simp: not_less div_greater_zero_iff less_2_cases_iff)
qed

text \<open>A normal positive number has a biased exponent \<open>e\<close> between 1 and 254 and a mantissa of 24 bits.\<close>

lemma float_val_normal:
  assumes "unat w = e * 2 ^ 23 + f" and "0 < e" and "e < 255" and "f < 2 ^ 23"
  shows "float_val w = Some (of_nat (2 ^ 23 + f) * 2 ^ e / 2 ^ 150)"
proof -
  have "\<not> bit w 31" unfolding sign_bit assms(1) using assms(3,4) by simp
  moreover have "unat w div 2 ^ 23 mod 256 = e" "unat w mod 2 ^ 23 = f" using assms by simp_all
  ultimately show ?thesis using assms(2,3) by (simp add: float_val_def Let_def)
qed

lemma float_val_normalE:
  assumes "float_val w = Some v" and "1 / 2 ^ 126 \<le> v"
  obtains e f where "unat w = e * 2 ^ 23 + f" "0 < e" "e < 255" "f < 2 ^ 23"
proof -
  define e f where "e = unat w div 2 ^ 23 mod 256" and "f = unat w mod 2 ^ 23"
  have f: "f < 2 ^ 23" by (simp add: f_def)
  have val: "v = (if bit w 31 then - 1 else 1) * (if e = 0 then of_nat f / 2 ^ 149 else of_nat (2 ^ 23 + f) * 2 ^ e / 2 ^ 150)"
    and e: "e \<noteq> 255"
    using assms(1) unfolding float_val_def Let_def e_def [symmetric] f_def [symmetric]
    by (cases "e = 255"; cases "e = 0"; simp)+
  have "of_nat f < (2 ^ 23 :: rat)" using f of_nat_less_iff [of f "2 ^ 23", where 'a = rat] by simp
  then have small: "of_nat f / 2 ^ 149 < (1 / 2 ^ 126 :: rat)" by (simp add: field_simps)
  have "0 \<le> (if e = 0 then of_nat f / 2 ^ 149 else of_nat (2 ^ 23 + f) * 2 ^ e / 2 ^ 150 :: rat)" by simp
  moreover have pos: "0 < v" using assms(2) by (rule less_le_trans [rotated]) simp
  ultimately have sign: "\<not> bit w 31" using val by auto
  have "e \<noteq> 0"
  proof
    assume "e = 0"
    then have "v < 1 / 2 ^ 126" using val sign small by simp
    then show False using assms(2) by simp
  qed
  moreover have "unat w div 2 ^ 23 < 256" using sign by (simp add: sign_bit less_mult_imp_div_less)
  then have "unat w = e * 2 ^ 23 + f" by (simp add: e_def f_def)
  moreover have "e < 256" by (simp add: e_def)
  ultimately show thesis using f e that by auto
qed

text \<open>The word the code makes of them.\<close>

lemma guess_word:
  assumes "unat num < 2 ^ 31"
  shows "unat (0x5f3759df - signed_drop_bit 1 num :: u32) = 0x5f3759df - unat num div 2"
proof -
  have "signed_drop_bit 1 num = drop_bit 1 num"
    using assms by (intro bit_word_eqI) (auto simp: bit_simps sign_bit le_Suc_eq dest: bit_imp_le_length)
  moreover have half: "unat (drop_bit 1 num) = unat num div 2" by (subst unat_drop_bit_eq) (simp add: drop_bit_eq_div)
  moreover have "drop_bit 1 num \<le> 0x5f3759df" using assms unfolding word_le_nat_alt half by simp
  ultimately show ?thesis by (simp only: unat_sub) simp
qed

lemma guess_parts:
  assumes "i = e * 2 ^ 23 + f" and "0 < e" and "e < 255" and "f < (2 ^ 23 :: nat)"
  obtains (even) k g where "e = 2 * k" "g \<le> 3627487" "2 * g \<le> f" "f \<le> 2 * g + 1" "k < 128"
      "0x5f3759df - i div 2 = (190 - k) * 2 ^ 23 + (3627487 - g)"
    | (borrow) k g where "e = 2 * k" "3627487 < g" "2 * g \<le> f" "f \<le> 2 * g + 1" "k < 128"
      "0x5f3759df - i div 2 = (189 - k) * 2 ^ 23 + (2 ^ 23 + 3627487 - g)"
    | (odd) k g where "e = 2 * k + 1" "2 * g \<le> 2 ^ 23 + f" "2 ^ 23 + f \<le> 2 * g + 1" "k < 128"
      "0x5f3759df - i div 2 = (189 - k) * 2 ^ 23 + (2 ^ 23 + 3627487 - g)"
proof (cases "2 dvd e")
  case True
  then obtain k where k: "e = 2 * k" by (elim evenE)
  have half: "i div 2 = k * 2 ^ 23 + f div 2" by (simp add: assms(1) k)
  show thesis
  proof (cases "f div 2 \<le> 3627487")
    case True
    then show ?thesis using k assms(3) half by (intro even [of k "f div 2"]) auto
  next
    case False
    then show ?thesis using k assms(3,4) half by (intro borrow [of k "f div 2"]) auto
  qed
next
  case False
  then obtain k where k: "e = 2 * k + 1" by (elim oddE)
  have half: "i div 2 = k * 2 ^ 23 + (2 ^ 23 + f) div 2" by (simp add: assms(1) k)
  then show ?thesis using k assms(3,4) by (intro odd [of k "(2 ^ 23 + f) div 2"]) auto
qed

lemma guess_quality:
  fixes A B :: int
  assumes "2 * p + e + s = 450" and "93 * 2 ^ s \<le> 100 * (A ^ 2 * B)" and "100 * (A ^ 2 * B) \<le> 107 * 2 ^ s"
    and "y = of_int A * 2 ^ p / 2 ^ 150" and "v = of_int B * 2 ^ e / (2 ^ 150 :: rat)"
  shows "\<bar>y ^ 2 * v - 1\<bar> \<le> 7 / 100"
proof -
  define P :: rat where "P = (2 ^ p) ^ 2 * 2 ^ e"
  have "(2 :: rat) ^ 450 = P * 2 ^ s"
    unfolding assms(1) [symmetric] P_def by (simp add: power_add power_mult mult.commute [of 2 p])
  moreover have "y ^ 2 * v = of_int (A ^ 2 * B) * P / 2 ^ 450"
    unfolding assms(4,5) P_def by (simp add: power_mult_distrib power_divide)
  ultimately have "y ^ 2 * v = of_int (A ^ 2 * B) * P / (P * 2 ^ s)" by (simp only:)
  moreover have "P \<noteq> 0" by (simp add: P_def)
  ultimately have q: "y ^ 2 * v * 2 ^ s = of_int (A ^ 2 * B)" by (simp only: times_divide_eq_left) simp
  have "(of_int (93 * 2 ^ s) :: rat) \<le> of_int (100 * (A ^ 2 * B))" "(of_int (100 * (A ^ 2 * B)) :: rat) \<le> of_int (107 * 2 ^ s)"
    by (simp_all only: of_int_le_iff assms(2,3))
  then have "93 * 2 ^ s \<le> 100 * (y ^ 2 * v) * 2 ^ s" "100 * (y ^ 2 * v) * 2 ^ s \<le> 107 * 2 ^ s"
    using q by (simp_all add: mult.assoc)
  then have "93 \<le> 100 * (y ^ 2 * v)" "100 * (y ^ 2 * v) \<le> 107" by simp_all
  then show ?thesis unfolding abs_le_iff by (intro conjI; linarith)
qed

lemma guess_close:
  assumes "float_val num = Some v" and "1 / 2 ^ 126 \<le> v"
  obtains y where "float_val (0x5f3759df - signed_drop_bit 1 num) = Some y" "0 < y" "\<bar>y ^ 2 * v - 1\<bar> \<le> 7 / 100" "v < 2 ^ 128"
proof -
  note result = that
  obtain e f where num: "unat num = e * 2 ^ 23 + f" "0 < e" "e < 255" "f < 2 ^ 23"
    using float_val_normalE [OF assms] .
  have v: "v = of_int (L + int f) * 2 ^ e / 2 ^ 150" using float_val_normal [OF num] assms(1) by simp
  have word: "unat (0x5f3759df - signed_drop_bit 1 num) = 0x5f3759df - unat num div 2"
    using num by (intro guess_word) simp
  have "of_int (L + int f) < (2 ^ 24 :: rat)" using num(4) of_nat_less_iff [of f "2 ^ 23", where 'a = rat] by simp
  moreover have "(2 :: rat) ^ e \<le> 2 ^ 254" using num(3) by (intro power_increasing) simp_all
  ultimately have "of_int (L + int f) * 2 ^ e < (2 ^ 24 :: rat) * 2 ^ 254" by (intro mult_less_le_imp_less) simp_all
  then have small: "v < 2 ^ 128" by (simp add: v)
  have found: thesis
    if "unat num div 2 \<le> 0x5f3759df" "0x5f3759df - unat num div 2 = p * 2 ^ 23 + m" "0 < p" "p < 255" "m < 2 ^ 23"
      "2 * p + e + s = 450" "A = L + int m" "93 * 2 ^ s \<le> 100 * (A ^ 2 * (L + int f))" "100 * (A ^ 2 * (L + int f)) \<le> 107 * 2 ^ s"
    for p m s A
  proof -
    have "float_val (0x5f3759df - signed_drop_bit 1 num) = Some (of_int A * 2 ^ p / 2 ^ 150)"
      using float_val_normal [of "0x5f3759df - signed_drop_bit 1 num" p m] that word by simp
    moreover have "\<bar>(of_int A * 2 ^ p / 2 ^ 150) ^ 2 * v - 1\<bar> \<le> 7 / 100"
      by (rule guess_quality [OF that(6,8,9) refl v])
    moreover have "v < 2 ^ 128" by (rule small)
    moreover have "0 < A" using that(7) by simp
    ultimately show thesis by (intro result) simp_all
  qed
  from num(1,2,3,4) show thesis
  proof (cases rule: guess_parts)
    case (even k g)
    then show ?thesis using guess_even [of "int g" "int f"] num(2)
      by (intro found [where p = "190 - k" and m = "3627487 - g" and s = 70 and A = "L + c0 - int g"]) (auto simp: of_nat_diff)
  next
    case (borrow k g)
    then show ?thesis using guess_borrow [of "int g" "int f"] num(2,4)
      by (intro found [where p = "189 - k" and m = "2 ^ 23 + 3627487 - g" and s = 72 and A = "2 * L + c0 - int g"]) (auto simp: of_nat_diff)
  next
    case (odd k g)
    then show ?thesis using guess_odd [of "int f" "int g"] num(2,4)
      by (intro found [where p = "189 - k" and m = "2 ^ 23 + 3627487 - g" and s = 71 and A = "2 * L + c0 - int g"]) (auto simp: of_nat_diff)
  qed
qed

section \<open>A Newton step with rounding\<close>

lemma abs_mult_bound: "\<bar>a\<bar> \<le> A \<Longrightarrow> \<bar>b\<bar> \<le> B \<Longrightarrow> \<bar>a * b\<bar> \<le> A * (B :: rat)"
  unfolding abs_mult by (rule mult_mono) auto

lemma near_one:
  assumes "\<bar>a - 1\<bar> \<le> s" and "\<bar>b - 1\<bar> \<le> t" and "s + t + s * t \<le> r"
  shows "\<bar>a * b - 1\<bar> \<le> (r :: rat)"
proof -
  have "a * b - 1 = (a - 1) + (b - 1) + (a - 1) * (b - 1)" by (simp add: algebra_simps)
  then show ?thesis using assms abs_mult_bound [OF assms(1,2)] by linarith
qed

lemma exact_step:
  fixes q :: rat
  shows "1 - q * (3 - q) ^ 2 / 4 = (1 - q) ^ 2 * (4 - q) / 4"
  by (simp add: power2_eq_square field_simps)

lemma exact_step_bounds:
  fixes q :: rat
  assumes "\<bar>q - 1\<bar> \<le> d" and "d \<le> 2 / 25"
  shows "q * (3 - q) ^ 2 / 4 \<le> 1" and "1 - q * (3 - q) ^ 2 / 4 \<le> d ^ 2 * (77 / 100)"
proof -
  have q: "23 / 25 \<le> q" "q \<le> 27 / 25" using assms by linarith+
  have "0 \<le> (1 - q) ^ 2 * (4 - q) / 4" using q by simp
  then show "q * (3 - q) ^ 2 / 4 \<le> 1" using exact_step [of q] by linarith
  have "(1 - q) ^ 2 \<le> d ^ 2" using assms(1) by (simp add: abs_le_square_iff [symmetric] abs_minus_commute)
  then have "(1 - q) ^ 2 * ((4 - q) / 4) \<le> d ^ 2 * (77 / 100)" using q by (intro mult_mono) simp_all
  then show "1 - q * (3 - q) ^ 2 / 4 \<le> d ^ 2 * (77 / 100)" unfolding exact_step by simp
qed

lemma after_step:
  fixes q r :: rat
  assumes "\<bar>q - 1\<bar> \<le> d" and "d \<le> 2 / 25" and "\<bar>r - q * (3 - q) ^ 2 / 4\<bar> \<le> 1 / 10 ^ 6" and "d ^ 2 * (77 / 100) + 1 / 10 ^ 6 \<le> t"
  shows "\<bar>r - 1\<bar> \<le> t"
proof -
  have "0 \<le> d ^ 2 * (77 / 100)" by simp
  then show ?thesis using exact_step_bounds [OF assms(1,2)] assms(3,4) by linarith
qed

lemma step_error:
  fixes q k m :: rat
  assumes "\<bar>q - 1\<bar> \<le> 2 / 25" and "\<bar>k - 1\<bar> \<le> 5 / 2 ^ 24" and "\<bar>m - 1\<bar> \<le> 7 / 2 ^ 24"
  shows "\<bar>q * (3 / 2 - q * k / 2) ^ 2 * m - q * (3 - q) ^ 2 / 4\<bar> \<le> 1 / 10 ^ 6"
    and "9 / 10 \<le> 3 / 2 - q * k / 2" and "3 / 2 - q * k / 2 \<le> 11 / 10"
proof -
  define b where "b = q * (k - 1) / 2"
  define P where "P = q * (3 - q) ^ 2 / 4"
  have q': "23 / 25 \<le> q" "q \<le> 27 / 25" using assms(1) by linarith+
  then have q: "\<bar>q\<bar> \<le> 27 / 25" by simp
  have b: "\<bar>b\<bar> \<le> 17 / 10 ^ 8" using abs_mult_bound [OF q assms(2)] by (simp add: b_def)
  then have "\<bar>b\<bar> \<le> 1 / 100" by simp
  then have b': "- 1 / 100 \<le> b" "b \<le> 1 / 100" by linarith+
  have T: "3 / 2 - q * k / 2 = (3 - q) / 2 - b" by (simp add: b_def field_simps)
  show "9 / 10 \<le> 3 / 2 - q * k / 2" "3 / 2 - q * k / 2 \<le> 11 / 10"
    unfolding T using b' q' by (simp_all add: field_simps)
  have "\<bar>b - (3 - q)\<bar> \<le> 21 / 10" using b' q' by linarith
  define e where "e = q * (b * (b - (3 - q)))"
  have e: "\<bar>e\<bar> \<le> 4 / 10000000"
    using abs_mult_bound [OF q abs_mult_bound [OF b \<open>\<bar>b - (3 - q)\<bar> \<le> 21 / 10\<close>]] by (simp add: e_def)
  have split: "q * (3 / 2 - q * k / 2) ^ 2 = P + e"
    unfolding T P_def e_def by (simp add: power2_eq_square field_simps)
  have "0 \<le> P" "P \<le> 1" using exact_step_bounds(1) [OF assms(1)] q'(1) by (simp_all add: P_def)
  then have "\<bar>P + e\<bar> \<le> 101 / 100" using e by linarith
  from abs_mult_bound [OF this assms(3)] have "\<bar>(P + e) * (m - 1)\<bar> \<le> 5 / 10000000" by simp
  moreover have "(P + e) * m - P = (P + e) * (m - 1) + e" by (simp add: algebra_simps)
  ultimately have "\<bar>(P + e) * m - P\<bar> \<le> 1 / 1000000" using e by linarith
  then show "\<bar>q * (3 / 2 - q * k / 2) ^ 2 * m - q * (3 - q) ^ 2 / 4\<bar> \<le> 1 / 10 ^ 6"
    unfolding split P_def [symmetric] by simp
qed

lemma rounds_factor:
  assumes "rounds_to r e" and "1 / 2 ^ 126 \<le> e" and "e < 2 ^ 127"
  shows "\<exists>d. \<bar>d\<bar> \<le> 1 / 2 ^ 24 \<and> r = Some (e * (1 + d))"
proof -
  have e: "0 < e" using assms(2) by (rule less_le_trans [rotated]) simp
  obtain x where x: "r = Some x" "\<bar>x - e\<bar> \<le> e / 2 ^ 24"
    using assms e by (auto simp: rounds_to_def in_range_def split: option.splits)
  have "\<bar>(x - e) / e\<bar> \<le> 1 / 2 ^ 24" using x(2) e by (simp add: abs_divide field_simps)
  moreover have "x = e * (1 + (x - e) / e)" using e by (simp add: field_simps)
  ultimately show ?thesis using x(1) by blast
qed

lemma root_range:
  fixes v y :: rat
  assumes "1 / 2 ^ 125 \<le> v" and "v < 2 ^ 128" and "0 < y" and "\<bar>y ^ 2 * v - 1\<bar> \<le> 2 / 25"
  shows "1 / 2 ^ 65 \<le> y" and "y \<le> 2 ^ 64"
proof -
  have v: "0 < v" using assms(1) by (rule less_le_trans [rotated]) simp
  have q: "y ^ 2 * v \<le> 27 / 25" "23 / 25 \<le> y ^ 2 * v" using assms(4) by linarith+
  have "y ^ 2 * (1 / 2 ^ 125) \<le> y ^ 2 * v" using assms(1) by (intro mult_left_mono) simp_all
  then have "y ^ 2 \<le> (2 ^ 64) ^ 2" using q(1) by simp
  then show "y \<le> 2 ^ 64" by (rule power2_le_imp_le) simp
  have "y ^ 2 * v \<le> y ^ 2 * 2 ^ 128" using assms(2) by (intro mult_left_mono) simp_all
  then have "(1 / 2 ^ 65) ^ 2 \<le> y ^ 2" using q(2) by (simp add: power_divide)
  then show "1 / 2 ^ 65 \<le> y" by (rule power2_le_imp_le) (use assms(3) in simp)
qed

lemma near_product:
  fixes a b :: rat
  assumes "\<bar>b - 1\<bar> \<le> 3 / 2 ^ 24" and "0 \<le> a" and "a \<le> 2"
  shows "a - 1 / 100 \<le> a * b" and "a * b \<le> a + 1 / 100"
proof -
  have "\<bar>a\<bar> \<le> 2" using assms(2,3) by simp
  from abs_mult_bound [OF this assms(1)] have "\<bar>a * (b - 1)\<bar> \<le> 1 / 100" by simp
  moreover have "a * (b - 1) = a * b - a" by (simp add: algebra_simps)
  ultimately show "a - 1 / 100 \<le> a * b" "a * b \<le> a + 1 / 100" by linarith+
qed

lemma newton_runs:
  assumes "ieee F" and "1 / 2 ^ 125 \<le> v" and "v < 2 ^ 128" and "0 < y" and "\<bar>y ^ 2 * v - 1\<bar> \<le> 2 / 25"
    and "x = v / 2 * (1 + d)" and "\<bar>d\<bar> \<le> 1 / 2 ^ 24"
  obtains z where "newton F x y = Some z" "0 < z" "\<bar>z ^ 2 * v - (y ^ 2 * v) * (3 - y ^ 2 * v) ^ 2 / 4\<bar> \<le> 1 / 10 ^ 6"
proof -
  note result = that
  define q where "q = y ^ 2 * v"
  have q: "23 / 25 \<le> q" "q \<le> 27 / 25" and q1: "\<bar>q - 1\<bar> \<le> 2 / 25" using assms(5) unfolding q_def by linarith+
  have y: "1 / 2 ^ 65 \<le> y" "y \<le> 2 ^ 64" using root_range [OF assms(2-5)] .
  have mul: "rounds_to (fmul F a b) (a * b)" and sub: "rounds_to (fsub F a b) (a - b)" for a b
    using assms(1) by (simp_all add: ieee_def)
  \<comment> \<open>\<open>x * y\<close> is about \<open>1 / (2 * y)\<close>\<close>
  have d: "\<bar>1 + d - 1\<bar> \<le> 3 / 2 ^ 24" using assms(7) by simp
  have xy: "x * y * y = q / 2 * (1 + d)" by (simp add: assms(6) q_def power2_eq_square)
  have "2 / 5 \<le> q / 2 * (1 + d)" "q / 2 * (1 + d) \<le> 3 / 5"
    using near_product [OF d, of "q / 2"] q by linarith+
  then have "2 / 5 / y \<le> x * y" "x * y \<le> 3 / 5 / y" using xy assms(4) by (simp_all add: field_simps)
  moreover have "2 / 5 / 2 ^ 64 \<le> 2 / 5 / y" "3 / 5 / y \<le> 3 / 5 / (1 / 2 ^ 65)"
    using y assms(4) by (intro divide_left_mono; simp)+
  ultimately have "2 / 5 / 2 ^ 64 \<le> x * y" "x * y \<le> 3 / 5 / (1 / 2 ^ 65)" by linarith+
  then have "1 / 2 ^ 126 \<le> x * y" "x * y < 2 ^ 127" by simp_all
  then obtain d1 where d1: "\<bar>d1\<bar> \<le> 1 / 2 ^ 24" "fmul F x y = Some (x * y * (1 + d1))"
    using rounds_factor [OF mul] by blast
  \<comment> \<open>\<open>x * y * y\<close> is about \<open>q / 2\<close>\<close>
  have k2: "\<bar>(1 + d) * (1 + d1) - 1\<bar> \<le> 3 / 2 ^ 24"
    by (rule near_one [of _ "1 / 2 ^ 24" _ "1 / 2 ^ 24"]) (use assms(7) d1(1) in simp_all)
  have "x * y * (1 + d1) * y = x * y * y * (1 + d1)" by (simp only: mult_ac)
  also have "\<dots> = q / 2 * (1 + d) * (1 + d1)" by (simp only: xy)
  finally have sq: "x * y * (1 + d1) * y = q / 2 * ((1 + d) * (1 + d1))" by (simp only: mult.assoc)
  have "2 / 5 \<le> q / 2 * ((1 + d) * (1 + d1))" "q / 2 * ((1 + d) * (1 + d1)) \<le> 3 / 5"
    using near_product [OF k2, of "q / 2"] q by linarith+
  then have "1 / 2 ^ 126 \<le> x * y * (1 + d1) * y" "x * y * (1 + d1) * y < 2 ^ 127" unfolding sq by simp_all
  then obtain d2 where d2: "\<bar>d2\<bar> \<le> 1 / 2 ^ 24" "fmul F (x * y * (1 + d1)) y = Some (x * y * (1 + d1) * y * (1 + d2))"
    using rounds_factor [OF mul] by blast
  define k where "k = (1 + d) * (1 + d1) * (1 + d2)"
  have k: "\<bar>k - 1\<bar> \<le> 5 / 2 ^ 24" unfolding k_def
    by (rule near_one [of _ "3 / 2 ^ 24" _ "1 / 2 ^ 24"]) (use k2 d2(1) in simp_all)
  have a: "fmul F (x * y * (1 + d1)) y = Some (q * k / 2)" unfolding d2(2) sq k_def by (simp add: mult.assoc)
  \<comment> \<open>the factor and the product\<close>
  define c where "c = 3 / 2 - q * k / 2"
  have c: "9 / 10 \<le> c" "c \<le> 11 / 10" using step_error(2,3) [OF q1 k, of 1] by (simp_all add: c_def)
  then have "1 / 2 ^ 126 \<le> c" "c < 2 ^ 127" by simp_all
  then obtain d3 where d3: "\<bar>d3\<bar> \<le> 1 / 2 ^ 24" "fsub F (3 / 2) (q * k / 2) = Some (c * (1 + d3))"
    using rounds_factor [OF sub] unfolding c_def by blast
  have d3': "\<bar>1 + d3 - 1\<bar> \<le> 3 / 2 ^ 24" using d3(1) by simp
  have c3: "4 / 5 \<le> c * (1 + d3)" "c * (1 + d3) \<le> 6 / 5"
    using near_product [OF d3', of c] c by linarith+
  have "1 / 2 ^ 65 * (4 / 5) \<le> y * (c * (1 + d3))" "y * (c * (1 + d3)) \<le> 2 ^ 64 * (6 / 5)"
    using y c3 assms(4) by (intro mult_mono; simp)+
  then have "1 / 2 ^ 126 \<le> y * (c * (1 + d3))" "y * (c * (1 + d3)) < 2 ^ 127" by simp_all
  then obtain d4 where d4: "\<bar>d4\<bar> \<le> 1 / 2 ^ 24" "fmul F y (c * (1 + d3)) = Some (y * (c * (1 + d3)) * (1 + d4))"
    using rounds_factor [OF mul] by blast
  define z where "z = y * (c * (1 + d3)) * (1 + d4)"
  define m where "m = ((1 + d3) * (1 + d4)) ^ 2"
  have "\<bar>(1 + d3) * (1 + d4) - 1\<bar> \<le> 3 / 2 ^ 24"
    by (rule near_one [of _ "1 / 2 ^ 24" _ "1 / 2 ^ 24"]) (use d3(1) d4(1) in simp_all)
  from near_one [OF this this, of "7 / 2 ^ 24"] have m: "\<bar>m - 1\<bar> \<le> 7 / 2 ^ 24" by (simp add: m_def power2_eq_square)
  have "z ^ 2 * v = q * c ^ 2 * m" by (simp add: z_def m_def q_def power_mult_distrib mult_ac)
  then have "\<bar>z ^ 2 * v - q * (3 - q) ^ 2 / 4\<bar> \<le> 1 / 10 ^ 6" using step_error(1) [OF q1 k m] by (simp only: c_def)
  moreover have "newton F x y = Some z" using d1(2) a d3(2) d4(2) by (simp add: newton_def z_def)
  moreover have "\<bar>d4\<bar> \<le> 1 / 2" using d4(1) by simp
  then have "0 < c * (1 + d3)" "0 < 1 + d4" using c3(1) by linarith+
  then have "0 < z" using assms(4) unfolding z_def by (simp only: mult_pos_pos)
  ultimately show thesis using result unfolding q_def by blast
qed

section \<open>The two functions\<close>

lemma isqrt_close:
  assumes "ieee F" and "float_val num = Some v" and "1 / 2 ^ 125 \<le> v"
  obtains y where "isqrt F num = Some y" "1 / 2 ^ 65 \<le> y" "y \<le> 2 ^ 64" "\<bar>y ^ 2 * v - 1\<bar> \<le> 1 / 70000"
proof -
  have "1 / 2 ^ 126 \<le> v" using assms(3) by simp
  from guess_close [OF assms(2) this] obtain y where
    y: "float_val (0x5f3759df - signed_drop_bit 1 num) = Some y" "0 < y" "\<bar>y ^ 2 * v - 1\<bar> \<le> 7 / 100" "v < 2 ^ 128" .
  have half: "1 / 2 ^ 126 \<le> v / 2" "v / 2 < 2 ^ 127" using assms(3) y(4) by simp_all
  have "rounds_to (fmul F v (1 / 2)) (v * (1 / 2))" using assms(1) by (simp only: ieee_def)
  then have "rounds_to (fmul F v (1 / 2)) (v / 2)" by simp
  from rounds_factor [OF this half] obtain d where d: "\<bar>d\<bar> \<le> 1 / 2 ^ 24" "fmul F v (1 / 2) = Some (v / 2 * (1 + d))"
    by blast
  obtain z where z: "newton F (v / 2 * (1 + d)) y = Some z" "0 < z"
    "\<bar>z ^ 2 * v - (y ^ 2 * v) * (3 - y ^ 2 * v) ^ 2 / 4\<bar> \<le> 1 / 10 ^ 6"
    using newton_runs [OF assms(1,3) y(4,2) _ refl d(1)] y(3) by auto
  have z1: "\<bar>z ^ 2 * v - 1\<bar> \<le> 1 / 250"
    by (rule after_step [OF y(3) _ z(3)]) (simp_all add: power_divide)
  obtain w where w: "newton F (v / 2 * (1 + d)) z = Some w" "0 < w"
    "\<bar>w ^ 2 * v - (z ^ 2 * v) * (3 - z ^ 2 * v) ^ 2 / 4\<bar> \<le> 1 / 10 ^ 6"
    using newton_runs [OF assms(1,3) y(4) z(2) _ refl d(1)] z1 by auto
  have "\<bar>w ^ 2 * v - 1\<bar> \<le> 1 / 70000"
    by (rule after_step [OF z1 _ w(3)]) (simp_all add: power_divide)
  moreover from this have "\<bar>w ^ 2 * v - 1\<bar> \<le> 2 / 25" by linarith
  moreover have "isqrt F num = Some w" using assms(2) d(2) y(1) z(1) w(1) by (simp add: isqrt_def)
  ultimately show thesis using that root_range [OF assms(3) y(4) w(2)] by blast
qed

lemma float_sqrt_close:
  assumes "ieee F" and "0 < v" and "1 / 2 ^ 65 \<le> y" and "y \<le> 2 ^ 64" and "\<bar>y ^ 2 * v - 1\<bar> \<le> 1 / 70000"
  obtains r where "fdiv F 1 y = Some r" "0 < r" "\<bar>r ^ 2 - v\<bar> \<le> v / 65000"
proof -
  have y: "0 < y" using assms(3) by (rule less_le_trans [rotated]) simp
  have "1 / 2 ^ 64 \<le> 1 / y" "1 / y \<le> 1 / (1 / 2 ^ 65)" using assms(3,4) y by (intro divide_left_mono; simp)+
  then have range: "1 / 2 ^ 126 \<le> 1 / y" "1 / y < 2 ^ 127" by simp_all
  have "rounds_to (fdiv F 1 y) (1 / y)" using assms(1) y by (simp add: ieee_def)
  from rounds_factor [OF this range] obtain d where d: "\<bar>d\<bar> \<le> 1 / 2 ^ 24" "fdiv F 1 y = Some (1 / y * (1 + d))" by blast
  define m where "m = (1 + d) * (1 + d)"
  have m: "\<bar>m - 1\<bar> \<le> 3 / 2 ^ 24" unfolding m_def
    by (rule near_one [of _ "1 / 2 ^ 24" _ "1 / 2 ^ 24"]) (use d(1) in simp_all)
  let ?r = "1 / y * (1 + d)"
  have r: "?r ^ 2 * y ^ 2 = m" using y by (simp add: m_def power2_eq_square)
  have "\<bar>(?r ^ 2 - v) * y ^ 2\<bar> \<le> 1 / 65000 * (69999 / 70000)"
  proof -
    have "(?r ^ 2 - v) * y ^ 2 = m - y ^ 2 * v" unfolding left_diff_distrib r by (simp only: mult.commute)
    moreover have "\<bar>m - 1\<bar> \<le> 1 / 5000000" using m by simp
    ultimately show ?thesis using assms(5) by linarith
  qed
  moreover have "69999 / 70000 \<le> y ^ 2 * v" using assms(5) by linarith
  then have "1 / 65000 * (69999 / 70000) \<le> v / 65000 * y ^ 2" by (simp add: mult.commute)
  ultimately have "\<bar>?r ^ 2 - v\<bar> * y ^ 2 \<le> v / 65000 * y ^ 2" unfolding abs_mult by simp
  then have "\<bar>?r ^ 2 - v\<bar> \<le> v / 65000" using y by (simp only: mult_le_cancel_right) simp
  moreover have "0 < 1 + d" using d(1) by (simp add: abs_le_iff)
  then have "0 < ?r" using y by simp
  ultimately show thesis using that d(2) by blast
qed

section \<open>Property\<close>

text \<open>
  C20: square roots. For every normal number from \<open>2 ^ -125\<close> on, with arithmetic as the IEEE
  standard has it, the bit trick and the two Newton steps give a positive \<open>y\<close> with \<open>y * y * num\<close>
  within 1/70000 of 1, which is \<open>1 / sqrt num\<close> to better than one part in 100000, and the square
  of what \<open>sqrt\<close> returns is within one part in 65000 of the number.
\<close>

theorem float_sqrt_accurate:
  assumes "ieee F" and "float_val num = Some v" and "1 / 2 ^ 125 \<le> v"
  shows "\<exists>y r. isqrt F num = Some y \<and> 0 < y \<and> \<bar>y ^ 2 * v - 1\<bar> \<le> 1 / 70000
    \<and> float_sqrt F num = Some r \<and> 0 < r \<and> \<bar>r ^ 2 - v\<bar> \<le> v / 65000"
proof -
  obtain y where y: "isqrt F num = Some y" "1 / 2 ^ 65 \<le> y" "y \<le> 2 ^ 64" "\<bar>y ^ 2 * v - 1\<bar> \<le> 1 / 70000"
    using isqrt_close [OF assms] .
  have "0 < v" using assms(3) by (rule less_le_trans [rotated]) simp
  from float_sqrt_close [OF assms(1) this y(2-4)] obtain r where "fdiv F 1 y = Some r" "0 < r" "\<bar>r ^ 2 - v\<bar> \<le> v / 65000" .
  moreover have "0 < y" using y(2) by (rule less_le_trans [rotated]) simp
  ultimately show ?thesis using y(1,4) by (auto simp: float_sqrt_def)
qed

text \<open>Exact arithmetic is within the standard's bounds.\<close>

definition exact_fpu :: fpu where
  "exact_fpu = \<lparr>fmul = \<lambda>a b. Some (a * b), fsub = \<lambda>a b. Some (a - b), fdiv = \<lambda>a b. if b = 0 then None else Some (a / b)\<rparr>"

lemma exact_ieee: "ieee exact_fpu"
  by (simp add: ieee_def exact_fpu_def rounds_to_def)

lemma four_val: "float_val 0x40800000 = Some 4"
  by (simp add: float_val_def Let_def bit_numeral_rec)

lemma float_sqrt_accurate_witness:
  "\<exists>r. float_sqrt exact_fpu 0x40800000 = Some r \<and> 0 < r \<and> \<bar>r ^ 2 - 4\<bar> \<le> 4 / 65000"
proof -
  have "(1 :: rat) / 2 ^ 125 \<le> 4" by simp
  from float_sqrt_accurate [OF exact_ieee four_val this] show ?thesis by blast
qed

end
