(* ===== verification/Float_Format.thy ===== *)
theory Float_Format
  imports Lib_Props Complex_Main
begin

text \<open>
  The conversion \<open>%f\<close> of \<open>printf\<close> (\<open>kernel/lib/io.c\<close>). A finite \<open>double\<close> is its rational value; the
  one operation that may round, the multiplication by 10.0, is the parameter \<open>times10\<close> (the others
  are exact: the sign, the conversion to \<open>int\<close>, the difference of a number and its integer part). No
  call in the kernel uses \<open>%f\<close>, so \<open>format_loop\<close> stops at it and the conversion stands alone here.
\<close>

section \<open>The code\<close>

text \<open>\<open>for (int i = 0; i < 6; i++) { frac_part *= 10.0; digit = (int)frac_part; \<dots> }\<close>\<close>

primrec frac_loop :: "(rat \<Rightarrow> rat) \<Rightarrow> nat \<Rightarrow> rat \<Rightarrow> string" where
  "frac_loop times10 0 fr = []"
| "frac_loop times10 (Suc n) fr =
     (let fr = times10 fr;
          digit = \<lfloor>fr\<rfloor>
      in char_of (48 + nat digit) # frac_loop times10 n (fr - of_int digit))"

text \<open>An \<open>int\<close> cannot hold the integer part of a larger number: undefined, \<open>None\<close>.\<close>

definition fmt_f :: "(rat \<Rightarrow> rat) \<Rightarrow> rat \<Rightarrow> string option" where
  "fmt_f times10 num =
     (let neg = num < 0;
          num = (if neg then - num else num);
          int_part = \<lfloor>num\<rfloor>;
          frac_part = num - of_int int_part
      in if int_part < 2 ^ 31
         then Some ((if neg then ''-'' else []) @ (if int_part = 0 then ''0'' else rev (dec_loop (of_int int_part)))
           @ ''.'' @ frac_loop times10 6 frac_part)
         else None)"

section \<open>The digits\<close>

text \<open>A multiplication that is exact on multiples of \<open>2 ^ -52\<close> below 1.\<close>

definition exact_on :: "(rat \<Rightarrow> rat) \<Rightarrow> bool" where
  "exact_on times10 \<longleftrightarrow> (\<forall>k < 2 ^ 52. times10 (of_nat k / 2 ^ 52) = 10 * (of_nat k / 2 ^ 52))"

definition grid :: "rat \<Rightarrow> bool" where
  "grid r \<longleftrightarrow> (\<exists>k. r * 2 ^ 52 = of_int k)"

lemma exact_grid:
  assumes "exact_on times10" and "grid r" and "0 \<le> r" and "r < 1"
  shows "times10 r = 10 * r"
proof -
  obtain k where k: "r * 2 ^ 52 = of_int k" using assms(2) by (auto simp: grid_def)
  have "(0 :: rat) \<le> of_int k" "(of_int k :: rat) < of_int (2 ^ 52)" unfolding k [symmetric] using assms(3,4) by simp_all
  then have "0 \<le> k" "k < 2 ^ 52" by (simp_all only: of_int_0_le_iff of_int_less_iff)
  moreover from this have "of_nat (nat k) = (of_int k :: rat)" by simp
  ultimately have "times10 (of_int k / 2 ^ 52) = 10 * (of_int k / 2 ^ 52)"
    using assms(1) unfolding exact_on_def by (metis nat_less_numeral_power_cancel_iff)
  moreover have "of_int k / 2 ^ 52 = r" using k by (simp add: field_simps)
  ultimately show ?thesis by (simp only:)
qed

lemma grid_step:
  assumes "grid r"
  shows "grid (10 * r - of_int d)"
proof -
  obtain k where "r * 2 ^ 52 = of_int k" using assms by (auto simp: grid_def)
  then have "(10 * r - of_int d) * 2 ^ 52 = of_int (10 * k - d * 2 ^ 52)" by (simp add: left_diff_distrib)
  then show ?thesis by (auto simp only: grid_def)
qed

lemma numeral_value_Cons: "numeral_value b (c # t) = digit_value c * b ^ length t + numeral_value b t"
proof (induction t rule: rev_induct)
  case (snoc d t)
  have "numeral_value b ((c # t) @ [d]) = b * numeral_value b (c # t) + digit_value d" by (rule numeral_value_simps)
  then show ?case using snoc by (simp add: algebra_simps)
qed (simp add: numeral_value_def)

lemma frac_loop_digits:
  assumes "exact_on times10"
  shows "grid r \<Longrightarrow> 0 \<le> r \<Longrightarrow> r < 1 \<Longrightarrow> length (frac_loop times10 n r) = n
    \<and> int (numeral_value 10 (frac_loop times10 n r)) = \<lfloor>r * 10 ^ n\<rfloor>"
proof (induction n arbitrary: r)
  case 0
  then show ?case by (simp add: floor_unique)
next
  case (Suc n)
  let ?d = "\<lfloor>10 * r\<rfloor>"
  let ?r = "10 * r - of_int ?d"
  have d: "0 \<le> ?d" "?d < 10" using Suc.prems(2,3) by (simp_all add: floor_less_iff)
  then have nat_less: "nat ?d < 10" by linarith
  then have dv: "int (digit_value (digit (nat ?d))) = ?d" using d(1) by simp
  have loop: "frac_loop times10 (Suc n) r = digit (nat ?d) # frac_loop times10 n ?r"
    using exact_grid [OF assms Suc.prems] nat_less by (simp add: Let_def digit_def)
  have "0 \<le> ?r" "?r < 1" by linarith+
  then have IH: "length (frac_loop times10 n ?r) = n" "int (numeral_value 10 (frac_loop times10 n ?r)) = \<lfloor>?r * 10 ^ n\<rfloor>"
    using Suc.IH [OF grid_step [OF Suc.prems(1)]] by blast+
  have "r * 10 ^ Suc n = ?r * 10 ^ n + of_int (?d * 10 ^ n)" by (simp add: algebra_simps)
  then have "\<lfloor>r * 10 ^ Suc n\<rfloor> = \<lfloor>?r * 10 ^ n\<rfloor> + ?d * 10 ^ n" by (simp only: floor_add_int [symmetric])
  moreover have "int (numeral_value 10 (digit (nat ?d) # frac_loop times10 n ?r)) = ?d * 10 ^ n + \<lfloor>?r * 10 ^ n\<rfloor>"
    using dv IH by (simp add: numeral_value_Cons)
  ultimately show ?case using loop IH(1) by simp
qed

lemma int_digits:
  assumes "0 \<le> i" and "i < 2 ^ 31"
  shows "(if i = 0 then ''0'' else rev (dec_loop (of_int i))) = decimal (nat i)"
proof (cases "i = 0")
  case False
  have u: "unat (of_int i :: u32) = nat i" using assms by (simp add: unsigned_of_int take_bit_int_eq_self)
  then have "(of_int i :: u32) \<noteq> 0" using False assms(1) by auto
  then show ?thesis using False rev_dec_loop u by simp
qed (simp add: decimal_0)

section \<open>Property\<close>

text \<open>
  C33: \<open>%f\<close> prints a number in full: the sign, the decimal digits of the integer part without
  leading zeros, a point, and six digits that are the fraction cut off (not rounded) after the
  sixth place. It holds for every finite \<open>double\<close> of magnitude below \<open>2 ^ 31\<close> that is a multiple of
  \<open>2 ^ -52\<close>, when the multiplication by ten is exact on such fractions, as it is in the 64-bit
  mantissas of the x87 registers.
\<close>

theorem fmt_f_truncates:
  assumes "exact_on times10" and "grid num" and "\<bar>num\<bar> < 2 ^ 31"
  shows "\<exists>d. fmt_f times10 num = Some ((if num < 0 then ''-'' else []) @ decimal (nat \<lfloor>\<bar>num\<bar>\<rfloor>) @ ''.'' @ d)
    \<and> length d = 6 \<and> int (numeral_value 10 d) = \<lfloor>(\<bar>num\<bar> - of_int \<lfloor>\<bar>num\<bar>\<rfloor>) * 10 ^ 6\<rfloor>"
proof -
  let ?i = "\<lfloor>\<bar>num\<bar>\<rfloor>" and ?r = "\<bar>num\<bar> - of_int \<lfloor>\<bar>num\<bar>\<rfloor>"
  have i: "0 \<le> ?i" "?i < 2 ^ 31" using assms(3) by (simp_all add: floor_less_iff)
  obtain k where "num * 2 ^ 52 = of_int k" using assms(2) by (auto simp: grid_def)
  then have "\<bar>num\<bar> * 2 ^ 52 = of_int \<bar>k\<bar>" by (simp add: abs_mult flip: abs_mult [of num "2 ^ 52"])
  then have "?r * 2 ^ 52 = of_int (\<bar>k\<bar> - ?i * 2 ^ 52)" by (simp add: left_diff_distrib)
  then have "grid ?r" by (auto simp only: grid_def)
  moreover have "0 \<le> ?r" "?r < 1" by linarith+
  ultimately have "length (frac_loop times10 6 ?r) = 6" "int (numeral_value 10 (frac_loop times10 6 ?r)) = \<lfloor>?r * 10 ^ 6\<rfloor>"
    using frac_loop_digits [OF assms(1)] by blast+
  moreover have "(if ?i = 0 then ''0'' else rev (dec_loop (of_int ?i))) = decimal (nat ?i)" by (rule int_digits [OF i])
  then have "fmt_f times10 num = Some ((if num < 0 then ''-'' else []) @ decimal (nat ?i) @ ''.'' @ frac_loop times10 6 ?r)"
    using i(2) unfolding fmt_f_def Let_def abs_if [symmetric] by simp
  ultimately show ?thesis by blast
qed

lemma fmt_f_truncates_witness:
  "\<exists>d. fmt_f ((*) 10) (- 5 / 4) = Some (''-1.'' @ d) \<and> length d = 6 \<and> numeral_value 10 d = 250000"
proof -
  have "grid (- 5 / 4)" unfolding grid_def by (rule exI [of _ "- 5 * 2 ^ 50"]) simp
  moreover have "exact_on ((*) 10)" by (simp add: exact_on_def)
  moreover have "decimal (Suc 0) = ''1''" by code_simp
  moreover have "\<lfloor>5 / 4 :: rat\<rfloor> = 1" by (rule floor_unique) simp_all
  ultimately show ?thesis using fmt_f_truncates [of "(*) 10" "- 5 / 4"] by auto
qed

end
