(* ===== verification/Syscall_Tests.thy ===== *)
theory Syscall_Tests
  imports Stubs Tty
begin

text \<open>
  The programs under \<open>tests/syscall\<close>, run against the kernel: their inline assembly on the machine,
  with \<open>int\<close> going through the interrupt table to the stub the table names. They run in ring 0 on
  the stack of the shell, as \<open>uexExec\<close> starts them.
\<close>

section \<open>Programs and interrupts\<close>

datatype user_instr =
    Op instr
  | MovI u32 reg           \<comment> \<open>\<open>movl $n, dst\<close>\<close>
  | IntN nat                \<comment> \<open>\<open>int $n\<close>\<close>

text \<open>The code at the addresses the linker gives the stubs.\<close>

definition stub_code :: "symbols \<Rightarrow> u32 \<Rightarrow> instr list option" where
  "stub_code y = map_of [(isr_default_stub y, isr_default_code), (isr0_stub y, isr0_code), (irq0_stub y, irq0_code),
     (irq1_stub y, irq1_code), (syscall_stub y, syscall_code)]"

definition trap ::
    "symbols \<Rightarrow> ('a int_state_ext) callee \<Rightarrow> nat \<Rightarrow> machine_regs \<times> 'a int_state_scheme \<Rightarrow> (machine_regs \<times> 'a int_state_scheme) option" where
  "trap y f n x =
     (let handler = gate_target (idt (snd x) ! n)
      in map_option (\<lambda>code. exec f code (interrupt handler x)) (stub_code y handler))"

fun user_step ::
    "symbols \<Rightarrow> ('a int_state_ext) callee \<Rightarrow> user_instr \<Rightarrow> machine_regs \<times> 'a int_state_scheme \<Rightarrow> (machine_regs \<times> 'a int_state_scheme) option" where
  "user_step y f (Op i) x = Some (exec1 f i x)"
| "user_step y f (MovI n d) x = Some (reg_set d n (fst x), snd x)"
| "user_step y f (IntN n) x = trap y f n x"

fun user_run ::
    "symbols \<Rightarrow> ('a int_state_ext) callee \<Rightarrow> user_instr list \<Rightarrow> machine_regs \<times> 'a int_state_scheme \<Rightarrow> (machine_regs \<times> 'a int_state_scheme) option" where
  "user_run y f [] x = Some x"
| "user_run y f (i # is) x = Option.bind (user_step y f i x) (user_run y f is)"

section \<open>The programs\<close>

text \<open>
  \<open>0.c\<close>: the address of the string is in the register \<open>arg\<close> the compiler chose among those the
  program does not name; \<open>main\<close> returns 0. \<open>1.c\<close> names no register it changes.
\<close>

definition test0 :: "reg \<Rightarrow> user_instr list" where
  "test0 arg = [Op (Push EAX), Op (Push EBX), MovI 0 EAX, Op (Mov arg EBX), IntN 0x80, Op (Pop EBX), Op (Pop EAX), MovI 0 EAX]"

definition test1 :: "user_instr list" where
  "test1 = [Op (Push EAX), MovI 1 EAX, IntN 0x80, Op (Pop EAX), MovI 0 EAX]"

section \<open>A system call through the table\<close>

abbreviation distinct_stubs :: "symbols \<Rightarrow> bool" where
  "distinct_stubs y \<equiv> distinct [isr_default_stub y, isr0_stub y, irq0_stub y, irq1_stub y, syscall_stub y]"

lemma trap_syscall:
  assumes "compiled_ok C room screen" and "screen \<inter> region (esp r - 24) 24 = {}"
    and "gate_target (idt s ! 0x80) = syscall_stub y" and "distinct_stubs y"
  shows "\<exists>m. trap y (handlers C cpuid p inb (a, c, d)) 0x80 (r, s) = Some (r\<lparr>eax := - 1, ecx := c, edx := d\<rparr>,
       (snd (syscallh (eax r) (ebx r) (ecx r) (edx r) s))\<lparr>mem := m\<rparr>)
     \<and> {x. m x \<noteq> mem s x} \<subseteq> region (esp r - of_nat (44 + room)) (44 + room) \<union> screen"
proof -
  have "stub_code y (syscall_stub y) = Some syscall_code" using assms(4) by (auto simp: stub_code_def)
  then show ?thesis
    using syscall_run [OF assms(1,2), of cpuid p inb a c d "syscall_stub y" s] by (auto simp: trap_def Let_def assms(3))
qed

text \<open>The words a program pushed before the call are off the handler's stack and off the screen.\<close>

lemma above_kept:
  assumes "{x. m' x \<noteq> m x} \<subseteq> region (p - of_nat n) n \<union> screen" and "n \<le> 2 ^ 21" and "screen \<inter> region p k = {}"
    and "j + 4 \<le> k" and "k \<le> 2 ^ 20"
  shows "ld32 m' (p + of_nat j) = ld32 m (p + of_nat j)"
proof (rule ld32_frame [OF _ assms(4)], intro ballI)
  fix x assume x: "x \<in> region p k"
  then obtain i where i: "i < k" "x = p - of_nat n + of_nat (n + i)" by (auto simp: region_def)
  have "x \<notin> region (p - of_nat n) n" unfolding i(2) using i(1) assms(2,5) by (intro not_in_region) simp_all
  moreover have "x \<notin> screen" using assms(3) x by (meson disjoint_iff)
  ultimately show "m' x = m x" using subsetD [OF assms(1), of x] by auto
qed

lemma below_stack:
  assumes "k \<le> 8"
  shows "region (p - of_nat k - of_nat n) n \<union> region (p - of_nat k) k \<subseteq> region (p - of_nat (8 + n)) (8 + n)"
proof -
  let ?b = "p - of_nat (8 + n) :: u32"
  have "p - of_nat k - of_nat n = ?b + of_nat (8 - k)" "p - of_nat k = ?b + of_nat (8 - k + n)" using assms by (simp_all add: of_nat_diff)
  moreover have "region (?b + of_nat (8 - k)) n \<subseteq> region ?b (8 + n)"
    using region_offset [of ?b "8 - k" n] region_mono [of "8 - k + n" "8 + n" ?b] by simp
  moreover have "8 - k + n + k = 8 + n" using assms by simp
  then have "region (?b + of_nat (8 - k + n)) k \<subseteq> region ?b (8 + n)"
    using region_offset [of ?b "8 - k + n" k] by (simp only:)
  ultimately show ?thesis by (simp only: Un_least)
qed

text \<open>A call made after \<open>k\<close> bytes were pushed.\<close>

lemma pushed_call:
  assumes "{x. m x \<noteq> m1 x} \<subseteq> region (p - of_nat k - of_nat (44 + room)) (44 + room) \<union> screen"
    and "\<And>x. x \<notin> region (p - of_nat k) k \<Longrightarrow> m1 x = m0 x" and "k \<le> 8"
  shows "{x. m x \<noteq> m0 x} \<subseteq> region (p - of_nat (52 + room)) (52 + room) \<union> screen"
proof
  fix x assume x: "x \<in> {x. m x \<noteq> m0 x}"
  have "x \<in> region (p - of_nat k - of_nat (44 + room)) (44 + room) \<union> region (p - of_nat k) k \<union> screen"
  proof (cases "m x = m1 x")
    case True
    then show ?thesis using x assms(2) [of x] by auto
  next
    case False
    then show ?thesis using subsetD [OF assms(1), of x] by auto
  qed
  moreover have "region (p - of_nat k - of_nat (44 + room)) (44 + room) \<union> region (p - of_nat k) k \<subseteq> region (p - of_nat (52 + room)) (52 + room)"
    using below_stack [OF assms(3), of p "44 + room"] by (simp only: add.assoc [symmetric]) simp
  ultimately show "x \<in> region (p - of_nat (52 + room)) (52 + room) \<union> screen" by blast
qed

lemma call_0:
  assumes "compiled_ok C room screen" and "screen \<inter> region (esp r - 32) 32 = {}"
    and "gate_target (idt s ! 0x80) = syscall_stub y" and "distinct_stubs y" and "arg \<in> {ESI, EDI, EBP}"
  shows "\<exists>m. user_run y (handlers C cpuid p inb (a, c, d)) (test0 arg) (r, s) = Some (r\<lparr>eax := 0, ecx := c, edx := d\<rparr>,
       tty_out (''syscall 0 (just a test)'' @ ''syscall 1 (another test)'') (s\<lparr>mem := m\<rparr>))
     \<and> {x. m x \<noteq> mem s x} \<subseteq> region (esp r - of_nat (52 + room)) (52 + room) \<union> screen"
proof -
  let ?m = "st32 (esp r - 8) (ebx r) (st32 (esp r - 4) (eax r) (mem s))"
  let ?r = "r\<lparr>esp := esp r - 8, eax := 0, ebx := reg_get arg r\<rparr>"
  have small: "44 + room \<le> 2 ^ 21" using assms(1) by (simp add: compiled_ok_def)
  have "region (esp r - 32) 24 \<subseteq> region (esp r - 32) 32" "region (esp r - 8) 8 \<subseteq> region (esp r - 32) 32"
    using region_mono [of 24 32 "esp r - 32"] region_offset [of "esp r - 32" 24 8] by simp_all
  then have free: "screen \<inter> region (esp ?r - 24) 24 = {}" "screen \<inter> region (esp r - 8) 8 = {}"
    using assms(2) by auto
  have gate: "gate_target (idt (s\<lparr>mem := ?m\<rparr>) ! 0x80) = syscall_stub y" using assms(3) by simp
  obtain m where m: "trap y (handlers C cpuid p inb (a, c, d)) 0x80 (?r, s\<lparr>mem := ?m\<rparr>) = Some (?r\<lparr>eax := - 1, ecx := c, edx := d\<rparr>,
       (snd (syscallh 0 (reg_get arg r) (ecx r) (edx r) (s\<lparr>mem := ?m\<rparr>)))\<lparr>mem := m\<rparr>)"
     "{x. m x \<noteq> ?m x} \<subseteq> region (esp r - 8 - of_nat (44 + room)) (44 + room) \<union> screen"
    using trap_syscall [OF assms(1) free(1) gate assms(4), of cpuid p inb a c d] by auto
  have saved: "ld32 m (esp r - 8) = ebx r" "ld32 m (esp r - 4) = eax r"
    using above_kept [OF m(2) small free(2), of 0] above_kept [OF m(2) small free(2), of 4] by (simp_all add: ld32_st32_apart)
  have "?m x = mem s x" if "x \<notin> region (esp r - of_nat 8) 8" for x
    using st32_in_region [OF that, of 0] st32_in_region [OF that, of 4] by simp
  from pushed_call [of m ?m "esp r" 8, OF _ this] m(2)
  have "{x. m x \<noteq> mem s x} \<subseteq> region (esp r - of_nat (52 + room)) (52 + room) \<union> screen" by simp
  moreover have "user_run y (handlers C cpuid p inb (a, c, d)) (test0 arg) (r, s) = Some (r\<lparr>eax := 0, ecx := c, edx := d\<rparr>,
       tty_out (''syscall 0 (just a test)'' @ ''syscall 1 (another test)'') (s\<lparr>mem := m\<rparr>))"
    using assms(5) m(1) saved by (auto simp: test0_def machine_run syscallh_eq tty_out_def)
  ultimately show ?thesis by blast
qed

lemma call_1:
  assumes "compiled_ok C room screen" and "screen \<inter> region (esp r - 32) 32 = {}"
    and "gate_target (idt s ! 0x80) = syscall_stub y" and "distinct_stubs y"
  shows "\<exists>m. user_run y (handlers C cpuid p inb (a, c, d)) test1 (r, s) = Some (r\<lparr>eax := 0, ecx := c, edx := d\<rparr>,
       tty_out ''syscall 1 (another test)'' (s\<lparr>mem := m\<rparr>))
     \<and> {x. m x \<noteq> mem s x} \<subseteq> region (esp r - of_nat (52 + room)) (52 + room) \<union> screen"
proof -
  let ?m = "st32 (esp r - 4) (eax r) (mem s)"
  let ?r = "r\<lparr>esp := esp r - 4, eax := 1\<rparr>"
  have small: "44 + room \<le> 2 ^ 21" using assms(1) by (simp add: compiled_ok_def)
  have "region (esp r - 28) 24 \<subseteq> region (esp r - 32) 32" "region (esp r - 4) 4 \<subseteq> region (esp r - 32) 32"
    using region_offset [of "esp r - 32" 4 24] region_mono [of 28 32 "esp r - 32"] region_offset [of "esp r - 32" 28 4] by simp_all
  then have free: "screen \<inter> region (esp ?r - 24) 24 = {}" "screen \<inter> region (esp r - 4) 4 = {}"
    using assms(2) by auto
  have gate: "gate_target (idt (s\<lparr>mem := ?m\<rparr>) ! 0x80) = syscall_stub y" using assms(3) by simp
  obtain m where m: "trap y (handlers C cpuid p inb (a, c, d)) 0x80 (?r, s\<lparr>mem := ?m\<rparr>) = Some (?r\<lparr>eax := - 1, ecx := c, edx := d\<rparr>,
       (snd (syscallh 1 (ebx r) (ecx r) (edx r) (s\<lparr>mem := ?m\<rparr>)))\<lparr>mem := m\<rparr>)"
     "{x. m x \<noteq> ?m x} \<subseteq> region (esp r - 4 - of_nat (44 + room)) (44 + room) \<union> screen"
    using trap_syscall [OF assms(1) free(1) gate assms(4), of cpuid p inb a c d] by auto
  have saved: "ld32 m (esp r - 4) = eax r"
    using above_kept [OF m(2) small free(2), of 0] by simp
  have "?m x = mem s x" if "x \<notin> region (esp r - of_nat 4) 4" for x
    using st32_in_region [OF that, of 0] by simp
  from pushed_call [of m ?m "esp r" 4, OF _ this] m(2)
  have "{x. m x \<noteq> mem s x} \<subseteq> region (esp r - of_nat (52 + room)) (52 + room) \<union> screen" by simp
  moreover have "user_run y (handlers C cpuid p inb (a, c, d)) test1 (r, s) = Some (r\<lparr>eax := 0, ecx := c, edx := d\<rparr>,
       tty_out ''syscall 1 (another test)'' (s\<lparr>mem := m\<rparr>))"
    using m(1) saved by (auto simp: test1_def machine_run syscallh_eq tty_out_def)
  ultimately show ?thesis by blast
qed

text \<open>Compiled code whose terminal draws: the model of \<open>tty_putc\<close>.\<close>

definition drawing_code :: compiled where
  "drawing_code = plain_code\<lparr>draw := \<lambda>es m. mem (fold render es (screen_state\<lparr>mem := m\<rparr>))\<rparr>"

lemma drawing_code_ok: "compiled_ok drawing_code 4 (fb_region screen_state)"
proof -
  have "mem (fold render es (screen_state\<lparr>mem := m\<rparr>)) x = m x" if "x \<notin> fb_region screen_state" for es m x
    using tty.transcript [of "screen_state\<lparr>mem := m\<rparr>" es] screen_ok(1,2) that unfolding render_show_event
    by (simp add: tty_wf_def fb_ok_def fb_region_def depth_def)
  then show ?thesis using plain_code_ok [of "fb_region screen_state"] by (simp add: compiled_ok_def drawing_code_def)
qed

section \<open>Property\<close>

text \<open>
  C21: the test programs run. With the table \<open>int_init\<close> built, the stubs at different addresses and a
  stack the terminal does not draw on, \<open>0.c\<close> prints the messages of both calls and \<open>1.c\<close> that of
  call 1. Each returns 0 in \<open>eax\<close> with the stack pointer, the flags and the other registers as
  before, except \<open>ecx\<close> and \<open>edx\<close>, which hold what the C handler left there (\<open>1.c\<close> does not allow
  for that). Memory changes on the screen and below the stack pointer, by at most 52 bytes more than
  the handler's own stack.
\<close>

theorem syscall_tests_run:
  assumes "length (idt t) = 256" and "s = int_init io y t" and "arg \<in> {ESI, EDI, EBP}"
    and "distinct [isr_default_stub y, isr0_stub y, irq0_stub y, irq1_stub y, syscall_stub y]"
    and "compiled_ok C room screen" and "screen \<inter> region (esp r - 32) 32 = {}"
  shows "\<exists>s0 s1. user_run y (handlers C cpuid p inb (a, c, d)) (test0 arg) (r, s) = Some (r\<lparr>eax := 0, ecx := c, edx := d\<rparr>, s0)
    \<and> con s0 = con s @ map Out (''syscall 0 (just a test)'' @ ''syscall 1 (another test)'')
    \<and> user_run y (handlers C cpuid p inb (a, c, d)) test1 (r, s) = Some (r\<lparr>eax := 0, ecx := c, edx := d\<rparr>, s1)
    \<and> con s1 = con s @ map Out ''syscall 1 (another test)''
    \<and> {x. mem s0 x \<noteq> mem s x \<or> mem s1 x \<noteq> mem s x} \<subseteq> region (esp r - of_nat (52 + room)) (52 + room) \<union> screen"
proof -
  have gate: "gate_target (idt s ! 0x80) = syscall_stub y" using int_init_idt [OF assms(1), of "0x80" io y] assms(2) by simp
  let ?below = "region (esp r - of_nat (52 + room)) (52 + room) \<union> screen"
  obtain m0 where m0: "user_run y (handlers C cpuid p inb (a, c, d)) (test0 arg) (r, s) = Some (r\<lparr>eax := 0, ecx := c, edx := d\<rparr>,
       tty_out (''syscall 0 (just a test)'' @ ''syscall 1 (another test)'') (s\<lparr>mem := m0\<rparr>))"
    "{x. m0 x \<noteq> mem s x} \<subseteq> ?below"
    using call_0 [OF assms(5,6) gate assms(4,3), of cpuid p inb a c d] by blast
  obtain m1 where m1: "user_run y (handlers C cpuid p inb (a, c, d)) test1 (r, s) = Some (r\<lparr>eax := 0, ecx := c, edx := d\<rparr>,
       tty_out ''syscall 1 (another test)'' (s\<lparr>mem := m1\<rparr>))"
    "{x. m1 x \<noteq> mem s x} \<subseteq> ?below"
    using call_1 [OF assms(5,6) gate assms(4), of cpuid p inb a c d] by blast
  from m0(2) m1(2) have "{x. m0 x \<noteq> mem s x \<or> m1 x \<noteq> mem s x} \<subseteq> ?below" by blast
  with m0(1) m1(1) show ?thesis by simp
qed

definition shell_regs :: machine_regs where
  "shell_regs = \<lparr>eax = 7, ebx = 2, ecx = 3, edx = 4, esi = 0x13800, edi = 5, ebp = 6, esp = 0x80000, eip = 0x100000, cs = 8, eflags = 0x202\<rparr>"

lemma syscall_tests_run_witness:
  "\<forall>p. \<exists>s0 s1. user_run boot_symbols (handlers drawing_code (\<lambda>_. (0, 0, 0, 0)) p (\<lambda>_. 0) (1, 2, 3)) (test0 ESI)
        (shell_regs, int_init (\<lambda>_. 0) boot_symbols boot_int) = Some (shell_regs\<lparr>eax := 0, ecx := 2, edx := 3\<rparr>, s0)
    \<and> user_run boot_symbols (handlers drawing_code (\<lambda>_. (0, 0, 0, 0)) p (\<lambda>_. 0) (1, 2, 3)) test1
        (shell_regs, int_init (\<lambda>_. 0) boot_symbols boot_int) = Some (shell_regs\<lparr>eax := 0, ecx := 2, edx := 3\<rparr>, s1)"
proof -
  have "length (idt boot_int) = 256" by (simp add: boot_int_def)
  moreover have "distinct_stubs boot_symbols" by (simp add: boot_symbols_def)
  moreover have "fb_region screen_state \<inter> region (esp shell_regs - 32) 32 = {}"
    by (subst Int_commute, unfold fb_region_def, rule regions_disjoint) (simp_all add: screen_state_def shell_regs_def)
  ultimately show ?thesis
    using syscall_tests_run [OF _ refl _ _ drawing_code_ok, where t = boot_int and arg = ESI and y = boot_symbols and io = "\<lambda>_. 0" and r = shell_regs]
    by blast
qed

end
