(* ===== verification/Spec2Isabelle.thy ===== *)
theory Spec2Isabelle
  imports Pmm_Props Paging Lib_Misc Lib_Props E820 Tty Vga Stubs Sched
    Kfs_Props Vfs Logo Power_Ctl Pci Boot_Props Boot_Memory Floating Float_Format Syscall_Tests
begin

text \<open>
  The kernel of system44, a 32-bit single-processor system (\<open>kernel/\<close> in the repository),
  modelled function by function. Pointers, \<open>size_t\<close> and \<open>int\<close> are 32 bits wide.

  \<^bold>\<open>The program and the theories.\<close> The boot loader fills tables at fixed addresses and jumps to
  \<open>kmain\<close>, which brings up the screen, the interrupt controllers, the page allocator, the PCI
  list, the file system and the scheduler; the scheduler switches between a counter task and
  the shell; the shell reads keys that the keyboard interrupt has buffered and runs commands on
  the file system, which sits on the disk driver.

    \<^item> \<open>Prelude\<close>, \<open>Lib_Base\<close>: machine words, flat memory (a function from 32-bit addresses to bytes),
      the record \<open>kernel\<close> every component extends, \<open>lib/error.h\<close>, \<open>lib/memory.c\<close>.
    \<^item> \<open>Lib_String\<close>, \<open>Lib_IO\<close>, \<open>Lib_Props\<close>, \<open>Lib_Misc\<close>, \<open>Log\<close>: \<open>lib/string.c\<close>, \<open>lib/io.c\<close>, \<open>lib/rand.c\<close>, \<open>lib/time.c\<close>,
      \<open>core/log.c\<close>, \<open>core/hwi.c\<close>, \<open>core/panic.c\<close>. \<open>Floating\<close>: \<open>lib/math.c\<close>. \<open>Float_Format\<close>: the conversion
      \<open>%f\<close> of \<open>lib/io.c\<close>, by itself.
    \<^item> \<open>Pmm\<close>, \<open>Page_Allocator\<close>, \<open>Pmm_Spec\<close>, \<open>Pmm_Init\<close>, \<open>Pmm_Props\<close>: \<open>mm/pmm.c\<close>; \<open>Paging\<close>: \<open>mm/paging.c\<close>;
      \<open>E820\<close>: \<open>mm/lmm.c\<close>. \<open>Statics\<close>, \<open>Image\<close>: the variables of \<open>mm/pmm.c\<close> and the interrupt descriptor
      table as bytes of memory.
    \<^item> \<open>Fifo\<close>, \<open>Keyboard\<close>: \<open>drivers/keyboard.c\<close>. \<open>Framebuffer\<close>, \<open>Font\<close>, \<open>Fbcon\<close>, \<open>Tty\<close>: \<open>drivers/fb.c\<close>,
      \<open>drivers/fonts/basic8x8.h\<close>, \<open>drivers/fbcon.c\<close>, \<open>drivers/tty.c\<close>. \<open>Vga\<close>: \<open>drivers/vga.c\<close> and
      \<open>drivers/tty_vtm.c\<close>. \<open>Console\<close>: what both terminals promise.
    \<^item> \<open>Machine\<close>, \<open>Interrupts\<close>, \<open>Stubs\<close>: the instructions of the assembly parts, \<open>int/interrupts.c\<close> and
      its stubs. \<open>Sched\<close>: \<open>sched/sched.c\<close> and \<open>core/switch.S\<close>. \<open>Syscall_Tests\<close>: the programs of
      \<open>tests/syscall\<close>, run on that machine.
    \<^item> \<open>Ata\<close>, \<open>Pio\<close>: \<open>drivers/ata.c\<close> and a concrete drive. \<open>Kfs\<close>, \<open>Kfs_Props\<close>, \<open>Vfs\<close>: \<open>fs/kfs.c\<close>,
      \<open>fs/vfs.c\<close>. \<open>Uex\<close>: \<open>exe/uex.c\<close> and \<open>lib/exec.c\<close>. \<open>Logo\<close>: reading and drawing a bitmap file, the
      rest of \<open>drivers/fb.c\<close>.
    \<^item> \<open>Pci\<close>: \<open>drivers/pci.c\<close>. \<open>Power_Ctl\<close>: \<open>core/power.c\<close>.
    \<^item> \<open>Line_Editor\<close>, \<open>Typing\<close>, \<open>Shell\<close>, \<open>Shell_Props\<close>: \<open>core/shell.c\<close>. \<open>Init\<close>, \<open>Boot\<close>, \<open>Boot_Props\<close>,
      \<open>Boot_Memory\<close>: \<open>core/init.c\<close> and what the parts do together after it.

  \<^bold>\<open>State and effects.\<close> Each component's static variables are the fields of a record extending
  \<open>kernel\<close> (memory, the transcript of the console, the port writes, the tick counter, \<open>halted\<close> once
  \<open>panic\<close> has run, \<open>stuck\<close> where C leaves the result undefined); structures that the code reaches
  through pointers (the page bitmap, the superblock, the process table, stacks, the frame buffer)
  live in the flat memory. Where a write can reach static variables too, they are stored to the
  addresses the linker gave them before it and loaded after it: the writes of the owner of a block
  (\<open>owner_write\<close>), for the allocator's variables, and the 512 bytes mounting reads to the 328-byte
  superblock (\<open>spill\<close> and \<open>fetch\<close> around \<open>kfs_mount\<close> in \<open>kmain\<close>), for the variables of the files linked
  behind \<open>fs/kfs.c\<close> that the state has. An operation takes the state and returns it. Strings in arrays are
  lists of characters of the array's length; a routine that would run out of its array is \<open>None\<close>.
  The console is a transcript (\<open>con\<close>); \<open>Tty\<close> and \<open>Vga\<close> draw one, \<open>Console\<close> states what a drawing
  may change. Errors are the code's values, a wait that never ends is \<open>None\<close> of a
  \<open>partial_function\<close>, so every statement that an operation returns is an equation with \<open>Some\<close>.
  No fuel is used; loops with a bound are recursions or folds over their index.

  \<^bold>\<open>Interfaces.\<close> \<open>bounded_fifo\<close> (the key buffer), \<open>page_allocator\<close> (blocks handed out and returned),
  \<open>console\<close> (both terminals), \<open>block_device\<close> (sectors written are read back) and \<open>typist\<close> (keys
  arrive while the shell yields) are locales, each interpreted on the definitions of the model.
  What lies outside the repository is a parameter with its documented behaviour as a hypothesis:
  the ports of the disk (\<open>ata_ready\<close>) and of the PCI host bridge (\<open>pci_host\<close>; \<open>pci_bars\<close> for the
  base address registers), the stack frames and the drawing of compiled C code (\<open>compiled_ok\<close>), the
  loaded program, the BIOS, the \<open>cpuid\<close> instruction, the clock (\<open>real_time\<close>), the floating-point unit
  (\<open>ieee\<close>, \<open>exact_on\<close>). Each such hypothesis has a concrete instance (\<open>Pio\<close>, \<open>sim_bus\<close>, \<open>plain_code\<close>, \<open>exact_fpu\<close>).

  \<^bold>\<open>What is shown.\<close>
    \<^item> Memory: \<open>pmm_alloc\<close>, with its word skipping, two searches and hint, is a first-fit search; blocks
      handed out are disjoint, RAM in the E820 map (for maps with usable entries below 4 GiB that
      start on pages) and not the allocator's bitmap, as long as their owners keep off the kernel's own
      memory; what \<open>pmm_init\<close> leaves free, the pages of the kernel's own image among it; the page tables are the identity below 4 MiB.
    \<^item> Storage: sectors, files and the directory survive being written and mounted again; no write
      damages another file; the loader puts a program where its header says; reading a byte range
      of a file returns. A drive error makes the driver wait for ever, and a name written twice
      is never found again.
    \<^item> Processes and interrupts: a process that yields resumes exactly, at most one runs, each gets
      its turn within eight steps; the timer's stub is transparent, the stack of its handler
      included; after \<open>kmain\<close> every vector leads to its stub but those whose entries the sector read to
      the superblock replaces; the test programs print what their system calls print and get back every register but two.
    \<^item> Screen and keyboard: printing stays inside the frame buffer and shows the glyphs; both terminals
      refine a plain screen with a position; the key buffer loses nothing it accepted wherever the
      interrupt falls.
    \<^item> Library: \<open>printf\<close> prints digits that denote the number, call after call \<open>strtok\<close> goes through the
      fields of a text, \<open>usleep\<close> ends at the first reading that shows its time has passed, the square
      roots are good to about five decimal places, \<open>%f\<close> cuts its digits off.
    \<^item> The whole: \<open>kmain\<close> reaches the scheduler with its two processes, which then both get their turn,
      and the second starts the shell; the page allocator keeps its promises in that state; typing
      \<open>cat\<close> and a name, as scan codes, prints the file; a line never leaves its array, but an erased argument is still used.

  \<^bold>\<open>Limits.\<close> Interrupts are interleaved with \<open>get_key\<close> step by step in \<open>Keyboard\<close>; elsewhere an operation
  runs as one step, and what happens while the shell yields is the parameter of its loop. A
  process is the memory of its stack and its saved registers; C code between two switches is
  the step \<open>other\<close> of the scheduler. Apart from the two places named above, a write to memory does
  not change static variables kept in record fields; those of the files linked before \<open>fs/kfs.c\<close>
  (keyboard, terminal, frame buffer) and the initialised data lie below the superblock, where the
  sector does not reach. \<open>cli\<close> and \<open>sti\<close> are not part of the state.
  The format loop of \<open>printf\<close> stops at \<open>%f\<close>, which no call of the kernel uses.

  \<^bold>\<open>Not modelled.\<close> \<open>mm/mmio.c\<close> (two declarations without a body); \<open>boot/boot.s\<close> (16-bit code; the
  tables it leaves are read at their addresses).
\<close>

end
